(* ===== verification/Netpoke_Prelude.thy ===== *)
theory Netpoke_Prelude
  imports Main "HOL-Library.Word" "HOL-Library.Monad_Syntax"
begin

text \<open>
  The shared vocabulary of the development.

  \<^item> Rust's machine integers are words of the source's width; \<open>usize\<close> values that only
    count or index are \<open>nat\<close>.
  \<^item> The workspace builds with \<open>overflow-checks = true\<close> (Cargo.toml), so an arithmetic
    overflow, an out-of-range index and an \<open>unwrap\<close> of \<open>None\<close> all panic. A function
    that can panic returns an \<open>option\<close> whose \<open>None\<close> is the panic; a Rust
    \<open>Option\<close> or \<open>Result\<close> that such a function returns is the value inside.
  \<^item> Addresses of \<open>std::net\<close> are words (\<open>V4\<close> of 32 bits, \<open>V6\<close> of 128 bits)
    with the octets in network order.
\<close>

unbundle bit_operations_syntax

named_theorems panic_free \<open>facts that a checked operation does not panic\<close>
named_theorems codec_simps \<open>round-trip and length facts of the byte encodings\<close>

type_synonym u8 = "8 word"
type_synonym u16 = "16 word"
type_synonym u32 = "32 word"
type_synonym u64 = "64 word"
type_synonym u128 = "128 word"
type_synonym i32 = "32 word"
type_synonym i64 = "64 word"
type_synonym bytes = "u8 list"

subsection \<open>Checked operations\<close>

definition idx :: "'a list \<Rightarrow> nat \<Rightarrow> 'a option" where
  "idx xs i = (if i < length xs then Some (xs ! i) else None)"

definition slice :: "'a list \<Rightarrow> nat \<Rightarrow> nat \<Rightarrow> 'a list option" where
  "slice xs a b = (if a \<le> b \<and> b \<le> length xs then Some (take (b - a) (drop a xs)) else None)"

definition set_idx :: "'a list \<Rightarrow> nat \<Rightarrow> 'a \<Rightarrow> 'a list option" where
  "set_idx xs i v = (if i < length xs then Some (xs[i := v]) else None)"

definition umod_checked :: "nat \<Rightarrow> nat \<Rightarrow> nat option" where
  "umod_checked a b = (if b = 0 then None else Some (a mod b))"

definition add_checked :: "'a::len word \<Rightarrow> 'a word \<Rightarrow> 'a word option" where
  "add_checked x y = (if unat x + unat y < 2 ^ LENGTH('a) then Some (x + y) else None)"

definition mul_checked :: "'a::len word \<Rightarrow> 'a word \<Rightarrow> 'a word option" where
  "mul_checked x y = (if unat x * unat y < 2 ^ LENGTH('a) then Some (x * y) else None)"

definition sub_checked :: "'a::len word \<Rightarrow> 'a word \<Rightarrow> 'a word option" where
  "sub_checked x y = (if y \<le> x then Some (x - y) else None)"

definition usub_checked :: "nat \<Rightarrow> nat \<Rightarrow> nat option" where
  "usub_checked x y = (if y \<le> x then Some (x - y) else None)"

definition saturating_sub :: "'a::len word \<Rightarrow> 'a word \<Rightarrow> 'a word" where
  "saturating_sub x y = (if y \<le> x then x - y else 0)"

lemma idx_Some [simp, panic_free]: "i < length xs \<Longrightarrow> idx xs i = Some (xs ! i)"
  by (simp add: idx_def)

lemma idx_eq_Some_iff: "idx xs i = Some v \<longleftrightarrow> i < length xs \<and> v = xs ! i"
  by (auto simp: idx_def)

lemma idx_eq_None_iff [simp]: "idx xs i = None \<longleftrightarrow> length xs \<le> i"
  by (simp add: idx_def not_less)

lemma idx_append [simp]:
  "i < length xs \<Longrightarrow> idx (xs @ ys) i = idx xs i"
  "length xs \<le> i \<Longrightarrow> idx (xs @ ys) i = idx ys (i - length xs)"
  by (auto simp: idx_def nth_append)

lemma slice_Some [simp, panic_free]:
  "a \<le> b \<Longrightarrow> b \<le> length xs \<Longrightarrow> slice xs a b = Some (take (b - a) (drop a xs))"
  by (simp add: slice_def)

lemma slice_eq_Some_iff:
  "slice xs a b = Some ys \<longleftrightarrow> a \<le> b \<and> b \<le> length xs \<and> ys = take (b - a) (drop a xs)"
  by (auto simp: slice_def)

lemma length_slice: "slice xs a b = Some ys \<Longrightarrow> length ys = b - a"
  by (auto simp: slice_def split: if_splits)

lemma add_checked_Some:
  "add_checked (x :: 'a::len word) y = Some z \<Longrightarrow> unat z = unat x + unat y"
  by (auto simp: add_checked_def unat_word_ariths split: if_splits)

lemma add_checked_eq_None_iff:
  "add_checked (x :: 'a::len word) y = None \<longleftrightarrow> 2 ^ LENGTH('a) \<le> unat x + unat y"
  by (auto simp: add_checked_def)

lemma sub_checked_Some:
  "sub_checked (x :: 'a::len word) y = Some z \<Longrightarrow> unat z = unat x - unat y"
  by (auto simp: sub_checked_def unat_sub split: if_splits)

lemma unat_saturating_sub: "unat (saturating_sub x y) = unat x - unat y"
  by (auto simp: saturating_sub_def unat_sub word_le_nat_alt)

subsection \<open>Byte encodings of integers\<close>

text \<open>
  \<open>to_be_bytes\<close>, \<open>from_be_bytes\<close>, \<open>to_le_bytes\<close> of the standard library, for every
  width: \<open>n\<close> bytes of a natural number and back.
\<close>

fun be_bytes :: "nat \<Rightarrow> nat \<Rightarrow> bytes" where
  "be_bytes 0 x = []"
| "be_bytes (Suc n) x = be_bytes n (x div 256) @ [of_nat x]"

fun le_bytes :: "nat \<Rightarrow> nat \<Rightarrow> bytes" where
  "le_bytes 0 x = []"
| "le_bytes (Suc n) x = of_nat x # le_bytes n (x div 256)"

definition be_nat :: "bytes \<Rightarrow> nat" where
  "be_nat bs = foldl (\<lambda>a b. 256 * a + unat b) 0 bs"

fun le_nat :: "bytes \<Rightarrow> nat" where
  "le_nat [] = 0"
| "le_nat (b # bs) = unat b + 256 * le_nat bs"

definition u16_be :: "u8 \<Rightarrow> u8 \<Rightarrow> u16" where
  "u16_be a b = of_nat (be_nat [a, b])"

lemma be_bytes_numeral:
  "be_bytes (numeral k) x = be_bytes (pred_numeral k) (x div 256) @ [of_nat x]"
  by (simp only: numeral_eq_Suc [of k] be_bytes.simps)

lemma le_bytes_numeral:
  "le_bytes (numeral k) x = of_nat x # le_bytes (pred_numeral k) (x div 256)"
  by (simp only: numeral_eq_Suc [of k] le_bytes.simps)

lemma replicate_numeral: "replicate (numeral k) x = x # replicate (pred_numeral k) x"
  by (simp only: numeral_eq_Suc [of k] replicate.simps)

lemma length_be_bytes [simp, codec_simps]: "length (be_bytes n x) = n"
  by (induction n arbitrary: x) auto

lemma length_le_bytes [simp, codec_simps]: "length (le_bytes n x) = n"
  by (induction n arbitrary: x) auto

lemma unat_of_nat_u8 [simp]: "unat (of_nat x :: u8) = x mod 256"
  by (simp add: unat_of_nat)

lemma unat_of_nat_small: "x < 2 ^ LENGTH('a) \<Longrightarrow> unat (of_nat x :: 'a::len word) = x"
  by (simp only: unat_of_nat mod_less)

lemma unat_u16_less [simp]: "unat (w :: u16) < 65536"
  using unsigned_less [of w, where ?'a = nat] by simp

lemma be_nat_Nil [simp]: "be_nat [] = 0"
  by (simp add: be_nat_def)

lemma be_nat_snoc [simp]: "be_nat (bs @ [b]) = 256 * be_nat bs + unat b"
  by (simp add: be_nat_def)

lemma be_nat_single [simp]: "be_nat [b] = unat b"
  by (simp add: be_nat_def)

lemma be_nat_pair: "be_nat [a, b] = 256 * unat a + unat b"
  by (simp add: be_nat_def)

lemma unat_u8_less [simp]: "unat (b :: u8) < 256"
  using unsigned_less [of b, where ?'a = nat] by simp

lemma be_nat_be_bytes [codec_simps]: "be_nat (be_bytes n x) = x mod 256 ^ n"
proof (induction n arbitrary: x)
  case (Suc n)
  have "x mod 256 ^ Suc n = 256 * (x div 256 mod 256 ^ n) + x mod 256"
    by (simp add: mod_mult2_eq)
  with Suc show ?case by simp
qed simp

lemma le_nat_le_bytes [codec_simps]: "le_nat (le_bytes n x) = x mod 256 ^ n"
proof (induction n arbitrary: x)
  case (Suc n)
  have "x mod 256 ^ Suc n = 256 * (x div 256 mod 256 ^ n) + x mod 256"
    by (simp add: mod_mult2_eq)
  with Suc show ?case by simp
qed simp

lemma be_nat_less: "be_nat bs < 256 ^ length bs"
proof (induction bs rule: rev_induct)
  case (snoc b bs)
  then have "256 * be_nat bs + unat b < 256 * be_nat bs + 256" by simp
  also have "\<dots> \<le> 256 * 256 ^ length bs" using snoc by simp
  finally show ?case by simp
qed simp

lemma be_bytes_be_nat [codec_simps]: "length bs = n \<Longrightarrow> be_bytes n (be_nat bs) = bs"
proof (induction bs arbitrary: n rule: rev_induct)
  case (snoc b bs)
  have "(256 * be_nat bs + unat b) div 256 = be_nat bs" by simp
  moreover have "(of_nat (256 * be_nat bs + unat b) :: u8) = b"
    by (simp only: word_unat_eq_iff unat_of_nat_u8) simp
  ultimately show ?case using snoc by (auto simp del: of_nat_add)
qed simp

lemma unat_u16_be [codec_simps]: "unat (u16_be a b) = 256 * unat a + unat b"
proof -
  have "256 * unat a + unat b < 2 ^ 16"
    using unat_u8_less [of a] unat_u8_less [of b] by (simp del: unat_u8_less)
  then show ?thesis by (simp only: u16_be_def be_nat_pair) (rule unat_of_nat_small, simp)
qed

lemma be_bytes_2: "be_bytes 2 x = [of_nat (x div 256), of_nat x]"
  by (simp add: numeral_2_eq_2)

lemma u16_be_of_bytes [codec_simps]:
  "u16_be (of_nat (unat w div 256)) (of_nat (unat w)) = w"
proof -
  have "unat w div 256 < 256" using unat_u16_less [of w] by (simp del: unat_u16_less)
  then have "unat (u16_be (of_nat (unat w div 256)) (of_nat (unat w))) = unat w"
    by (simp add: unat_u16_be del: of_nat_unat)
  then show ?thesis by (simp only: word_unat_eq_iff)
qed

lemma u16_be_nth_bytes [simp, codec_simps]:
  "u16_be (be_bytes 2 (unat w) ! 0) (be_bytes 2 (unat w) ! Suc 0) = w"
  using u16_be_of_bytes [of w] by (simp add: be_bytes_2 del: of_nat_unat)

subsection \<open>Addresses of the standard library\<close>

datatype ip_addr = V4 u32 | V6 u128

datatype socket_addr = SocketAddr (sa_ip: ip_addr) (sa_port: u16)

definition v4_octets :: "u32 \<Rightarrow> bytes" where
  "v4_octets w = be_bytes 4 (unat w)"

definition v6_octets :: "u128 \<Rightarrow> bytes" where
  "v6_octets w = be_bytes 16 (unat w)"

definition v4_of :: "bytes \<Rightarrow> u32" where
  "v4_of bs = of_nat (be_nat bs)"

definition v6_of :: "bytes \<Rightarrow> u128" where
  "v6_of bs = of_nat (be_nat bs)"

definition to_ipv4_mapped :: "u128 \<Rightarrow> u32 option" where
  "to_ipv4_mapped w =
     (if take 12 (v6_octets w) = replicate 10 0 @ [255, 255]
      then Some (v4_of (drop 12 (v6_octets w))) else None)"

fun is_ipv6 :: "socket_addr \<Rightarrow> bool" where
  "is_ipv6 (SocketAddr (V6 _) _) = True"
| "is_ipv6 (SocketAddr (V4 _) _) = False"

lemma length_octets [simp]:
  "length (v4_octets w) = 4" "length (v6_octets x) = 16"
  by (simp_all add: v4_octets_def v6_octets_def)

lemma v4_of_octets [simp, codec_simps]: "v4_of (v4_octets w) = w"
proof -
  have "unat w < 256 ^ 4" using unsigned_less [of w] by simp
  then show ?thesis by (simp add: v4_of_def v4_octets_def be_nat_be_bytes)
qed

lemma v6_of_octets [simp, codec_simps]: "v6_of (v6_octets w) = w"
proof -
  have "unat w < 256 ^ 16" using unsigned_less [of w] by simp
  then show ?thesis by (simp add: v6_of_def v6_octets_def be_nat_be_bytes)
qed

lemma v6_octets_of [codec_simps]: "length bs = 16 \<Longrightarrow> v6_octets (v6_of bs) = bs"
proof -
  assume l: "length bs = 16"
  then have "be_nat bs < 2 ^ 128" using be_nat_less [of bs] by simp
  with l show ?thesis by (simp add: v6_of_def v6_octets_def unat_of_nat be_bytes_be_nat)
qed

lemma v4_octets_of [codec_simps]: "length bs = 4 \<Longrightarrow> v4_octets (v4_of bs) = bs"
proof -
  assume l: "length bs = 4"
  then have "be_nat bs < 2 ^ 32" using be_nat_less [of bs] by simp
  with l show ?thesis by (simp add: v4_of_def v4_octets_def unat_of_nat be_bytes_be_nat)
qed

subsection \<open>Reading packet fields\<close>

definition read_u16 :: "bytes \<Rightarrow> nat \<Rightarrow> u16 option" where
  "read_u16 packet i = do { a \<leftarrow> idx packet i; b \<leftarrow> idx packet (i + 1); Some (u16_be a b) }"

text \<open>The header length of an IPv4 packet from its first byte: \<open>((b & 0x0F) * 4) as usize\<close>.\<close>

definition ihl_of :: "u8 \<Rightarrow> nat option" where
  "ihl_of b = do { n \<leftarrow> mul_checked (b AND 0x0F) 4; Some (unat n) }"

lemma read_u16_Some [simp, panic_free]:
  "i + 1 < length p \<Longrightarrow> read_u16 p i = Some (u16_be (p ! i) (p ! (i + 1)))"
  by (simp add: read_u16_def)

lemma unat_low_nibble: "unat ((b :: u8) AND 0x0F) = unat b mod 16"
proof -
  have "b AND 0x0F = take_bit 4 b" by (simp add: take_bit_eq_mask mask_eq_exp_minus_1)
  then show ?thesis by (simp add: take_bit_eq_mod unat_mod)
qed

lemma unat_high_nibble: "unat (drop_bit 4 (b :: u8) AND 0x0F) = unat b div 16"
  using unat_u8_less [of b]
  by (simp add: unat_low_nibble drop_bit_eq_div unat_div del: unat_u8_less)

lemma header_len_Some [simp, panic_free]:
  "mul_checked ((b :: u8) AND 0x0F) 4 = Some ((b AND 0x0F) * 4)"
  by (simp add: mul_checked_def unat_low_nibble)

lemma unat_header_len: "unat (((b :: u8) AND 0x0F) * 4) = 4 * (unat b mod 16)"
  by (simp add: unat_word_ariths unat_low_nibble)

lemma ihl_of_Some [simp, panic_free]: "ihl_of b = Some (4 * (unat b mod 16))"
  by (simp add: ihl_of_def unat_header_len)

subsection \<open>Hash maps as association lists\<close>

text \<open>
  Where the length or an iteration of a \<open>HashMap\<close> matters, it is an association list with
  distinct keys.
\<close>

definition al_remove :: "'k \<Rightarrow> ('k \<times> 'v) list \<Rightarrow> ('k \<times> 'v) list" where
  "al_remove k m = filter (\<lambda>(k', v). k' \<noteq> k) m"

definition al_put :: "'k \<Rightarrow> 'v \<Rightarrow> ('k \<times> 'v) list \<Rightarrow> ('k \<times> 'v) list" where
  "al_put k v m =
     (if map_of m k = None then m @ [(k, v)]
      else map (\<lambda>(k', v'). if k' = k then (k', v) else (k', v')) m)"

definition al_keys :: "('k \<times> 'v) list \<Rightarrow> 'k list" where
  "al_keys m = map fst m"

lemma map_of_al_remove [simp]: "map_of (al_remove k m) j = (if j = k then None else map_of m j)"
  unfolding al_remove_def by (induction m) auto

lemma map_of_al_put [simp]: "map_of (al_put k v m) j = (if j = k then Some v else map_of m j)"
proof (cases "map_of m k = None")
  case True
  then show ?thesis by (auto simp: al_put_def map_add_def split: option.splits)
next
  case False
  have "map_of (map (\<lambda>(k', v'). if k' = k then (k', v) else (k', v')) m) j =
      (if j = k \<and> map_of m k \<noteq> None then Some v else if j = k then None else map_of m j)"
    by (induction m) auto
  with False show ?thesis by (auto simp: al_put_def)
qed

lemma al_keys_remove [simp]: "al_keys (al_remove k m) = filter (\<lambda>j. j \<noteq> k) (al_keys m)"
  by (induction m) (auto simp: al_keys_def al_remove_def)

lemma al_keys_put:
  "al_keys (al_put k v m) = (if k \<in> set (al_keys m) then al_keys m else al_keys m @ [k])"
proof -
  have "al_keys (map (\<lambda>(k', v'). if k' = k then (k', v) else (k', v')) m) = al_keys m"
    by (simp add: al_keys_def case_prod_beta' comp_def if_distrib cong: if_cong)
  then show ?thesis by (auto simp: al_put_def al_keys_def map_of_eq_None_iff)
qed

lemma map_of_keys_iff: "k \<in> set (al_keys m) \<longleftrightarrow> map_of m k \<noteq> None"
  by (simp add: al_keys_def map_of_eq_None_iff)

lemma al_remove_id: "k \<notin> set (al_keys m) \<Longrightarrow> al_remove k m = m"
  unfolding al_remove_def al_keys_def by (induction m) auto

lemma length_al_remove:
  "distinct (al_keys m) \<Longrightarrow> k \<in> set (al_keys m) \<Longrightarrow> length (al_remove k m) + 1 = length m"
proof (induction m)
  case (Cons p m)
  obtain k' v where p: "p = (k', v)" by (cases p)
  show ?case
  proof (cases "k' = k")
    case True
    with Cons.prems(1) p al_remove_id [of k m] show ?thesis
      by (simp add: al_keys_def al_remove_def)
  next
    case False
    with Cons p show ?thesis by (simp add: al_keys_def al_remove_def)
  qed
qed (simp add: al_keys_def)

subsection \<open>Runs of a task\<close>

text \<open>Turns of a task, one after the other; a panic ends the run.\<close>

fun run_ticks :: "('t \<Rightarrow> 's \<Rightarrow> 's option) \<Rightarrow> 't list \<Rightarrow> 's \<Rightarrow> 's option" where
  "run_ticks turn [] s = Some s"
| "run_ticks turn (t # ts) s = do { s' \<leftarrow> turn t s; run_ticks turn ts s' }"

lemma run_ticks_invariant:
  assumes "\<And>t s. t \<in> set ts \<Longrightarrow> I s \<Longrightarrow> \<exists>s'. turn t s = Some s' \<and> I s'" and "I s"
  shows "\<exists>s'. run_ticks turn ts s = Some s' \<and> I s'"
  using assms
proof (induction ts arbitrary: s)
  case (Cons t ts)
  then obtain s1 where "turn t s = Some s1" "I s1" by (metis list.set_intros(1))
  with Cons.IH [of s1] Cons.prems(1) show ?case by simp
qed simp

lemma run_ticks_preserves:
  assumes "\<And>t s s'. t \<in> set ts \<Longrightarrow> I s \<Longrightarrow> turn t s = Some s' \<Longrightarrow> I s'"
    and "I s" and "run_ticks turn ts s = Some s'"
  shows "I s'"
  using assms
proof (induction ts arbitrary: s)
  case (Cons t ts)
  then obtain s1 where "turn t s = Some s1" "run_ticks turn ts s1 = Some s'" by (auto simp: bind_eq_Some_conv)
  with Cons show ?case by (metis list.set_intros)
qed simp

lemma run_ticks_append:
  "run_ticks turn (xs @ ys) s = do { s' \<leftarrow> run_ticks turn xs s; run_ticks turn ys s' }"
  by (induction xs arbitrary: s) (auto split: bind_split)

subsection \<open>Loops over a list that may panic\<close>

fun map_checked :: "('a \<Rightarrow> 'b option) \<Rightarrow> 'a list \<Rightarrow> 'b list option" where
  "map_checked f [] = Some []"
| "map_checked f (x # xs) = do { y \<leftarrow> f x; ys \<leftarrow> map_checked f xs; Some (y # ys) }"

fun sum_checked :: "'a::len word \<Rightarrow> 'a word list \<Rightarrow> 'a word option" where
  "sum_checked a [] = Some a"
| "sum_checked a (x # xs) = do { b \<leftarrow> add_checked a x; sum_checked b xs }"

lemma map_checked_Some_iff:
  "map_checked f xs = Some ys \<longleftrightarrow> map f xs = map Some ys"
  by (induction xs arbitrary: ys) (auto simp: bind_eq_Some_conv Cons_eq_map_conv)

lemma map_checked_None_iff: "map_checked f xs = None \<longleftrightarrow> (\<exists>x \<in> set xs. f x = None)"
  by (induction xs) (auto simp: bind_eq_None_conv)

lemma unat_bound: "unat (w :: 'a::len word) < 2 ^ LENGTH('a)"
  by (rule unsigned_less)

lemma unat_minus_one_word: "unat (- 1 :: 'a::len word) = 2 ^ LENGTH('a) - 1"
  by (simp add: unsigned_minus_1_eq_mask mask_eq_exp_minus_1)

lemma add_checked_one_None_iff: "add_checked x 1 = None \<longleftrightarrow> x = (- 1 :: 'a::len word)"
proof -
  have "unat x < 2 ^ LENGTH('a)" by (rule unat_bound)
  then have "2 ^ LENGTH('a) \<le> unat x + 1 \<longleftrightarrow> unat x = 2 ^ LENGTH('a) - 1" by linarith
  then show ?thesis by (simp add: add_checked_eq_None_iff word_unat_eq_iff unat_minus_one_word)
qed

lemma sum_checked_Some_iff:
  "sum_checked a xs = Some (b :: 'a::len word) \<longleftrightarrow>
     unat b = unat a + sum_list (map unat xs)"
proof (induction xs arbitrary: a)
  case Nil
  then show ?case by (auto simp: word_unat_eq_iff)
next
  case (Cons x xs)
  show ?case
  proof (cases "add_checked a x")
    case None
    then have "unat b < unat a + unat x" by (meson add_checked_eq_None_iff order_less_le_trans unat_bound)
    with None show ?thesis by simp
  next
    case (Some c)
    with Cons [of c] add_checked_Some [OF Some] show ?thesis by (simp add: add.assoc)
  qed
qed

lemma sum_checked_None_iff:
  "sum_checked (a :: 'a::len word) xs = None \<longleftrightarrow> 2 ^ LENGTH('a) \<le> unat a + sum_list (map unat xs)"
proof -
  let ?n = "unat a + sum_list (map unat xs)"
  have "(\<exists>b :: 'a word. unat b = ?n) \<longleftrightarrow> ?n < 2 ^ LENGTH('a)"
    using unat_of_nat_small [of ?n, where 'a = 'a] unat_bound [where 'a = 'a]
    by metis
  then show ?thesis
    using sum_checked_Some_iff [of a xs] by (metis not_less not_None_eq)
qed

lemma map_checked_total:
  "\<forall>x \<in> set xs. f x \<noteq> None \<Longrightarrow> map_checked f xs = Some (map (the \<circ> f) xs)"
  by (induction xs) auto

end
