(* ===== verification/Rust_Strings.thy ===== *)
theory Rust_Strings
  imports Netpoke_Prelude
begin

text \<open>
  The part of Rust's \<open>str\<close> and \<open>String\<close> that the program uses. A Rust string is its UTF-8
  bytes, so it is a \<open>string\<close> of HOL (whose characters are bytes); white space outside ASCII
  is recognised by its UTF-8 encoding.
\<close>

abbreviation byte :: "char \<Rightarrow> nat" where
  "byte c \<equiv> of_char c"

definition str_of_bytes :: "bytes \<Rightarrow> string" where
  "str_of_bytes bs = map (\<lambda>b. char_of (unat b)) bs"

subsection \<open>\<open>String::from_utf8_lossy\<close>\<close>

text \<open>Each maximal ill-formed prefix becomes one U+FFFD (\<open>EF BF BD\<close>).\<close>

definition replacement :: bytes where
  "replacement = [0xEF, 0xBF, 0xBD]"

definition cont :: "u8 \<Rightarrow> bool" where
  "cont b \<longleftrightarrow> 0x80 \<le> b \<and> b \<le> 0xBF"

definition second_ok :: "u8 \<Rightarrow> u8 \<Rightarrow> bool" where
  "second_ok a b \<longleftrightarrow>
     (if a = 0xE0 then 0xA0 \<le> b \<and> b \<le> 0xBF
      else if a = 0xED then 0x80 \<le> b \<and> b \<le> 0x9F
      else if a = 0xF0 then 0x90 \<le> b \<and> b \<le> 0xBF
      else if a = 0xF4 then 0x80 \<le> b \<and> b \<le> 0x8F
      else cont b)"

fun utf8_step :: "bytes \<Rightarrow> bytes \<times> nat" where
  "utf8_step [] = ([], 0)"
| "utf8_step (a # bs) =
     (if a < 0x80 then ([a], 1)
      else if 0xC2 \<le> a \<and> a \<le> 0xDF then
        (case bs of b # _ \<Rightarrow> if cont b then ([a, b], 2) else (replacement, 1)
         | [] \<Rightarrow> (replacement, 1))
      else if 0xE0 \<le> a \<and> a \<le> 0xEF then
        (case bs of
           b # cs \<Rightarrow>
             if second_ok a b then
               (case cs of c # _ \<Rightarrow> if cont c then ([a, b, c], 3) else (replacement, 2)
                | [] \<Rightarrow> (replacement, 2))
             else (replacement, 1)
         | [] \<Rightarrow> (replacement, 1))
      else if 0xF0 \<le> a \<and> a \<le> 0xF4 then
        (case bs of
           b # cs \<Rightarrow>
             if second_ok a b then
               (case cs of
                  c # ds \<Rightarrow>
                    if cont c then
                      (case ds of d # _ \<Rightarrow> if cont d then ([a, b, c, d], 4) else (replacement, 3)
                       | [] \<Rightarrow> (replacement, 3))
                    else (replacement, 2)
                | [] \<Rightarrow> (replacement, 2))
             else (replacement, 1)
         | [] \<Rightarrow> (replacement, 1))
      else (replacement, 1))"

lemma utf8_step_progress: "bs \<noteq> [] \<Longrightarrow> 0 < snd (utf8_step bs)"
  by (cases bs rule: utf8_step.cases) (auto split: list.splits)

function utf8_lossy_bytes :: "bytes \<Rightarrow> bytes" where
  "utf8_lossy_bytes bs =
     (if bs = [] then []
      else fst (utf8_step bs) @ utf8_lossy_bytes (drop (snd (utf8_step bs)) bs))"
  by pat_completeness auto
termination
proof (relation "measure length")
  fix bs :: bytes
  assume "bs \<noteq> []"
  then show "(drop (snd (utf8_step bs)) bs, bs) \<in> measure length"
    using utf8_step_progress [of bs] by simp
qed simp

declare utf8_lossy_bytes.simps [simp del]

definition from_utf8_lossy :: "bytes \<Rightarrow> string" where
  "from_utf8_lossy bs = str_of_bytes (utf8_lossy_bytes bs)"

text \<open>\<open>str::from_utf8\<close> succeeds when no character had to be replaced.\<close>

function utf8_valid :: "bytes \<Rightarrow> bool" where
  "utf8_valid bs =
     (if bs = [] then True
      else if fst (utf8_step bs) = take (snd (utf8_step bs)) bs
      then utf8_valid (drop (snd (utf8_step bs)) bs) else False)"
  by pat_completeness auto
termination
proof (relation "measure length", goal_cases)
  case (2 bs)
  then show ?case using utf8_step_progress [of bs] by simp
qed simp

declare utf8_valid.simps [simp del]

lemma utf8_valid_ascii: "\<forall>b \<in> set bs. b < 0x80 \<Longrightarrow> utf8_valid bs"
proof (induction bs)
  case (Cons a bs)
  then show ?case by (simp add: utf8_valid.simps [of "a # bs"])
qed (simp add: utf8_valid.simps)

lemma utf8_lossy_ascii: "\<forall>b \<in> set bs. b < 0x80 \<Longrightarrow> utf8_lossy_bytes bs = bs"
proof (induction bs)
  case (Cons a bs)
  then show ?case by (simp add: utf8_lossy_bytes.simps [of "a # bs"])
qed (simp add: utf8_lossy_bytes.simps)

subsection \<open>Prefixes, suffixes and searching\<close>

definition starts_with :: "string \<Rightarrow> string \<Rightarrow> bool" where
  "starts_with s p \<longleftrightarrow> take (length p) s = p"

definition ends_with :: "string \<Rightarrow> string \<Rightarrow> bool" where
  "ends_with s p \<longleftrightarrow> length p \<le> length s \<and> drop (length s - length p) s = p"

definition strip_prefix :: "string \<Rightarrow> string \<Rightarrow> string option" where
  "strip_prefix p s = (if starts_with s p then Some (drop (length p) s) else None)"

fun trim_end_matches :: "char \<Rightarrow> string \<Rightarrow> string" where
  "trim_end_matches c s = rev (dropWhile (\<lambda>x. x = c) (rev s))"

definition to_ascii_lower :: "char \<Rightarrow> char" where
  "to_ascii_lower c = (if 65 \<le> byte c \<and> byte c \<le> 90 then char_of (byte c + 32) else c)"

definition to_lowercase :: "string \<Rightarrow> string" where
  "to_lowercase s = map to_ascii_lower s"

definition eq_ignore_ascii_case :: "string \<Rightarrow> string \<Rightarrow> bool" where
  "eq_ignore_ascii_case a b \<longleftrightarrow> to_lowercase a = to_lowercase b"

lemma starts_with_append [simp]: "starts_with (p @ s) p"
  by (simp add: starts_with_def)

lemma starts_with_iff: "starts_with s p \<longleftrightarrow> (\<exists>t. s = p @ t)"
  by (metis append_eq_conv_conj append_take_drop_id starts_with_def)

lemma strip_prefix_append [simp]: "strip_prefix p (p @ s) = Some s"
  by (simp add: strip_prefix_def)

lemma ends_with_append [simp]: "ends_with (s @ p) p"
  by (simp add: ends_with_def)

subsection \<open>\<open>split_whitespace\<close>\<close>

text \<open>
  The length in bytes of the \<open>White_Space\<close> character at the front of a string, 0 if there
  is none: the six ASCII ones, U+0085, U+00A0, U+1680, U+2000 to U+200A, U+2028, U+2029,
  U+202F, U+205F and U+3000.
\<close>

definition is_ascii_ws :: "char \<Rightarrow> bool" where
  "is_ascii_ws c \<longleftrightarrow> byte c = 32 \<or> (9 \<le> byte c \<and> byte c \<le> (13 :: nat))"

fun ws_len :: "string \<Rightarrow> nat" where
  "ws_len [] = 0"
| "ws_len (a # s) =
     (if is_ascii_ws a then 1
      else case s of
        [] \<Rightarrow> 0
      | b # t \<Rightarrow>
          if byte a = 0xC2 \<and> (byte b = 0x85 \<or> byte b = (0xA0 :: nat)) then 2
          else case t of
            [] \<Rightarrow> 0
          | c # _ \<Rightarrow>
              if (byte a = 0xE1 \<and> byte b = 0x9A \<and> byte c = (0x80 :: nat)) \<or>
                 (byte a = 0xE2 \<and> byte b = 0x80 \<and>
                   ((0x80 \<le> byte c \<and> byte c \<le> 0x8A) \<or> byte c = 0xA8 \<or> byte c = 0xA9 \<or>
                    byte c = (0xAF :: nat))) \<or>
                 (byte a = 0xE2 \<and> byte b = 0x81 \<and> byte c = (0x9F :: nat)) \<or>
                 (byte a = 0xE3 \<and> byte b = 0x80 \<and> byte c = (0x80 :: nat))
              then 3 else 0)"

declare ws_len.simps(2) [simp del]

text \<open>
  The fields between runs of white space, in order, none of them empty: the first
  argument is the field being read, reversed.
\<close>

function split_ws :: "string \<Rightarrow> string \<Rightarrow> string list" where
  "split_ws acc s =
     (case s of
        [] \<Rightarrow> (if acc = [] then [] else [rev acc])
      | c # t \<Rightarrow>
          if ws_len s = 0 then split_ws (c # acc) t
          else (if acc = [] then [] else [rev acc]) @ split_ws [] (drop (ws_len s) s))"
  by pat_completeness auto
termination
  by (relation "measure (length \<circ> snd)") auto

declare split_ws.simps [simp del]

definition split_whitespace :: "string \<Rightarrow> string list" where
  "split_whitespace s = split_ws [] s"

lemma split_ws_nonempty: "f \<in> set (split_ws acc s) \<Longrightarrow> f \<noteq> []"
proof (induction acc s rule: split_ws.induct)
  case (1 acc s)
  then show ?case
    by (cases s) (auto simp: split_ws.simps [of acc "[]"] split_ws.simps [of acc "_ # _"]
        split: if_splits)
qed

subsection \<open>\<open>lines\<close>\<close>

text \<open>
  \<open>str::lines\<close>: split at \<open>\n\<close>, a final empty piece dropped, one trailing \<open>\r\<close> removed from
  each line that ended in \<open>\n\<close>.
\<close>

definition strip_cr :: "string \<Rightarrow> string" where
  "strip_cr l = (if l \<noteq> [] \<and> last l = CHR 0x0D then butlast l else l)"

fun lines_acc :: "string \<Rightarrow> string \<Rightarrow> string list" where
  "lines_acc acc [] = (if acc = [] then [] else [rev acc])"
| "lines_acc acc (c # s) =
     (if c = CHR 0x0A then strip_cr (rev acc) # lines_acc [] s else lines_acc (c # acc) s)"

definition str_lines :: "string \<Rightarrow> string list" where
  "str_lines s = lines_acc [] s"

text \<open>\<open>[a, b, c].join(sep)\<close>.\<close>

fun join :: "string \<Rightarrow> string list \<Rightarrow> string" where
  "join sep [] = []"
| "join sep [x] = x"
| "join sep (x # y # ys) = x @ sep @ join sep (y # ys)"

subsection \<open>\<open>Display\<close> of numbers and addresses\<close>

function dec :: "nat \<Rightarrow> string" where
  "dec n = (if n < 10 then [char_of (48 + n)] else dec (n div 10) @ [char_of (48 + n mod 10)])"
  by pat_completeness auto
termination
  by (relation "measure (\<lambda>n. n)") auto

definition hex_digit :: "nat \<Rightarrow> char" where
  "hex_digit d = char_of (if d < 10 then 48 + d else 87 + d)"

function hex :: "nat \<Rightarrow> string" where
  "hex n = (if n < 16 then [hex_digit n] else hex (n div 16) @ [hex_digit (n mod 16)])"
  by pat_completeness auto
termination
  by (relation "measure (\<lambda>n. n)") auto

declare dec.simps [simp del] hex.simps [simp del]

text \<open>\<open>{:02x}\<close> of each byte.\<close>

definition hex_bytes :: "bytes \<Rightarrow> string" where
  "hex_bytes bs = concat (map (\<lambda>b. [hex_digit (unat b div 16), hex_digit (unat b mod 16)]) bs)"

definition fmt_v4 :: "u32 \<Rightarrow> string" where
  "fmt_v4 w = join ''.'' (map (\<lambda>b. dec (unat b)) (v4_octets w))"

fun segments :: "bytes \<Rightarrow> nat list" where
  "segments (a # b # bs) = unat (u16_be a b) # segments bs"
| "segments _ = []"

text \<open>
  The first longest run of zero segments, as start and length: \<open>zero_run\<close> walks the
  segments with the current run and the longest run so far.
\<close>

fun zero_run :: "nat \<Rightarrow> nat \<times> nat \<Rightarrow> nat \<times> nat \<Rightarrow> nat list \<Rightarrow> nat \<times> nat" where
  "zero_run i cur best [] = best"
| "zero_run i (cs, cl) best (x # xs) =
     (if x = 0 then
        let cur = (if cl = 0 then (i, 1) else (cs, cl + 1))
        in zero_run (i + 1) cur (if snd best < snd cur then cur else best) xs
      else zero_run (i + 1) (0, 0) best xs)"

definition fmt_v6 :: "u128 \<Rightarrow> string" where
  "fmt_v6 w =
     (case to_ipv4_mapped w of
        Some v4 \<Rightarrow> ''::ffff:'' @ fmt_v4 v4
      | None \<Rightarrow>
          let segs = segments (v6_octets w);
              (start, len) = zero_run 0 (0, 0) (0, 0) segs
          in if len > 1
             then join '':'' (map hex (take start segs)) @ ''::'' @
                  join '':'' (map hex (drop (start + len) segs))
             else join '':'' (map hex segs))"

fun fmt_ip :: "ip_addr \<Rightarrow> string" where
  "fmt_ip (V4 w) = fmt_v4 w"
| "fmt_ip (V6 w) = fmt_v6 w"

fun fmt_socket_addr :: "socket_addr \<Rightarrow> string" where
  "fmt_socket_addr (SocketAddr (V4 w) p) = fmt_v4 w @ '':'' @ dec (unat p)"
| "fmt_socket_addr (SocketAddr (V6 w) p) = ''['' @ fmt_v6 w @ '']:'' @ dec (unat p)"

lemma dec_hex_simps:
  "n < 10 \<Longrightarrow> dec n = [char_of (48 + n)]"
  "10 \<le> n \<Longrightarrow> dec n = dec (n div 10) @ [char_of (48 + n mod 10)]"
  "n < 16 \<Longrightarrow> hex n = [hex_digit n]"
  "16 \<le> n \<Longrightarrow> hex n = hex (n div 16) @ [hex_digit (n mod 16)]"
  by (subst dec.simps hex.simps, simp)+

lemma fmt_socket_addr_sample:
  "fmt_socket_addr (SocketAddr (V4 0xC0A80101) 8080) = ''192.168.1.1:8080''"
  by (simp add: fmt_v4_def v4_octets_def be_bytes_numeral dec_hex_simps char_of_eq_iff)

subsection \<open>\<open>split\<close>, \<open>trim\<close> and \<open>parse::<u64>\<close>\<close>

text \<open>\<open>str::split(c)\<close>: the pieces between the separators, always at least one.\<close>

fun split_on :: "char \<Rightarrow> string \<Rightarrow> string list" where
  "split_on c [] = [[]]"
| "split_on c (x # s) =
     (if x = c then [] # split_on c s
      else case split_on c s of p # ps \<Rightarrow> (x # p) # ps | [] \<Rightarrow> [[x]])"

lemma split_on_nonempty [simp]: "split_on c s \<noteq> []"
  by (induction s) (auto split: list.splits)

lemma split_on_none [simp]: "c \<notin> set s \<Longrightarrow> split_on c s = [s]"
  by (induction s) auto

lemma split_on_append: "split_on c (s @ c # t) = split_on c s @ split_on c t"
  by (induction s) (auto split: list.splits)

lemma split_on_parts: "p \<in> set (split_on c s) \<Longrightarrow> c \<notin> set p"
  by (induction s arbitrary: p) (fastforce split: list.splits if_splits)+

lemma join_split_map:
  "join sep (split_on c s) = concat (map (\<lambda>x. if x = c then sep else [x]) s)"
proof (induction s)
  case (Cons x s)
  obtain p ps where s: "split_on c s = p # ps" by (cases "split_on c s") auto
  show ?case using Cons.IH by (cases ps) (auto simp: s)
qed simp

text \<open>\<open>str::replace\<close> of one character by another.\<close>

definition replace_char :: "char \<Rightarrow> char \<Rightarrow> string \<Rightarrow> string" where
  "replace_char a b s = map (\<lambda>x. if x = a then b else x) s"

text \<open>
  \<open>str::trim\<close>. No byte inside a character starts a white space character, so the white space at
  the end is the longest suffix that \<open>trim_start\<close> removes.
\<close>

function trim_start :: "string \<Rightarrow> string" where
  "trim_start s = (if ws_len s = 0 then s else trim_start (drop (ws_len s) s))"
  by pat_completeness auto
termination
proof (relation "measure length")
  fix s :: string
  assume "ws_len s \<noteq> 0"
  then show "(drop (ws_len s) s, s) \<in> measure length" by (cases s) auto
qed simp

declare trim_start.simps [simp del]

fun trim_end :: "string \<Rightarrow> string" where
  "trim_end [] = []"
| "trim_end (c # s) = (if trim_start (c # s) = [] then [] else c # trim_end s)"

definition trim :: "string \<Rightarrow> string" where
  "trim s = trim_end (trim_start s)"

text \<open>Printable ASCII: no byte of it is part of a white space character.\<close>

definition graphic :: "char \<Rightarrow> bool" where
  "graphic c \<longleftrightarrow> 33 \<le> byte c \<and> byte c \<le> (126 :: nat)"

lemma ws_len_graphic: "graphic c \<Longrightarrow> ws_len (c # s) = 0"
  by (auto simp: ws_len.simps(2) graphic_def is_ascii_ws_def split: list.splits)

lemma trim_end_graphic: "list_all graphic s \<Longrightarrow> trim_end s = s"
  by (induction s) (simp_all add: trim_start.simps [of "_ # _"] ws_len_graphic)

lemma trim_graphic: "list_all graphic s \<Longrightarrow> trim s = s"
  by (cases s) (simp_all add: trim_def trim_start.simps [of "[]"] trim_start.simps [of "_ # _"]
      ws_len_graphic trim_end_graphic del: trim_end.simps)

lemma trim_space: "list_all graphic s \<Longrightarrow> trim (CHR '' '' # s) = s"
proof -
  assume g: "list_all graphic s"
  have "ws_len (CHR '' '' # s) = 1" by (simp add: ws_len.simps(2) is_ascii_ws_def)
  then have "trim_start (CHR '' '' # s) = trim_start s" by (simp add: trim_start.simps [of "_ # _"])
  then show ?thesis using trim_graphic [OF g] by (simp add: trim_def)
qed

fun dec_value :: "nat \<Rightarrow> string \<Rightarrow> nat option" where
  "dec_value acc [] = Some acc"
| "dec_value acc (c # s) =
     (if 48 \<le> byte c \<and> byte c \<le> (57 :: nat) then dec_value (acc * 10 + (byte c - 48)) s else None)"

text \<open>\<open>str::parse::<u64>\<close>: an optional plus sign, then digits, at least one.\<close>

definition parse_u64 :: "string \<Rightarrow> u64 option" where
  "parse_u64 s =
     (let d = (case s of CHR ''+'' # t \<Rightarrow> t | _ \<Rightarrow> s)
      in if d = [] then None
         else case dec_value 0 d of
           Some n \<Rightarrow> if n < 2 ^ 64 then Some (of_nat n) else None
         | None \<Rightarrow> None)"

lemma dec_value_append:
  "dec_value acc (s @ t) = (case dec_value acc s of Some v \<Rightarrow> dec_value v t | None \<Rightarrow> None)"
  by (induction s arbitrary: acc) auto

lemma dec_value_dec [simp]: "dec_value 0 (dec n) = Some n"
proof (induction n rule: dec.induct)
  case (1 n)
  show ?case
  proof (cases "n < 10")
    case True
    then show ?thesis by (simp add: dec.simps [of n])
  next
    case False
    have "48 + n mod 10 < 256" by simp
    with 1 [OF False] False show ?thesis
      by (simp add: dec.simps [of n] dec_value_append)
  qed
qed

lemma dec_chars: "c \<in> set (dec n) \<Longrightarrow> 48 \<le> byte c \<and> byte c \<le> (57 :: nat)"
proof (induction n rule: dec.induct)
  case (1 n)
  have "48 + n mod 10 < 256" by simp
  with 1 show ?case by (cases "n < 10") (auto simp: dec.simps [of n])
qed

lemma dec_not_Nil [simp]: "dec n \<noteq> []"
  by (subst dec.simps) simp

lemma dec_notin: "c \<in> {CHR ''_'', CHR ''='', CHR '';'', CHR ''+'', CHR '':''} \<Longrightarrow> c \<notin> set (dec n)"
  using dec_chars [of c n] by auto

lemma parse_u64_dec [simp]: "parse_u64 (dec (unat w)) = Some w"
proof -
  have "(case dec (unat w) of CHR ''+'' # t \<Rightarrow> t | _ \<Rightarrow> dec (unat w)) = dec (unat w)"
    using dec_notin [of "CHR ''+''" "unat w"] by (auto split: list.splits char.splits bool.splits)
  then show ?thesis using unsigned_less [of w] by (simp add: parse_u64_def)
qed

end
