(* ===== verification/Common_Protocol.thy ===== *)
theory Common_Protocol
  imports Rust_Strings
begin

text \<open>
  \<open>common/src/protocol.rs\<close>: the types that the components of the server exchange. The JSON
  form of the messages is produced by a derive macro and is not modelled.
\<close>

datatype IpFamily = IPv4 | IPv6 | Both

definition from_str_loose :: "string \<Rightarrow> IpFamily" where
  "from_str_loose s =
     (let l = to_lowercase s
      in if l \<in> {''ipv4'', ''4'', ''v4''} then IPv4
         else if l \<in> {''ipv6'', ''6'', ''v6''} then IPv6
         else Both)"

datatype Direction = ClientToServer | ServerToClient

record SendOptions =
  ttl :: "u8 option"
  df_bit :: "bool option"
  tos :: "u8 option"
  flow_label :: "u32 option"
  track_for_ms :: u32
  bypass_dtls :: bool
  bypass_sctp_fragmentation :: bool

definition default_send_options :: SendOptions where
  "default_send_options = \<lparr>ttl = None, df_bit = None, tos = None, flow_label = None,
     track_for_ms = 0, bypass_dtls = False, bypass_sctp_fragmentation = False\<rparr>"

text \<open>An event that pairs an ICMP error with the tracked packet it quotes.\<close>

record TrackedPacketEvent =
  ev_icmp_packet :: bytes
  ev_udp_packet :: bytes
  ev_tracked_ip_length :: nat
  ev_cleartext :: bytes
  ev_sent_at :: nat
  ev_icmp_received_at :: nat
  ev_send_options :: SendOptions
  ev_router_ip :: "string option"
  ev_conn_id :: string
  ev_original_src_port :: u16
  ev_original_dest_addr :: string

end
