(* ===== verification/Tracking_Channel.thy ===== *)
theory Tracking_Channel
  imports Common_Protocol
begin

text \<open>
  \<open>server/src/tracking_channel.rs\<close>: the UDP checksum routines for IPv4 and IPv6, the
  process-wide tracking callback, and the two entry points that the UDP layer calls for
  every probe it sends. The checksum routines are proved equal to the RFC 768 / RFC 1071
  reference (the unique non-zero field that makes the one's complement sum vanish).
\<close>

subsection \<open>The one's complement sum\<close>

fun chunk_sum :: "u32 \<Rightarrow> bytes \<Rightarrow> u32" where
  "chunk_sum s [] = s"
| "chunk_sum s [a] = s + ucast (u16_be a 0)"
| "chunk_sum s (a # b # bs) = chunk_sum (s + ucast (u16_be a b)) bs"

definition carry :: "u32 \<Rightarrow> u32" where
  "carry s = (s AND 0xFFFF) + drop_bit 16 s"

lemma unat_low16: "unat ((s :: u32) AND 0xFFFF) = unat s mod 65536"
proof -
  have "s AND 0xFFFF = take_bit 16 s"
    by (simp add: take_bit_eq_mask mask_eq_exp_minus_1)
  then show ?thesis by (simp add: take_bit_eq_mod unat_mod)
qed

lemma unat_high16: "unat (drop_bit 16 (s :: u32)) = unat s div 65536"
  by (simp add: drop_bit_eq_div unat_div)

lemma unat_u32_less [simp]: "unat (s :: u32) < 4294967296"
  using unsigned_less [of s, where ?'a = nat] by simp

lemma unat_high16_less: "unat (s :: u32) div 65536 < 65536"
  using unat_u32_less [of s] by (simp del: unat_u32_less)

lemma carry_no_overflow [panic_free]:
  "add_checked ((s :: u32) AND 0xFFFF) (drop_bit 16 s) = Some (carry s)"
  using unat_high16_less [of s]
  by (simp add: add_checked_def carry_def unat_low16 unat_high16)

lemma unat_carry: "unat (carry s) = unat s mod 65536 + unat s div 65536"
  using add_checked_Some [OF carry_no_overflow [of s]] by (simp add: unat_low16 unat_high16)

lemma carry_less: "drop_bit 16 s \<noteq> 0 \<Longrightarrow> unat (carry s) < unat s"
proof -
  assume "drop_bit 16 s \<noteq> 0"
  then have "unat s div 65536 \<noteq> 0" by (simp flip: unat_high16 add: unat_eq_0)
  moreover have "unat s = unat s div 65536 * 65536 + unat s mod 65536" by simp
  ultimately show ?thesis unfolding unat_carry by linarith
qed

function fold_sum :: "u32 \<Rightarrow> u32 option" where
  "fold_sum s =
     (if drop_bit 16 s \<noteq> 0
      then do { t \<leftarrow> add_checked (s AND 0xFFFF) (drop_bit 16 s); fold_sum t }
      else Some s)"
  by pat_completeness auto
termination
  by (relation "measure unat") (auto simp: carry_no_overflow carry_less)

declare fold_sum.simps [simp del]

definition finish_checksum :: "bytes \<Rightarrow> u16 option" where
  "finish_checksum data =
     (let data = (if length data mod 2 \<noteq> 0 then data @ [0] else data)
      in do {
        s \<leftarrow> fold_sum (chunk_sum 0 data);
        let checksum = NOT (ucast s :: u16);
        Some (if checksum = 0 then 0xFFFF else checksum)
      })"

subsection \<open>\<open>calculate_udp_checksum_v4\<close> and \<open>calculate_udp_checksum_v6\<close>\<close>

definition checksum_data_v4 :: "u32 \<Rightarrow> u32 \<Rightarrow> u16 \<Rightarrow> u16 \<Rightarrow> bytes \<Rightarrow> bytes" where
  "checksum_data_v4 src_ip dest_ip src_port dest_port payload =
     (let udp_length = (of_nat (8 + length payload) :: u16)
      in v4_octets src_ip @ v4_octets dest_ip @ [0] @ [17] @ be_bytes 2 (unat udp_length) @
         be_bytes 2 (unat src_port) @ be_bytes 2 (unat dest_port) @
         be_bytes 2 (unat udp_length) @ [0, 0] @ payload)"

definition calculate_udp_checksum_v4 ::
  "u32 \<Rightarrow> u32 \<Rightarrow> u16 \<Rightarrow> u16 \<Rightarrow> bytes \<Rightarrow> u16 option" where
  "calculate_udp_checksum_v4 src_ip dest_ip src_port dest_port payload =
     finish_checksum (checksum_data_v4 src_ip dest_ip src_port dest_port payload)"

definition checksum_data_v6 :: "u128 \<Rightarrow> u128 \<Rightarrow> u16 \<Rightarrow> u16 \<Rightarrow> bytes \<Rightarrow> bytes" where
  "checksum_data_v6 src_ip dest_ip src_port dest_port payload =
     (let udp_length = (of_nat (8 + length payload) :: u32)
      in v6_octets src_ip @ v6_octets dest_ip @ be_bytes 4 (unat udp_length) @
         [0, 0, 0] @ [17] @
         be_bytes 2 (unat src_port) @ be_bytes 2 (unat dest_port) @
         be_bytes 2 (unat (ucast udp_length :: u16)) @ [0, 0] @ payload)"

definition calculate_udp_checksum_v6 ::
  "u128 \<Rightarrow> u128 \<Rightarrow> u16 \<Rightarrow> u16 \<Rightarrow> bytes \<Rightarrow> u16 option" where
  "calculate_udp_checksum_v6 src_ip dest_ip src_port dest_port payload =
     finish_checksum (checksum_data_v6 src_ip dest_ip src_port dest_port payload)"

subsection \<open>The RFC 1071 reference\<close>

text \<open>
  \<open>words_sum\<close> adds the big-endian 16-bit words of a byte string, an odd last byte padded
  with zero. A receiver accepts a datagram when the one's complement sum over the
  pseudo-header, the header (checksum field included) and the payload is \<open>0xFFFF\<close>, that
  is, when the sum is a multiple of \<open>65535\<close>.
\<close>

fun words_sum :: "bytes \<Rightarrow> nat" where
  "words_sum [] = 0"
| "words_sum [a] = 256 * unat a"
| "words_sum (a # b # bs) = 256 * unat a + unat b + words_sum bs"

definition datagram_v4 :: "u32 \<Rightarrow> u32 \<Rightarrow> u16 \<Rightarrow> u16 \<Rightarrow> u16 \<Rightarrow> bytes \<Rightarrow> bytes" where
  "datagram_v4 src dst sp dp cks payload =
     v4_octets src @ v4_octets dst @ [0, 17] @ be_bytes 2 (8 + length payload) @
     be_bytes 2 (unat sp) @ be_bytes 2 (unat dp) @ be_bytes 2 (8 + length payload) @
     be_bytes 2 (unat cks) @ payload"

definition datagram_v6 :: "u128 \<Rightarrow> u128 \<Rightarrow> u16 \<Rightarrow> u16 \<Rightarrow> u16 \<Rightarrow> bytes \<Rightarrow> bytes" where
  "datagram_v6 src dst sp dp cks payload =
     v6_octets src @ v6_octets dst @ be_bytes 4 (8 + length payload) @ [0, 0, 0, 17] @
     be_bytes 2 (unat sp) @ be_bytes 2 (unat dp) @ be_bytes 2 (8 + length payload) @
     be_bytes 2 (unat cks) @ payload"

definition checksum_accepts :: "bytes \<Rightarrow> bool" where
  "checksum_accepts datagram \<longleftrightarrow> words_sum datagram mod 65535 = 0"

lemma words_sum_append:
  "even (length xs) \<Longrightarrow> words_sum (xs @ ys) = words_sum xs + words_sum ys"
  by (induction xs rule: words_sum.induct) auto

lemma words_sum_pad [simp]: "words_sum (xs @ [0]) = words_sum xs"
  by (induction xs rule: words_sum.induct) auto

lemma words_sum_be_bytes_2: "x < 65536 \<Longrightarrow> words_sum (be_bytes 2 x) = x"
  by (simp add: be_bytes_2)

lemma words_sum_bound: "words_sum bs \<le> 65535 * ((length bs + 1) div 2)"
proof (induction bs rule: words_sum.induct)
  case (2 a)
  show ?case using unat_u8_less [of a] by (simp del: unat_u8_less)
next
  case (3 a b bs)
  then show ?case using unat_u8_less [of a] unat_u8_less [of b] by (simp del: unat_u8_less)
qed simp

lemma unat_ucast_u16 [simp]: "unat (ucast (w :: u16) :: u32) = unat w"
  using unat_u16_less [of w]
  by (simp add: unsigned_ucast_eq take_bit_nat_eq_self del: unat_u16_less)

lemma chunk_sum_words_sum:
  "unat s + words_sum bs < 2 ^ 32 \<Longrightarrow> unat (chunk_sum s bs) = unat s + words_sum bs"
proof (induction s bs rule: chunk_sum.induct)
  case (2 s a)
  then show ?case by (simp add: unat_word_ariths unat_u16_be)
next
  case (3 s a b bs)
  then have "unat (s + ucast (u16_be a b)) = unat s + (256 * unat a + unat b)"
    by (simp add: unat_word_ariths unat_u16_be)
  with 3 show ?case by simp
qed simp

lemma mod_carry: "(s mod 65536 + s div 65536) mod 65535 = s mod (65535 :: nat)"
proof -
  have "s = (s mod 65536 + s div 65536) + s div 65536 * 65535"
    using div_mult_mod_eq [of s 65536] by linarith
  then show ?thesis by (metis mod_mult_self1)
qed

lemma fold_sum_spec:
  "\<exists>r. fold_sum s = Some r \<and> unat r < 65536 \<and> unat r mod 65535 = unat s mod 65535 \<and>
       (r = 0 \<longleftrightarrow> s = 0)"
proof (induction s rule: fold_sum.induct)
  case (1 s)
  show ?case
  proof (cases "drop_bit 16 s = 0")
    case True
    then have "unat s < 65536" using unat_high16 [of s] by simp
    with True show ?thesis by (simp add: fold_sum.simps [of s])
  next
    case False
    then have pos: "unat s div 65536 \<noteq> 0" by (simp flip: unat_high16 add: unat_eq_0)
    then have nz: "s \<noteq> 0" "carry s \<noteq> 0"
      using unat_carry [of s] by (auto simp: unat_eq_0 [symmetric])
    from 1 [OF _ carry_no_overflow] False obtain r where
      "fold_sum (carry s) = Some r" "unat r < 65536"
      "unat r mod 65535 = unat (carry s) mod 65535" "r = 0 \<longleftrightarrow> carry s = 0"
      by blast
    with False nz show ?thesis
      by (simp add: fold_sum.simps [of s] carry_no_overflow unat_carry mod_carry)
  qed
qed

lemma unat_not_u16: "unat (NOT (w :: u16)) = 65535 - unat w"
proof -
  have "unat (- 1 - w) = unat (- 1 :: u16) - unat w"
    by (rule unat_sub) simp
  moreover have "NOT w = - 1 - w" by (simp add: not_eq_complement)
  moreover have "unat (- 1 :: u16) = 65535"
    by (simp add: unsigned_minus_1_eq_mask mask_eq_exp_minus_1)
  ultimately show ?thesis by simp
qed

lemma unat_ucast_u32_u16: "unat (s :: u32) < 65536 \<Longrightarrow> unat (ucast s :: u16) = unat s"
  by (simp add: unsigned_ucast_eq take_bit_nat_eq_self)

lemma complement_le:
  assumes "0 < a" "b < (65536 :: nat)" "a \<le> b"
    and "(w + a) mod 65535 = 0" "(w + b) mod 65535 = 0"
  shows "a = b"
proof -
  from assms(4,5) have "65535 dvd (w + b) - (w + a)"
    by (intro dvd_diff_nat) (simp_all only: mod_eq_0_iff_dvd)
  then have "65535 dvd b - a" by simp
  moreover have "b - a < 65535" using assms(1,2) by linarith
  ultimately have "b - a = 0" by (metis nat_dvd_not_less neq0_conv)
  with assms(3) show ?thesis by simp
qed

lemma complement_unique:
  assumes "0 < a" "a < 65536" "0 < b" "b < (65536 :: nat)"
    and "(w + a) mod 65535 = 0" "(w + b) mod 65535 = 0"
  shows "a = b"
  using complement_le [of a b w] complement_le [of b a w] assms by (cases "a \<le> b") simp_all

text \<open>What \<open>finish_checksum\<close> returns, for any byte string whose sum fits in 32 bits.\<close>

lemma finish_checksum_spec:
  assumes fits: "words_sum data < 2 ^ 32"
  obtains c where "finish_checksum data = Some c" "c \<noteq> 0"
    "(words_sum data + unat c) mod 65535 = 0"
proof -
  let ?d = "if length data mod 2 \<noteq> 0 then data @ [0] else data"
  have ws: "words_sum ?d = words_sum data" by simp
  obtain r where r: "fold_sum (chunk_sum 0 ?d) = Some r" "unat r < 65536"
      "unat r mod 65535 = words_sum data mod 65535"
    using fold_sum_spec [of "chunk_sum 0 ?d"] chunk_sum_words_sum [of 0 ?d] fits ws
    by (metis add_0 unat_0)
  let ?k = "NOT (ucast r :: u16)"
  have k: "unat ?k = 65535 - unat r" using r(2) by (simp add: unat_not_u16 unat_ucast_u32_u16)
  let ?c = "if ?k = 0 then 0xFFFF else ?k"
  have "finish_checksum data = Some ?c" by (simp only: finish_checksum_def Let_def r(1)) simp
  moreover have "?c \<noteq> 0" by simp
  moreover have "(words_sum data + unat ?c) mod 65535 = 0"
  proof -
    have "(unat r + unat ?c) mod 65535 = 0"
    proof (cases "?k = 0")
      case True
      with k r(2) have "unat r = 65535" by simp
      with True show ?thesis by simp
    next
      case False
      with k r(2) show ?thesis by simp
    qed
    then show ?thesis using r(3) by (metis mod_add_left_eq)
  qed
  ultimately show ?thesis by (rule that)
qed

lemma checksum_field_unique:
  assumes "k \<noteq> 0" "c \<noteq> 0" "(w + unat k) mod 65535 = 0" "(w + unat (c :: u16)) mod 65535 = 0"
  shows "k = c"
proof -
  have pos: "0 < unat k" "0 < unat c" using assms(1,2) by (metis gr0I unat_eq_0)+
  have "unat k = unat c"
    by (rule complement_unique [of _ _ w]; (rule pos | rule unat_u16_less | rule assms))
  then show ?thesis by (simp only: word_unat_eq_iff)
qed

lemma finish_checksum_unique:
  assumes fits: "words_sum data < 2 ^ 32"
  shows "\<exists>c. finish_checksum data = Some c \<and>
    (\<forall>k. k \<noteq> 0 \<and> (words_sum data + unat k) mod 65535 = 0 \<longleftrightarrow> k = c)"
proof -
  obtain c where c: "finish_checksum data = Some c" "c \<noteq> 0"
      "(words_sum data + unat c) mod 65535 = 0"
    using finish_checksum_spec [OF fits] .
  have "(k \<noteq> 0 \<and> (words_sum data + unat k) mod 65535 = 0) \<longleftrightarrow> k = c" for k
    using checksum_field_unique [of k c "words_sum data"] c(2,3) by metis
  with c(1) show ?thesis by metis
qed

lemma words_sum_fits: "length data \<le> 66000 \<Longrightarrow> words_sum data < 2 ^ 32"
proof -
  assume "length data \<le> 66000"
  then have "(length data + 1) div 2 \<le> 33000" by simp
  then have "65535 * ((length data + 1) div 2) \<le> 65535 * 33000" by (rule mult_left_mono) simp
  with words_sum_bound [of data] show ?thesis by simp
qed

lemma words_sum_field:
  assumes "even (length pre)"
  shows "words_sum (pre @ be_bytes 2 (unat (k :: u16)) @ post) =
    words_sum (pre @ [0, 0] @ post) + unat k"
  using assms by (simp add: words_sum_append words_sum_be_bytes_2)

lemma datagram_v4_sum:
  assumes "length payload \<le> 65527"
  shows "words_sum (datagram_v4 src dst sp dp k payload) =
    words_sum (checksum_data_v4 src dst sp dp payload) + unat k"
proof -
  have u: "unat (of_nat (8 + length payload) :: u16) = 8 + length payload"
    using assms by (intro unat_of_nat_small) simp
  let ?pre = "v4_octets src @ v4_octets dst @ [0, 17] @ be_bytes 2 (8 + length payload) @
     be_bytes 2 (unat sp) @ be_bytes 2 (unat dp) @ be_bytes 2 (8 + length payload)"
  have "checksum_data_v4 src dst sp dp payload = ?pre @ [0, 0] @ payload"
    unfolding checksum_data_v4_def Let_def u by simp
  moreover have "datagram_v4 src dst sp dp k payload = ?pre @ be_bytes 2 (unat k) @ payload"
    by (simp add: datagram_v4_def)
  moreover have "even (length ?pre)" by simp
  ultimately show ?thesis by (simp only: words_sum_field)
qed

lemma datagram_v6_sum:
  assumes "length payload \<le> 65527"
  shows "words_sum (datagram_v6 src dst sp dp k payload) =
    words_sum (checksum_data_v6 src dst sp dp payload) + unat k"
proof -
  have u: "unat (of_nat (8 + length payload) :: u32) = 8 + length payload"
    using assms by (intro unat_of_nat_small) simp
  then have u': "unat (ucast (of_nat (8 + length payload) :: u32) :: u16) = 8 + length payload"
    using assms by (subst unat_ucast_u32_u16) simp_all
  let ?pre = "v6_octets src @ v6_octets dst @ be_bytes 4 (8 + length payload) @ [0, 0, 0, 17] @
     be_bytes 2 (unat sp) @ be_bytes 2 (unat dp) @ be_bytes 2 (8 + length payload)"
  have "checksum_data_v6 src dst sp dp payload = ?pre @ [0, 0] @ payload"
    unfolding checksum_data_v6_def Let_def u u' by simp
  moreover have "datagram_v6 src dst sp dp k payload = ?pre @ be_bytes 2 (unat k) @ payload"
    by (simp add: datagram_v6_def)
  moreover have "even (length ?pre)" by simp
  ultimately show ?thesis by (simp only: words_sum_field)
qed

lemma length_checksum_data [simp]:
  "length (checksum_data_v4 src dst sp dp payload) = 20 + length payload"
  "length (checksum_data_v6 src6 dst6 sp dp payload) = 48 + length payload"
  by (simp_all add: checksum_data_v4_def checksum_data_v6_def Let_def)

text \<open>
  C3. For every payload that fits a UDP datagram, \<open>calculate_udp_checksum_v4\<close> and
  \<open>calculate_udp_checksum_v6\<close> return (no overflow panic, the carry loop ends) the one non-zero
  checksum field with which a receiver's RFC 1071 check over pseudo-header, header and payload
  succeeds.
\<close>

theorem udp_checksum_correct:
  assumes "length payload \<le> 65527"
  shows "(\<exists>c. calculate_udp_checksum_v4 src dst sp dp payload = Some c \<and>
      (\<forall>k. k \<noteq> 0 \<and> checksum_accepts (datagram_v4 src dst sp dp k payload) \<longleftrightarrow> k = c)) \<and>
    (\<exists>c. calculate_udp_checksum_v6 src6 dst6 sp dp payload = Some c \<and>
      (\<forall>k. k \<noteq> 0 \<and> checksum_accepts (datagram_v6 src6 dst6 sp dp k payload) \<longleftrightarrow> k = c))"
  using finish_checksum_unique [OF words_sum_fits, of "checksum_data_v4 src dst sp dp payload"]
    finish_checksum_unique [OF words_sum_fits, of "checksum_data_v6 src6 dst6 sp dp payload"] assms
  by (simp add: calculate_udp_checksum_v4_def calculate_udp_checksum_v6_def checksum_accepts_def
      datagram_v4_sum datagram_v6_sum)

theorem udp_checksum_correct_witness:
  "(\<exists>c. calculate_udp_checksum_v4 0xC0A80164 0xC0A80101 12345 8080 [72, 105, 33] = Some c \<and>
      (\<forall>k. k \<noteq> 0 \<and> checksum_accepts (datagram_v4 0xC0A80164 0xC0A80101 12345 8080 k [72, 105, 33])
        \<longleftrightarrow> k = c)) \<and>
   (\<exists>c. calculate_udp_checksum_v6 1 2 12345 8080 [72, 105, 33] = Some c \<and>
      (\<forall>k. k \<noteq> 0 \<and> checksum_accepts (datagram_v6 1 2 12345 8080 k [72, 105, 33]) \<longleftrightarrow> k = c))"
  by (rule udp_checksum_correct) simp

subsection \<open>The tracking callback and the entry points of the UDP layer\<close>

text \<open>
  The callback is a function of its eight arguments and of the state \<open>'s\<close> it acts on; the
  \<open>OnceLock\<close> is an option that is set once. A C pointer with a length is an option of the
  bytes it points to, \<open>None\<close> the null pointer.
\<close>

record tracked_send =
  ts_dest_addr :: socket_addr
  ts_src_addr :: "socket_addr option"
  ts_udp_length :: u16
  ts_ttl :: "u8 option"
  ts_cleartext :: bytes
  ts_sent_at :: nat
  ts_conn_id :: string
  ts_udp_checksum :: u16

type_synonym 's tracking_fn = "tracked_send \<Rightarrow> 's \<Rightarrow> 's option"

fun init_tracking_callback ::
  "'s tracking_fn \<Rightarrow> 's tracking_fn option \<Rightarrow> 's tracking_fn option option" where
  "init_tracking_callback callback None = Some (Some callback)"
| "init_tracking_callback callback (Some _) = None"

definition track_udp_packet ::
  "'s tracking_fn option \<Rightarrow> tracked_send \<Rightarrow> 's \<Rightarrow> 's option" where
  "track_udp_packet cell info s =
     (case cell of Some callback \<Rightarrow> callback info s | None \<Rightarrow> Some s)"

definition conn_id_of :: "bytes option \<Rightarrow> string" where
  "conn_id_of conn_id =
     (case conn_id of None \<Rightarrow> [] | Some bs \<Rightarrow> if bs = [] then [] else from_utf8_lossy bs)"

definition netpoke_track_udp_packet ::
  "'s tracking_fn option \<Rightarrow> nat \<Rightarrow> u32 \<Rightarrow> u16 \<Rightarrow> u32 \<Rightarrow> u16 \<Rightarrow> u16 \<Rightarrow> u8 \<Rightarrow>
    bytes option \<Rightarrow> bytes option \<Rightarrow> 's \<Rightarrow> 's option" where
  "netpoke_track_udp_packet cell now src_ip_v4 src_port dest_ip_v4 dest_port udp_length hop_ttl
     buf conn_id s =
     (case buf of
        None \<Rightarrow> Some s
      | Some cleartext \<Rightarrow>
          if cleartext = [] then Some s
          else do {
            udp_checksum \<leftarrow>
              calculate_udp_checksum_v4 src_ip_v4 dest_ip_v4 src_port dest_port cleartext;
            track_udp_packet cell
              \<lparr>ts_dest_addr = SocketAddr (V4 dest_ip_v4) dest_port,
               ts_src_addr = Some (SocketAddr (V4 src_ip_v4) src_port),
               ts_udp_length = udp_length, ts_ttl = Some hop_ttl, ts_cleartext = cleartext,
               ts_sent_at = now, ts_conn_id = conn_id_of conn_id,
               ts_udp_checksum = udp_checksum\<rparr> s
          })"

definition netpoke_track_udp_packet_v6 ::
  "'s tracking_fn option \<Rightarrow> nat \<Rightarrow> bytes option \<Rightarrow> u16 \<Rightarrow> bytes option \<Rightarrow> u16 \<Rightarrow> u16 \<Rightarrow> u8 \<Rightarrow>
    bytes option \<Rightarrow> bytes option \<Rightarrow> 's \<Rightarrow> 's option" where
  "netpoke_track_udp_packet_v6 cell now src_ip_v6 src_port dest_ip_v6 dest_port udp_length
     hop_limit buf conn_id s =
     (case (src_ip_v6, dest_ip_v6, buf) of
        (Some src, Some dst, Some cleartext) \<Rightarrow>
          if cleartext = [] then Some s
          else do {
            let src_ip = v6_of (take 16 src);
            let dest_ip = v6_of (take 16 dst);
            udp_checksum \<leftarrow>
              calculate_udp_checksum_v6 src_ip dest_ip src_port dest_port cleartext;
            track_udp_packet cell
              \<lparr>ts_dest_addr = SocketAddr (V6 dest_ip) dest_port,
               ts_src_addr = Some (SocketAddr (V6 src_ip) src_port),
               ts_udp_length = udp_length, ts_ttl = Some hop_limit, ts_cleartext = cleartext,
               ts_sent_at = now, ts_conn_id = conn_id_of conn_id,
               ts_udp_checksum = udp_checksum\<rparr> s
          }
      | _ \<Rightarrow> Some s)"

lemma finish_checksum_nonzero: "finish_checksum data = Some c \<Longrightarrow> c \<noteq> 0"
  by (auto simp: finish_checksum_def Let_def bind_eq_Some_conv split: if_splits)

lemma finish_checksum_returns:
  assumes "length data \<le> 66000"
  obtains c where "finish_checksum data = Some c" and "c \<noteq> 0"
proof -
  from finish_checksum_unique [OF words_sum_fits [OF assms]]
  obtain c where "finish_checksum data = Some c" by (elim exE conjE)
  with finish_checksum_nonzero that show ?thesis by blast
qed

lemma checksum_v4_returns:
  assumes "length payload \<le> 65527"
  obtains c where "calculate_udp_checksum_v4 src dst sp dp payload = Some c" and "c \<noteq> 0"
  using finish_checksum_returns [of "checksum_data_v4 src dst sp dp payload"] assms
  unfolding calculate_udp_checksum_v4_def by auto

lemma checksum_v6_returns:
  assumes "length payload \<le> 65527"
  obtains c where "calculate_udp_checksum_v6 src dst sp dp payload = Some c" and "c \<noteq> 0"
  using finish_checksum_returns [of "checksum_data_v6 src dst sp dp payload"] assms
  unfolding calculate_udp_checksum_v6_def by auto

lemma finish_checksum_of_valid:
  assumes "length data \<le> 66000" and "k \<noteq> 0" and "(words_sum data + unat k) mod 65535 = 0"
  shows "finish_checksum data = Some k"
proof -
  from finish_checksum_unique [OF words_sum_fits [OF assms(1)]] obtain c where
    c: "finish_checksum data = Some c" and
    u: "\<forall>k. k \<noteq> 0 \<and> (words_sum data + unat k) mod 65535 = 0 \<longleftrightarrow> k = c"
    by (elim exE conjE)
  from u [THEN spec, of k] assms(2,3) have "k = c" by (rule iffD1 [OF _ conjI])
  with c show ?thesis by (simp only:)
qed

text \<open>The routines return every valid checksum field of the datagram (there is one).\<close>

lemma checksum_v4_of_valid:
  assumes "length payload \<le> 65527" and "k \<noteq> 0"
    and "checksum_accepts (datagram_v4 src dst sp dp k payload)"
  shows "calculate_udp_checksum_v4 src dst sp dp payload = Some k"
  unfolding calculate_udp_checksum_v4_def
  using assms by (intro finish_checksum_of_valid) (simp_all add: checksum_accepts_def datagram_v4_sum)

lemma checksum_v6_of_valid:
  assumes "length payload \<le> 65527" and "k \<noteq> 0"
    and "checksum_accepts (datagram_v6 src dst sp dp k payload)"
  shows "calculate_udp_checksum_v6 src dst sp dp payload = Some k"
  unfolding calculate_udp_checksum_v6_def
  using assms by (intro finish_checksum_of_valid) (simp_all add: checksum_accepts_def datagram_v6_sum)

end
