(* ===== verification/Interfaces.thy ===== *)
theory Interfaces
  imports Netpoke_Prelude
begin

text \<open>
  The contracts that the components rely on, as locales: a router of events to their
  consumers, a bounded log that keeps the newest entries, and an expiring table. Each is
  interpreted on the definitions of the component that provides it.
\<close>

subsection \<open>Routing events to consumers\<close>

datatype ('c, 'e) router_op = Push 'e | Drain 'c

locale event_router =
  fixes dest :: "'e \<Rightarrow> 'c"
    and push :: "'e \<Rightarrow> 'q \<Rightarrow> 'q"
    and drain :: "'c \<Rightarrow> 'q \<Rightarrow> 'e list \<times> 'q"
    and view :: "'c \<Rightarrow> 'q \<Rightarrow> 'e list"
  assumes view_push: "view c (push e q) = view c q @ (if dest e = c then [e] else [])"
    and drain_result: "fst (drain c q) = view c q"
    and view_drain: "view d (snd (drain c q)) = (if d = c then [] else view d q)"
begin

text \<open>What a consumer has received, what was pushed for it, and the queue that is left.\<close>

fun route :: "('c, 'e) router_op list \<Rightarrow> 'q \<Rightarrow> 'q" where
  "route [] q = q"
| "route (Push e # ops) q = route ops (push e q)"
| "route (Drain c # ops) q = route ops (snd (drain c q))"

fun received :: "'c \<Rightarrow> ('c, 'e) router_op list \<Rightarrow> 'q \<Rightarrow> 'e list" where
  "received c [] q = []"
| "received c (Push e # ops) q = received c ops (push e q)"
| "received c (Drain d # ops) q =
     (if d = c then fst (drain d q) else []) @ received c ops (snd (drain d q))"

fun pushed :: "'c \<Rightarrow> ('c, 'e) router_op list \<Rightarrow> 'e list" where
  "pushed c [] = []"
| "pushed c (Push e # ops) = (if dest e = c then [e] else []) @ pushed c ops"
| "pushed c (Drain d # ops) = pushed c ops"

lemma route_append [simp]: "route (ops @ ops') q = route ops' (route ops q)"
  by (induction ops q rule: route.induct) simp_all

lemma received_append [simp]:
  "received c (ops @ ops') q = received c ops q @ received c ops' (route ops q)"
  by (induction c ops q rule: received.induct) simp_all

lemma conservation: "received c ops q @ view c (route ops q) = view c q @ pushed c ops"
  by (induction ops arbitrary: q rule: pushed.induct)
    (auto simp: view_push drain_result view_drain)

lemma drain_again: "fst (drain c (snd (drain c q))) = []"
  by (simp add: drain_result view_drain)

lemma drain_other: "c \<noteq> d \<Longrightarrow> fst (drain c (snd (drain d q))) = fst (drain c q)"
  by (simp add: drain_result view_drain)

end

subsection \<open>A bounded log of the newest entries\<close>

definition lastn :: "nat \<Rightarrow> 'a list \<Rightarrow> 'a list" where
  "lastn n xs = drop (length xs - n) xs"

lemma length_lastn [simp]: "length (lastn n xs) = min n (length xs)"
  by (simp add: lastn_def)

lemma lastn_all [simp]: "length xs \<le> n \<Longrightarrow> lastn n xs = xs"
  by (simp add: lastn_def)

lemma lastn_lastn_append: "lastn n (lastn n xs @ ys) = lastn n (xs @ ys)"
  by (cases "length xs \<le> n") (simp_all add: lastn_def add.commute)

text \<open>
  \<open>log_room n r\<close>: \<open>n\<close> more entries can be added before a counter of the implementation
  overflows.
\<close>

locale bounded_log =
  fixes cap :: "'r \<Rightarrow> nat"
    and log_ok :: "'r \<Rightarrow> bool"
    and log_room :: "nat \<Rightarrow> 'r \<Rightarrow> bool"
    and add :: "'a \<Rightarrow> 'r \<Rightarrow> 'r option"
    and contents :: "'r \<Rightarrow> 'a list option"
  assumes add_law: "log_ok r \<Longrightarrow> log_room (Suc n) r \<Longrightarrow> contents r = Some xs \<Longrightarrow>
      \<exists>r'. add x r = Some r' \<and> log_ok r' \<and> cap r' = cap r \<and> log_room n r' \<and>
        contents r' = Some (lastn (cap r) (xs @ [x]))"
    and contents_law: "log_ok r \<Longrightarrow> \<exists>xs. contents r = Some xs \<and> length xs \<le> cap r"
begin

fun add_all :: "'a list \<Rightarrow> 'r \<Rightarrow> 'r option" where
  "add_all [] r = Some r"
| "add_all (x # xs) r = do { r' \<leftarrow> add x r; add_all xs r' }"

lemma add_all_contents:
  assumes "log_ok r" and "log_room (length ys) r" and "contents r = Some xs"
  shows "\<exists>r'. add_all ys r = Some r' \<and> log_ok r' \<and> cap r' = cap r \<and>
    contents r' = Some (lastn (cap r) (xs @ ys))"
  using assms
proof (induction ys arbitrary: r xs)
  case Nil
  then have "length xs \<le> cap r" using contents_law by fastforce
  with Nil show ?case by simp
next
  case (Cons y ys)
  from Cons.prems add_law [of r "length ys" xs y] obtain r1 where r1: "add y r = Some r1" "log_ok r1"
      "cap r1 = cap r" "log_room (length ys) r1" "contents r1 = Some (lastn (cap r) (xs @ [y]))"
    by auto
  with Cons.IH [OF r1(2,4,5)] show ?case
    using lastn_lastn_append [of "cap r" "xs @ [y]" ys] by auto
qed

end

text \<open>Overwriting the oldest entry of a full ring and reading on from there.\<close>

definition ring_order :: "nat \<Rightarrow> 'a list \<Rightarrow> 'a list" where
  "ring_order pos xs = drop pos xs @ take pos xs"

lemma ring_order_overwrite:
  assumes "pos < length xs"
  shows "ring_order ((pos + 1) mod length xs) (xs[pos := x]) =
    lastn (length xs) (ring_order pos xs @ [x])"
proof -
  have lhs: "ring_order ((pos + 1) mod length xs) (xs[pos := x]) = drop (Suc pos) xs @ take pos xs @ [x]"
  proof (cases "Suc pos = length xs")
    case True
    then have "xs[pos := x] = take pos xs @ [x]"
      using assms by (simp add: upd_conv_take_nth_drop)
    with True show ?thesis by (simp add: ring_order_def)
  next
    case False
    with assms have "Suc pos < length xs" by simp
    then show ?thesis
      using assms by (simp add: ring_order_def drop_update_cancel take_update_swap
          take_Suc_conv_app_nth list_update_append)
  qed
  have "ring_order pos xs @ [x] = xs ! pos # drop (Suc pos) xs @ take pos xs @ [x]"
    using assms by (simp add: ring_order_def Cons_nth_drop_Suc [symmetric])
  then show ?thesis using lhs assms by (cases "length xs") (simp_all add: lastn_def)
qed

subsection \<open>Expiring tables\<close>

text \<open>
  A table whose entries are visible for a time to live after they were put. \<open>same\<close> tells which
  keys the table identifies, and \<open>sweep\<close> removes entries that have expired.
\<close>

datatype ('k, 'v) table_op = Put nat 'k 'v | Sweep nat

fun table_time :: "('k, 'v) table_op \<Rightarrow> nat" where
  "table_time (Put t k v) = t"
| "table_time (Sweep t) = t"

fun is_put :: "('k, 'v) table_op \<Rightarrow> bool" where
  "is_put (Put t k v) = True"
| "is_put (Sweep t) = False"

locale expiring_table =
  fixes ok :: "'t \<Rightarrow> bool"
    and lifetime :: "'t \<Rightarrow> nat"
    and same :: "'k \<Rightarrow> 'k \<Rightarrow> bool"
    and entry :: "nat \<Rightarrow> 'k \<Rightarrow> 'v \<Rightarrow> 'e"
    and put :: "nat \<Rightarrow> 'k \<Rightarrow> 'v \<Rightarrow> 't \<Rightarrow> 't"
    and sweep :: "nat \<Rightarrow> 't \<Rightarrow> 't"
    and get :: "nat \<Rightarrow> 'k \<Rightarrow> 't \<Rightarrow> 'e option"
  assumes ok_put: "ok tb \<Longrightarrow> ok (put t k v tb)"
    and ok_sweep: "ok tb \<Longrightarrow> ok (sweep t tb)"
    and lifetime_put: "lifetime (put t k v tb) = lifetime tb"
    and lifetime_sweep: "lifetime (sweep t tb) = lifetime tb"
    and get_put: "get now j (put t k v tb) =
      (if same k j then (if now - t < lifetime tb then Some (entry t k v) else None) else get now j tb)"
    and get_sweep: "ok tb \<Longrightarrow> t \<le> now \<Longrightarrow> get now j (sweep t tb) = get now j tb"
begin

fun table_turn :: "('k, 'v) table_op \<Rightarrow> 't \<Rightarrow> 't" where
  "table_turn (Put t k v) tb = put t k v tb"
| "table_turn (Sweep t) tb = sweep t tb"

definition run_table :: "('k, 'v) table_op list \<Rightarrow> 't \<Rightarrow> 't" where
  "run_table ops tb = foldl (\<lambda>tb op. table_turn op tb) tb ops"

definition alike :: "nat \<Rightarrow> 't \<Rightarrow> 't \<Rightarrow> bool" where
  "alike now a b \<longleftrightarrow> ok a \<and> ok b \<and> lifetime a = lifetime b \<and> (\<forall>j. get now j a = get now j b)"

lemma run_table_Cons [simp]: "run_table (op # ops) tb = run_table ops (table_turn op tb)"
  by (simp add: run_table_def)

lemma run_table_Nil [simp]: "run_table [] tb = tb"
  by (simp add: run_table_def)

lemma alike_put: "alike now a b \<Longrightarrow> alike now (put t k v a) (put t k v b)"
  by (simp add: alike_def ok_put lifetime_put get_put)

lemma alike_sweep: "alike now a b \<Longrightarrow> t \<le> now \<Longrightarrow> alike now (sweep t a) b"
  by (simp add: alike_def ok_sweep lifetime_sweep get_sweep)

lemma sweeps_unobservable:
  assumes "ok tb" and "\<forall>op \<in> set ops. table_time op \<le> now"
  shows "get now k (run_table ops tb) = get now k (run_table (filter is_put ops) tb)"
proof -
  have "alike now (run_table ops a) (run_table (filter is_put ops) b)" if "alike now a b" for a b
    using assms(2) that
  proof (induction ops arbitrary: a b)
    case (Cons op ops)
    then show ?case by (cases op) (auto intro: alike_put alike_sweep)
  qed simp
  from this [of tb tb] assms(1) show ?thesis by (simp add: alike_def)
qed

end

end
