(* ===== verification/Packet_Tracker.thy ===== *)
theory Packet_Tracker
  imports Tracking_Channel Interfaces
begin

text \<open>
  \<open>server/src/packet_tracker.rs\<close>: the table of probes that wait for an ICMP error and the
  queue of matched events. The hash table is a map, the unbounded channel from the UDP
  layer a list (oldest first), an \<open>Instant\<close> a number of nanoseconds. Each \<open>async\<close> method runs
  under one write lock, so it is one atomic step; the interleavings of the receiver task,
  the cleanup task, the ICMP listener and the sessions that drain events are the runs of
  \<open>run_tracker\<close>.
\<close>

subsection \<open>Data\<close>

record UdpPacketInfo =
  ui_dest_addr :: socket_addr
  ui_src_addr :: "socket_addr option"
  ui_udp_length :: u16
  ui_cleartext :: bytes
  ui_send_options :: SendOptions
  ui_sent_at :: nat
  ui_conn_id :: string
  ui_udp_checksum :: u16

definition MAX_PAYLOAD_PREFIX_SIZE :: nat where
  "MAX_PAYLOAD_PREFIX_SIZE = 64"

record TrackedPacket =
  tp_cleartext :: bytes
  tp_udp_packet :: bytes
  tp_sent_at :: nat
  tp_expires_at :: nat
  tp_send_options :: SendOptions
  tp_dest_addr :: socket_addr
  tp_src_port :: u16
  tp_payload_prefix :: bytes
  tp_conn_id :: string
  tp_udp_checksum :: u16

datatype IcmpMessageClass = Error | Ignore | TtlExpired

datatype ChecksumKey =
  ChecksumKey (ck_dest_addr: socket_addr) (ck_udp_length: u16) (ck_udp_checksum: u16)

record EmbeddedUdpInfo =
  em_src_port :: u16
  em_dest_addr :: socket_addr
  em_udp_length :: u16
  em_payload_prefix :: bytes
  em_udp_checksum :: u16

text \<open>
  The callback for unmatched errors acts on a state \<open>'s\<close> outside the tracker (the
  sessions of the server).
\<close>

type_synonym 's icmp_error_callback = "EmbeddedUdpInfo \<Rightarrow> 's \<Rightarrow> 's option"

record 's PacketTracker =
  checksum_index :: "ChecksumKey \<rightharpoonup> TrackedPacket"
  event_queue :: "TrackedPacketEvent list"
  tracking_rx :: "UdpPacketInfo list"
  icmp_error_callback :: "'s icmp_error_callback option"

subsection \<open>Operations\<close>

definition new_tracker :: "'s PacketTracker" where
  "new_tracker = \<lparr>checksum_index = Map.empty, event_queue = [], tracking_rx = [],
     icmp_error_callback = None\<rparr>"

definition set_icmp_error_callback ::
  "'s icmp_error_callback \<Rightarrow> 's PacketTracker \<Rightarrow> 's PacketTracker" where
  "set_icmp_error_callback callback t = t\<lparr>icmp_error_callback := Some callback\<rparr>"

text \<open>The sending half of the channel.\<close>

definition tx_send :: "UdpPacketInfo \<Rightarrow> 's PacketTracker \<Rightarrow> 's PacketTracker" where
  "tx_send info t = t\<lparr>tracking_rx := tracking_rx t @ [info]\<rparr>"

definition ms :: "nat \<Rightarrow> nat" where
  "ms n = n * 1000000"

definition tracked_of :: "UdpPacketInfo \<Rightarrow> TrackedPacket" where
  "tracked_of info =
     \<lparr>tp_cleartext = ui_cleartext info, tp_udp_packet = [], tp_sent_at = ui_sent_at info,
      tp_expires_at = ui_sent_at info + ms (unat (track_for_ms (ui_send_options info))),
      tp_send_options = ui_send_options info, tp_dest_addr = ui_dest_addr info,
      tp_src_port = 0,
      tp_payload_prefix = take MAX_PAYLOAD_PREFIX_SIZE (ui_cleartext info),
      tp_conn_id = ui_conn_id info, tp_udp_checksum = ui_udp_checksum info\<rparr>"

definition key_of :: "UdpPacketInfo \<Rightarrow> ChecksumKey" where
  "key_of info = ChecksumKey (ui_dest_addr info) (ui_udp_length info) (ui_udp_checksum info)"

text \<open>One turn of the receiver task: it takes the oldest message, or waits.\<close>

definition tracking_receiver_turn :: "'s PacketTracker \<Rightarrow> 's PacketTracker" where
  "tracking_receiver_turn t =
     (case tracking_rx t of
        [] \<Rightarrow> t
      | info # rest \<Rightarrow>
          let t = t\<lparr>tracking_rx := rest\<rparr>
          in if track_for_ms (ui_send_options info) = 0 then t
             else if ui_udp_checksum info \<noteq> 0
             then t\<lparr>checksum_index := (checksum_index t)(key_of info \<mapsto> tracked_of info)\<rparr>
             else t)"

definition cleanup_expired :: "nat \<Rightarrow> 's PacketTracker \<Rightarrow> 's PacketTracker" where
  "cleanup_expired now t =
     t\<lparr>checksum_index := (\<lambda>k. case checksum_index t k of
        Some p \<Rightarrow> if tp_expires_at p \<le> now then None else Some p | None \<Rightarrow> None)\<rparr>"

definition embedded_key :: "EmbeddedUdpInfo \<Rightarrow> ChecksumKey" where
  "embedded_key e = ChecksumKey (em_dest_addr e) (em_udp_length e) (em_udp_checksum e)"

definition event_of ::
  "nat \<Rightarrow> bytes \<Rightarrow> EmbeddedUdpInfo \<Rightarrow> string option \<Rightarrow> u16 \<Rightarrow> TrackedPacket \<Rightarrow> TrackedPacketEvent" where
  "event_of now icmp_packet e router_ip ip_length p =
     \<lparr>ev_icmp_packet = icmp_packet, ev_udp_packet = tp_udp_packet p,
      ev_tracked_ip_length = unat ip_length, ev_cleartext = tp_cleartext p,
      ev_sent_at = tp_sent_at p, ev_icmp_received_at = now,
      ev_send_options = tp_send_options p, ev_router_ip = router_ip,
      ev_conn_id = tp_conn_id p, ev_original_src_port = em_src_port e,
      ev_original_dest_addr = fmt_socket_addr (em_dest_addr e)\<rparr>"

definition match_icmp_error ::
  "nat \<Rightarrow> bytes \<Rightarrow> IcmpMessageClass \<Rightarrow> bool \<Rightarrow> EmbeddedUdpInfo \<Rightarrow> string option \<Rightarrow>
    's PacketTracker \<times> 's \<Rightarrow> ('s PacketTracker \<times> 's) option" where
  "match_icmp_error now icmp_packet icmp_class is_ip6 e router_ip = (\<lambda>(t, s).
     let matched = (if em_udp_checksum e \<noteq> 0 then checksum_index t (embedded_key e) else None)
     in case matched of
          Some tracked \<Rightarrow>
            let t = t\<lparr>checksum_index := (checksum_index t)(embedded_key e := None)\<rparr>
            in do {
              ip_length \<leftarrow> add_checked (em_udp_length e) (if is_ip6 then 40 else 20);
              Some (t\<lparr>event_queue := event_queue t @
                      [event_of now icmp_packet e router_ip ip_length tracked]\<rparr>, s)
            }
        | None \<Rightarrow>
            (case icmp_error_callback t of
               Some cb \<Rightarrow>
                 if icmp_class = Error then do { s' \<leftarrow> cb e s; Some (t, s') } else Some (t, s)
             | None \<Rightarrow> Some (t, s)))"

definition drain_events :: "'s PacketTracker \<Rightarrow> TrackedPacketEvent list \<times> 's PacketTracker" where
  "drain_events t = (event_queue t, t\<lparr>event_queue := []\<rparr>)"

text \<open>The loop over the drained queue: two growing vectors, returned as a pair.\<close>

fun partition_events ::
  "string \<Rightarrow> TrackedPacketEvent list \<times> TrackedPacketEvent list \<Rightarrow> TrackedPacketEvent list \<Rightarrow>
    TrackedPacketEvent list \<times> TrackedPacketEvent list" where
  "partition_events conn_id (matching, remaining) [] = (matching, remaining)"
| "partition_events conn_id (matching, remaining) (event # events) =
     (if ev_conn_id event = conn_id
      then partition_events conn_id (matching @ [event], remaining) events
      else partition_events conn_id (matching, remaining @ [event]) events)"

definition drain_events_for_conn_id ::
  "string \<Rightarrow> 's PacketTracker \<Rightarrow> TrackedPacketEvent list \<times> 's PacketTracker" where
  "drain_events_for_conn_id conn_id t =
     (let (matching, remaining) = partition_events conn_id ([], []) (event_queue t)
      in (matching, t\<lparr>event_queue := remaining\<rparr>))"

definition tracked_count :: "'s PacketTracker \<Rightarrow> nat" where
  "tracked_count t = card (dom (checksum_index t))"

subsection \<open>Runs\<close>

text \<open>
  The atomic steps of the tasks that share the tracker, and a run as a list of them. The
  log records each event that a match appends to the queue, with the key it matched, and
  each batch that a session drains.
\<close>

datatype tracker_op =
    Send UdpPacketInfo
  | Receive
  | Cleanup nat
  | Match nat bytes IcmpMessageClass bool EmbeddedUdpInfo "string option"
  | DrainFor string

datatype tracker_log =
    Matched ChecksumKey TrackedPacketEvent
  | Drained string "TrackedPacketEvent list"

fun tracker_turn ::
  "tracker_op \<Rightarrow> 's PacketTracker \<times> 's \<Rightarrow> (tracker_log list \<times> 's PacketTracker \<times> 's) option" where
  "tracker_turn (Send info) (t, s) = Some ([], tx_send info t, s)"
| "tracker_turn Receive (t, s) = Some ([], tracking_receiver_turn t, s)"
| "tracker_turn (Cleanup now) (t, s) = Some ([], cleanup_expired now t, s)"
| "tracker_turn (Match now pkt cls is6 e router) (t, s) =
     do {
       (t', s') \<leftarrow> match_icmp_error now pkt cls is6 e router (t, s);
       Some (map (Matched (embedded_key e)) (drop (length (event_queue t)) (event_queue t')),
             t', s')
     }"
| "tracker_turn (DrainFor c) (t, s) =
     (let (es, t') = drain_events_for_conn_id c t in Some ([Drained c es], t', s))"

fun run_tracker ::
  "tracker_op list \<Rightarrow> 's PacketTracker \<times> 's \<Rightarrow> (tracker_log list \<times> 's PacketTracker \<times> 's) option" where
  "run_tracker [] st = Some ([], st)"
| "run_tracker (op # ops) st =
     do {
       (log1, st1) \<leftarrow> tracker_turn op st;
       (log2, st2) \<leftarrow> run_tracker ops st1;
       Some (log1 @ log2, st2)
     }"

text \<open>What a log delivers to one connection and what it matched for it.\<close>

fun delivered :: "string \<Rightarrow> tracker_log list \<Rightarrow> TrackedPacketEvent list" where
  "delivered c [] = []"
| "delivered c (Matched k e # log) = delivered c log"
| "delivered c (Drained d es # log) = (if d = c then es else []) @ delivered c log"

definition matched_events :: "tracker_log list \<Rightarrow> (ChecksumKey \<times> TrackedPacketEvent) list" where
  "matched_events log =
     concat (map (\<lambda>l. case l of Matched k e \<Rightarrow> [(k, e)] | Drained _ _ \<Rightarrow> []) log)"

definition queued_for :: "string \<Rightarrow> TrackedPacketEvent list \<Rightarrow> TrackedPacketEvent list" where
  "queued_for c q = filter (\<lambda>e. ev_conn_id e = c) q"

lemma matched_events_simps [simp]:
  "matched_events [] = []"
  "matched_events (Matched k e # log) = (k, e) # matched_events log"
  "matched_events (Drained c es # log) = matched_events log"
  "matched_events (log1 @ log2) = matched_events log1 @ matched_events log2"
  by (simp_all add: matched_events_def)

lemma partition_events_eq:
  "partition_events c (m, r) q =
     (m @ queued_for c q, r @ filter (\<lambda>e. ev_conn_id e \<noteq> c) q)"
  by (induction q arbitrary: m r) (simp_all add: queued_for_def)

lemma drain_events_for_conn_id_eq:
  "drain_events_for_conn_id c t =
     (queued_for c (event_queue t),
      t\<lparr>event_queue := filter (\<lambda>e. ev_conn_id e \<noteq> c) (event_queue t)\<rparr>)"
  by (simp add: drain_events_for_conn_id_def partition_events_eq)

interpretation queue: event_router ev_conn_id "\<lambda>e q. q @ [e]"
  "\<lambda>c q. partition_events c ([], []) q" queued_for
proof unfold_locales
  fix c d :: string and q :: "TrackedPacketEvent list"
  show "queued_for d (snd (partition_events c ([], []) q)) =
      (if d = c then [] else queued_for d q)"
    by (auto simp: partition_events_eq queued_for_def intro: filter_cong)
qed (auto simp: partition_events_eq queued_for_def)

subsection \<open>The branches of \<open>match_icmp_error\<close>\<close>

text \<open>The lookup that decides between the two halves of the method.\<close>

definition lookup_embedded :: "EmbeddedUdpInfo \<Rightarrow> 's PacketTracker \<Rightarrow> TrackedPacket option" where
  "lookup_embedded e t =
     (if em_udp_checksum e \<noteq> 0 then checksum_index t (embedded_key e) else None)"

lemma event_of_sel [simp]:
  "ev_icmp_packet (event_of now pkt e router n p) = pkt"
  "ev_router_ip (event_of now pkt e router n p) = router"
  "ev_tracked_ip_length (event_of now pkt e router n p) = unat n"
  "ev_conn_id (event_of now pkt e router n p) = tp_conn_id p"
  by (simp_all add: event_of_def)

lemma match_hit:
  assumes "lookup_embedded e t = Some p"
    and "add_checked (em_udp_length e) (if is6 then 40 else 20) = Some n"
  shows "match_icmp_error now pkt cls is6 e router (t, s) =
    Some (t\<lparr>checksum_index := (checksum_index t)(embedded_key e := None),
            event_queue := event_queue t @ [event_of now pkt e router n p]\<rparr>, s)"
  using assms by (simp add: match_icmp_error_def lookup_embedded_def Let_def)

lemma match_miss:
  assumes "lookup_embedded e t = None"
  shows "match_icmp_error now pkt cls is6 e router (t, s) =
    (case icmp_error_callback t of
       Some cb \<Rightarrow> if cls = Error then do { s' \<leftarrow> cb e s; Some (t, s') } else Some (t, s)
     | None \<Rightarrow> Some (t, s))"
  using assms by (simp add: match_icmp_error_def lookup_embedded_def Let_def)

text \<open>Case analysis of a match that did not panic.\<close>

lemma match_cases [consumes 1, case_names hit miss]:
  assumes "match_icmp_error now pkt cls is6 e router (t, s) = Some (t', s')"
  obtains p n where "lookup_embedded e t = Some p"
      and "add_checked (em_udp_length e) (if is6 then 40 else 20) = Some n"
      and "t' = t\<lparr>checksum_index := (checksum_index t)(embedded_key e := None),
                   event_queue := event_queue t @ [event_of now pkt e router n p]\<rparr>"
      and "s' = s"
  | "lookup_embedded e t = None" and "t' = t"
proof (cases "lookup_embedded e t")
  case None
  with assms that(2) show ?thesis
    by (auto simp: match_miss bind_eq_Some_conv split: option.splits if_splits)
next
  case (Some p)
  moreover from Some assms
  have "\<exists>n. add_checked (em_udp_length e) (if is6 then 40 else 20) = Some n"
    by (auto simp: match_icmp_error_def lookup_embedded_def Let_def bind_eq_Some_conv)
  ultimately show ?thesis using that(1) assms by (auto simp: match_hit)
qed

subsection \<open>A sample run\<close>

text \<open>A probe with TTL 3 to 10.0.0.9:5000 is sent, tracked, quoted by an error and drained.\<close>

definition sample_info :: UdpPacketInfo where
  "sample_info = \<lparr>ui_dest_addr = SocketAddr (V4 0x0A000009) 5000, ui_src_addr = None,
     ui_udp_length = 12, ui_cleartext = [1, 2, 3, 4],
     ui_send_options = default_send_options\<lparr>ttl := Some 3, track_for_ms := 5000\<rparr>,
     ui_sent_at = 7, ui_conn_id = ''conn-a'', ui_udp_checksum = 0xBEEF\<rparr>"

definition sample_embedded :: EmbeddedUdpInfo where
  "sample_embedded = \<lparr>em_src_port = 4000, em_dest_addr = SocketAddr (V4 0x0A000009) 5000,
     em_udp_length = 12, em_payload_prefix = [], em_udp_checksum = 0xBEEF\<rparr>"

definition sample_event :: TrackedPacketEvent where
  "sample_event = event_of 9 [11] sample_embedded None 32 (tracked_of sample_info)"

definition sample_ops :: "tracker_op list" where
  "sample_ops = [Send sample_info, Receive, Match 9 [11] TtlExpired False sample_embedded None,
     DrainFor ''conn-a'']"

lemma sample_key: "embedded_key sample_embedded = key_of sample_info"
  by (simp add: embedded_key_def sample_embedded_def key_of_def sample_info_def)

lemma sample_run:
  "run_tracker sample_ops (new_tracker, ()) =
     Some ([Matched (key_of sample_info) sample_event, Drained ''conn-a'' [sample_event]],
       new_tracker, ())"
proof -
  have ok: "track_for_ms (ui_send_options sample_info) \<noteq> 0" "ui_udp_checksum sample_info \<noteq> 0"
    "em_udp_checksum sample_embedded \<noteq> 0" "add_checked (em_udp_length sample_embedded) 20 = Some 32"
    "ev_conn_id sample_event = ''conn-a''"
    by (simp_all add: sample_info_def sample_embedded_def add_checked_def sample_event_def
        event_of_def tracked_of_def)
  then show ?thesis
    by (simp add: sample_ops_def new_tracker_def tx_send_def tracking_receiver_turn_def
        match_icmp_error_def sample_key Let_def drain_events_for_conn_id_def sample_event_def
        fun_upd_idem)
qed

subsection \<open>No event is lost, duplicated or sent to another connection\<close>

fun router_of :: "tracker_log \<Rightarrow> (string, TrackedPacketEvent) router_op" where
  "router_of (Matched k e) = Push e"
| "router_of (Drained c es) = Drain c"

lemma pushed_router_of:
  "queue.pushed c (map router_of log) = queued_for c (map snd (matched_events log))"
  by (induction log rule: delivered.induct) (simp_all add: queued_for_def)

lemma tracker_turn_Match:
  assumes "tracker_turn (Match now pkt cls is6 e router) (t, s) = Some (log, t', s')"
  shows "match_icmp_error now pkt cls is6 e router (t, s) = Some (t', s')"
    and "log = map (Matched (embedded_key e)) (drop (length (event_queue t)) (event_queue t'))"
  using assms by (auto simp: bind_eq_Some_conv split: prod.splits)

text \<open>The effect of one step on the queue is the routing of its log.\<close>

lemma tracker_turn_queue:
  assumes "tracker_turn op (t, s) = Some (log, t', s')"
  shows "event_queue t' = queue.route (map router_of log) (event_queue t) \<and>
    delivered c log = queue.received c (map router_of log) (event_queue t)"
proof (cases op)
  case Receive
  with assms show ?thesis
    by (auto simp: tracking_receiver_turn_def Let_def split: list.splits)
next
  case (Match now pkt cls is6 e router)
  from tracker_turn_Match [OF assms [unfolded this]] show ?thesis
    by (cases rule: match_cases) simp_all
qed (use assms in \<open>auto simp: tx_send_def cleanup_expired_def drain_events_for_conn_id_def
       split: prod.splits\<close>)

lemma delivered_append [simp]: "delivered c (l1 @ l2) = delivered c l1 @ delivered c l2"
  by (induction c l1 rule: delivered.induct) simp_all

lemma run_tracker_queue:
  assumes "run_tracker ops (t, s) = Some (log, t', s')"
  shows "event_queue t' = queue.route (map router_of log) (event_queue t) \<and>
    delivered c log = queue.received c (map router_of log) (event_queue t)"
  using assms
proof (induction ops arbitrary: t s log)
  case (Cons op ops)
  from Cons.prems obtain log1 t1 s1 log2 where
    turn: "tracker_turn op (t, s) = Some (log1, t1, s1)" and
    run: "run_tracker ops (t1, s1) = Some (log2, t', s')" and log: "log = log1 @ log2"
    by (auto simp: bind_eq_Some_conv split: prod.splits)
  from tracker_turn_queue [OF turn, of c] Cons.IH [OF run] log show ?case by simp
qed simp

text \<open>
  C2. Over every interleaving of sends, receiver turns, cleanups, matches and drains, what a
  connection has drained followed by what still waits for it is exactly what was queued for
  it before followed by the events matched for it since, in order: no event is lost,
  duplicated, reordered or delivered to another connection.
\<close>

theorem run_tracker_conserves_events:
  assumes "run_tracker ops (t, s) = Some (log, t', s')"
  shows "delivered c log @ queued_for c (event_queue t') =
    queued_for c (event_queue t) @ queued_for c (map snd (matched_events log))"
  using run_tracker_queue [OF assms, of c] queue.conservation [of c "map router_of log" "event_queue t"]
  by (simp add: pushed_router_of)

theorem run_tracker_conserves_events_witness:
  "\<exists>log. run_tracker sample_ops (new_tracker, ()) = Some (log, new_tracker, ()) \<and>
     delivered ''conn-a'' log = [sample_event] \<and>
     delivered ''conn-a'' log @ queued_for ''conn-a'' (event_queue (new_tracker :: unit PacketTracker)) =
     queued_for ''conn-a'' (event_queue (new_tracker :: unit PacketTracker)) @
     queued_for ''conn-a'' (map snd (matched_events log))"
  using run_tracker_conserves_events [OF sample_run, of "''conn-a''"] sample_run by auto

subsection \<open>Every event stems from one tracked send\<close>

definition tracked_send_ok :: "UdpPacketInfo \<Rightarrow> bool" where
  "tracked_send_ok info \<longleftrightarrow> track_for_ms (ui_send_options info) \<noteq> 0 \<and> ui_udp_checksum info \<noteq> 0"

text \<open>The entries and the messages of a tracker come from a given set of sends.\<close>

definition stems_from :: "UdpPacketInfo set \<Rightarrow> 's PacketTracker \<Rightarrow> bool" where
  "stems_from sends t \<longleftrightarrow>
     set (tracking_rx t) \<subseteq> sends \<and>
     (\<forall>k p. checksum_index t k = Some p \<longrightarrow>
        (\<exists>info \<in> sends. tracked_send_ok info \<and> key_of info = k \<and> p = tracked_of info))"

fun sends_of :: "tracker_op list \<Rightarrow> UdpPacketInfo list" where
  "sends_of [] = []"
| "sends_of (Send info # ops) = info # sends_of ops"
| "sends_of (_ # ops) = sends_of ops"

text \<open>
  An event agrees with a send: it carries the send's cleartext, connection, options and
  time, and the error it answers quotes the send's address, length and checksum.
\<close>

definition event_from :: "ChecksumKey \<Rightarrow> TrackedPacketEvent \<Rightarrow> UdpPacketInfo \<Rightarrow> bool" where
  "event_from k e info \<longleftrightarrow>
     tracked_send_ok info \<and> k = key_of info \<and>
     ev_cleartext e = ui_cleartext info \<and> ev_conn_id e = ui_conn_id info \<and>
     ev_send_options e = ui_send_options info \<and> ev_sent_at e = ui_sent_at info \<and>
     ev_original_dest_addr e = fmt_socket_addr (ui_dest_addr info)"

lemma event_of_from:
  "tracked_send_ok info \<Longrightarrow> key_of info = embedded_key e \<Longrightarrow>
    event_from (embedded_key e) (event_of now pkt e router n (tracked_of info)) info"
  by (simp add: event_from_def event_of_def tracked_of_def key_of_def embedded_key_def)

lemma tracker_turn_stems:
  assumes turn: "tracker_turn op (t, s) = Some (log, t', s')"
    and stems: "stems_from sends t" and new: "set (sends_of [op]) \<subseteq> sends"
  shows "stems_from sends t' \<and> (\<forall>(k, e) \<in> set (matched_events log). \<exists>info \<in> sends. event_from k e info)"
proof (cases op)
  case Receive
  then show ?thesis using turn stems
    by (cases "tracking_rx t")
      (auto simp: tracking_receiver_turn_def stems_from_def tracked_send_ok_def Let_def
        split: if_splits)
next
  case (Cleanup now)
  then show ?thesis using turn stems
    by (auto simp: cleanup_expired_def stems_from_def split: option.splits if_splits)
next
  case (Match now pkt cls is6 e router)
  from tracker_turn_Match [OF turn [unfolded this]] show ?thesis
  proof (cases rule: match_cases)
    case (hit p n)
    from hit(1) have "checksum_index t (embedded_key e) = Some p"
      by (simp add: lookup_embedded_def split: if_splits)
    with stems obtain info where "info \<in> sends" "tracked_send_ok info"
      "key_of info = embedded_key e" "p = tracked_of info"
      unfolding stems_from_def by blast
    with hit show ?thesis using stems tracker_turn_Match(2) [OF turn [unfolded Match]]
      by (auto simp: stems_from_def intro: event_of_from)
  next
    case miss
    then show ?thesis using stems tracker_turn_Match(2) [OF turn [unfolded Match]] by simp
  qed
qed (use turn stems new in \<open>auto simp: tx_send_def stems_from_def drain_events_for_conn_id_def
       split: prod.splits\<close>)

lemma run_tracker_stems:
  assumes "run_tracker ops (t, s) = Some (log, t', s')"
    and "stems_from sends t" and "set (sends_of ops) \<subseteq> sends"
  shows "\<forall>(k, e) \<in> set (matched_events log). \<exists>info \<in> sends. event_from k e info"
  using assms
proof (induction ops arbitrary: t s log)
  case (Cons op ops)
  from Cons.prems(1) obtain log1 t1 s1 log2 where
    turn: "tracker_turn op (t, s) = Some (log1, t1, s1)" and
    run: "run_tracker ops (t1, s1) = Some (log2, t', s')" and log: "log = log1 @ log2"
    by (auto simp: bind_eq_Some_conv split: prod.splits)
  from Cons.prems(3) have "set (sends_of [op]) \<subseteq> sends" "set (sends_of ops) \<subseteq> sends"
    by (cases op; simp)+
  with tracker_turn_stems [OF turn Cons.prems(2)] Cons.IH [OF run] log show ?case by auto
qed simp

lemma matched_stems_from_send:
  assumes "run_tracker ops (new_tracker, s) = Some (log, t', s')"
    and "(k, e) \<in> set (matched_events log)"
  shows "\<exists>info \<in> set (sends_of ops). event_from k e info"
proof -
  have "stems_from (set (sends_of ops)) new_tracker"
    by (simp add: stems_from_def new_tracker_def)
  from run_tracker_stems [OF assms(1) this] assms(2) show ?thesis by auto
qed

subsection \<open>A send is matched at most once\<close>

definition matches_for :: "ChecksumKey \<Rightarrow> tracker_log list \<Rightarrow> nat" where
  "matches_for k log = length (filter (\<lambda>(k', e). k' = k) (matched_events log))"

definition pending :: "ChecksumKey \<Rightarrow> 's PacketTracker \<Rightarrow> nat" where
  "pending k t = (if checksum_index t k = None then 0 else 1) +
     length (filter (\<lambda>info. key_of info = k) (tracking_rx t))"

definition sends_for :: "ChecksumKey \<Rightarrow> tracker_op list \<Rightarrow> nat" where
  "sends_for k ops = length (filter (\<lambda>info. key_of info = k) (sends_of ops))"

lemma sends_for_Cons: "sends_for k (op # ops) = sends_for k [op] + sends_for k ops"
  by (cases op) (simp_all add: sends_for_def)

lemma tracker_turn_pending:
  assumes turn: "tracker_turn op (t, s) = Some (log, t', s')"
  shows "matches_for k log + pending k t' \<le> pending k t + sends_for k [op]"
proof (cases op)
  case Receive
  then show ?thesis using turn
    by (cases "tracking_rx t")
      (auto simp: tracking_receiver_turn_def pending_def matches_for_def sends_for_def Let_def
        split: if_splits)
next
  case (Match now pkt cls is6 e router)
  from tracker_turn_Match [OF turn [unfolded this]] show ?thesis
  proof (cases rule: match_cases)
    case (hit p n)
    then show ?thesis using tracker_turn_Match(2) [OF turn [unfolded Match]]
      by (auto simp: matches_for_def pending_def lookup_embedded_def split: if_splits)
  next
    case miss
    then show ?thesis using tracker_turn_Match(2) [OF turn [unfolded Match]]
      by (simp add: matches_for_def)
  qed
qed (use turn in \<open>auto simp: tx_send_def cleanup_expired_def pending_def matches_for_def
       sends_for_def drain_events_for_conn_id_def split: prod.splits option.splits if_splits\<close>)

lemma run_tracker_pending:
  assumes "run_tracker ops (t, s) = Some (log, t', s')"
  shows "matches_for k log + pending k t' \<le> pending k t + sends_for k ops"
  using assms
proof (induction ops arbitrary: t s log)
  case (Cons op ops)
  from Cons.prems obtain log1 t1 s1 log2 where
    turn: "tracker_turn op (t, s) = Some (log1, t1, s1)" and
    run: "run_tracker ops (t1, s1) = Some (log2, t', s')" and log: "log = log1 @ log2"
    by (auto simp: bind_eq_Some_conv split: prod.splits)
  have "matches_for k log = matches_for k log1 + matches_for k log2"
    by (simp add: log matches_for_def)
  with tracker_turn_pending [OF turn, of k] Cons.IH [OF run] sends_for_Cons [of k op ops]
  show ?case by linarith
qed (simp add: matches_for_def)

text \<open>
  C7. Every event that a run from a fresh tracker produces stems from a send of that run: the
  quoted destination, UDP length and checksum are those of the send, and the event carries
  that send's cleartext, connection, options and time. The errors that quote a given
  destination, length and checksum give at most as many events as probes with that key were
  sent: no event is made up, and repeated ICMP errors for one probe are reported once.
\<close>

theorem events_stem_from_sends:
  assumes "run_tracker ops (new_tracker, s) = Some (log, t', s')"
  shows "(\<forall>(k, e) \<in> set (matched_events log). \<exists>info \<in> set (sends_of ops). event_from k e info) \<and>
    (\<forall>k. matches_for k log \<le> sends_for k ops)"
proof (intro conjI allI)
  fix k
  show "matches_for k log \<le> sends_for k ops"
    using run_tracker_pending [OF assms, of k] by (simp add: pending_def new_tracker_def)
qed (auto dest: matched_stems_from_send [OF assms])

theorem events_stem_from_sends_witness:
  "\<exists>log. run_tracker sample_ops (new_tracker, ()) = Some (log, new_tracker, ()) \<and>
     (key_of sample_info, sample_event) \<in> set (matched_events log) \<and>
     (\<exists>info \<in> set (sends_of sample_ops). event_from (key_of sample_info) sample_event info) \<and>
     matches_for (key_of sample_info) log = 1 \<and>
     matches_for (key_of sample_info) log \<le> sends_for (key_of sample_info) sample_ops"
  using events_stem_from_sends [OF sample_run] sample_run
  by (fastforce simp: matches_for_def)

subsection \<open>A tracked probe stays matchable until it expires\<close>

definition quiet_for :: "ChecksumKey \<Rightarrow> nat \<Rightarrow> tracker_op \<Rightarrow> bool" where
  "quiet_for k deadline op \<longleftrightarrow>
     (case op of
        Send info \<Rightarrow> key_of info \<noteq> k
      | Receive \<Rightarrow> True
      | Cleanup now \<Rightarrow> now < deadline
      | Match now pkt cls is6 e router \<Rightarrow> embedded_key e \<noteq> k
      | DrainFor c \<Rightarrow> True)"

definition holds_only :: "ChecksumKey \<Rightarrow> TrackedPacket \<Rightarrow> 's PacketTracker \<Rightarrow> bool" where
  "holds_only k p t \<longleftrightarrow>
     checksum_index t k = Some p \<and> (\<forall>info \<in> set (tracking_rx t). key_of info \<noteq> k)"

lemma tracker_turn_holds:
  assumes turn: "tracker_turn op (t, s) = Some (log, t', s')"
    and holds: "holds_only k p t" and quiet: "quiet_for k (tp_expires_at p) op"
  shows "holds_only k p t'"
proof (cases op)
  case Receive
  then show ?thesis using turn holds
    by (cases "tracking_rx t")
      (auto simp: tracking_receiver_turn_def holds_only_def Let_def split: if_splits)
next
  case (Match now pkt cls is6 e router)
  from tracker_turn_Match(1) [OF turn [unfolded this]] show ?thesis
    by (cases rule: match_cases) (use holds quiet Match in \<open>auto simp: holds_only_def quiet_for_def\<close>)
qed (use turn holds quiet in \<open>auto simp: tx_send_def cleanup_expired_def holds_only_def
       quiet_for_def drain_events_for_conn_id_def split: prod.splits\<close>)

lemma run_tracker_holds:
  assumes "run_tracker ops (t, s) = Some (log, t', s')"
    and "holds_only k p t" and "\<forall>op \<in> set ops. quiet_for k (tp_expires_at p) op"
  shows "holds_only k p t'"
  using assms
proof (induction ops arbitrary: t s log)
  case (Cons op ops)
  from Cons.prems(1) obtain log1 t1 s1 log2 where
    turn: "tracker_turn op (t, s) = Some (log1, t1, s1)" and
    run: "run_tracker ops (t1, s1) = Some (log2, t', s')"
    by (auto simp: bind_eq_Some_conv split: prod.splits)
  from tracker_turn_holds [OF turn Cons.prems(2)] Cons.prems(3) Cons.IH [OF run] show ?case
    by simp
qed simp

lemma received_send_holds:
  assumes "tracking_rx t = []" and "tracked_send_ok info"
  shows "holds_only (key_of info) (tracked_of info) (tracking_receiver_turn (tx_send info t))"
  using assms
  by (simp add: tracking_receiver_turn_def tx_send_def tracked_send_ok_def holds_only_def)

lemma match_held:
  assumes "holds_only k p t" and "k = embedded_key e" and "em_udp_checksum e \<noteq> 0"
    and "unat (em_udp_length e) \<le> 65495"
  shows "match_icmp_error now pkt cls is6 e router (t, s) =
    Some (t\<lparr>checksum_index := (checksum_index t)(k := None),
            event_queue := event_queue t @
              [event_of now pkt e router (em_udp_length e + (if is6 then 40 else 20)) p]\<rparr>, s)"
  using assms
  by (subst match_hit [of e t p])
    (auto simp: lookup_embedded_def holds_only_def add_checked_def)

lemma match_after_run:
  assumes "tracking_rx t = []" and "tracked_send_ok info"
    and "run_tracker (Receive # ops) (tx_send info t, s) = Some (log, t1, s1)"
    and "\<forall>op \<in> set ops. quiet_for (key_of info) (tp_expires_at (tracked_of info)) op"
    and "embedded_key e = key_of info" and "unat (ui_udp_length info) \<le> 65495"
  shows "match_icmp_error now pkt cls is6 e router (t1, s1) =
      Some (t1\<lparr>checksum_index := (checksum_index t1)(key_of info := None),
              event_queue := event_queue t1 @
                [event_of now pkt e router (ui_udp_length info + (if is6 then 40 else 20))
                   (tracked_of info)]\<rparr>, s1)"
proof -
  from assms(3) obtain log2 where
    "run_tracker ops (tracking_receiver_turn (tx_send info t), s) = Some (log2, t1, s1)"
    by (auto simp: bind_eq_Some_conv split: prod.splits)
  from run_tracker_holds [OF this received_send_holds [OF assms(1,2)] assms(4)]
  have held: "holds_only (key_of info) (tracked_of info) t1" .
  have "em_udp_checksum e = ui_udp_checksum info" "em_udp_length e = ui_udp_length info"
    using assms(5) by (simp_all add: embedded_key_def key_of_def)
  with match_held [OF held assms(5) [symmetric], of now pkt cls is6 router s1] assms(2,6)
  show ?thesis by (simp add: tracked_send_ok_def)
qed

lemma unat_tracked_length:
  "unat n \<le> 65495 \<Longrightarrow> unat (n + (if is6 then 40 else 20) :: u16) = unat n + (if is6 then 40 else 20)"
  by (auto simp: unat_word_ariths)

text \<open>
  C6. A probe that was sent and received by the tracker is reported by the first ICMP error
  that quotes its destination, length and checksum, whatever other traffic, other errors,
  drains and cleanups before its deadline come between: the match removes the entry and
  appends the one event for its connection.
\<close>

theorem tracked_send_is_reported:
  assumes "tracking_rx t = []" and "tracked_send_ok info"
    and "run_tracker (Receive # ops) (tx_send info t, s) = Some (log, t1, s1)"
    and "\<forall>op \<in> set ops. quiet_for (key_of info) (tp_expires_at (tracked_of info)) op"
    and "embedded_key e = key_of info" and "unat (ui_udp_length info) \<le> 65495"
  shows "\<exists>ev. match_icmp_error now pkt cls is6 e router (t1, s1) =
      Some (t1\<lparr>checksum_index := (checksum_index t1)(key_of info := None),
              event_queue := event_queue t1 @ [ev]\<rparr>, s1) \<and>
    event_from (key_of info) ev info \<and> ev_icmp_packet ev = pkt \<and> ev_router_ip ev = router \<and>
    ev_tracked_ip_length ev = unat (ui_udp_length info) + (if is6 then 40 else 20)"
proof -
  let ?ev = "event_of now pkt e router (ui_udp_length info + (if is6 then 40 else 20))
    (tracked_of info)"
  have "event_from (key_of info) ?ev info"
    using event_of_from [OF assms(2), of e] assms(5) by simp
  with match_after_run [OF assms, of now pkt cls is6 router] unat_tracked_length [OF assms(6)]
  show ?thesis by (intro exI [of _ ?ev]) simp
qed

theorem tracked_send_is_reported_witness:
  "\<exists>t1 ev. match_icmp_error 9 [11] TtlExpired False sample_embedded None (t1, ()) =
      Some (t1\<lparr>checksum_index := (checksum_index t1)(key_of sample_info := None),
              event_queue := event_queue t1 @ [ev]\<rparr>, ()) \<and>
    event_from (key_of sample_info) ev sample_info \<and> ev_tracked_ip_length ev = 32"
proof -
  have "run_tracker (Receive # [DrainFor ''conn-b'', Cleanup 8]) (tx_send sample_info new_tracker, ()) =
    Some ([Drained ''conn-b'' []],
      cleanup_expired 8 (tracking_receiver_turn (tx_send sample_info new_tracker)), ())"
    by (simp add: drain_events_for_conn_id_def new_tracker_def tx_send_def
        tracking_receiver_turn_def Let_def)
  from tracked_send_is_reported [OF _ _ this, of sample_embedded 9 "[11]" TtlExpired False None]
  show ?thesis
    by (fastforce simp: new_tracker_def tracked_send_ok_def sample_key quiet_for_def
        sample_info_def tracked_of_def ms_def)
qed

end
