(* ===== verification/Rust_Net.thy ===== *)
theory Rust_Net
  imports Rust_Strings
begin

text \<open>
  \<open>str::parse::<IpAddr>\<close> of Rust's standard library: a recursive-descent parser for the
  dotted and the colon notation. A reader returns the value and the rest of the input, or
  \<open>None\<close> when it does not match.
\<close>

type_synonym 'a reader = "string \<Rightarrow> ('a \<times> string) option"

definition digit_val :: "nat \<Rightarrow> char \<Rightarrow> nat option" where
  "digit_val radix c =
     (let b = byte c;
          v = (if 48 \<le> b \<and> b \<le> 57 then b - 48
               else if 97 \<le> b \<and> b \<le> 122 then b - 87
               else if 65 \<le> b \<and> b \<le> 90 then b - 55 else 99)
      in if v < radix then Some v else None)"

text \<open>The digits at the front: value, how many, and the rest.\<close>

fun read_digits :: "nat \<Rightarrow> nat \<Rightarrow> nat \<Rightarrow> string \<Rightarrow> nat \<times> nat \<times> string" where
  "read_digits radix acc n [] = (acc, n, [])"
| "read_digits radix acc n (c # s) =
     (case digit_val radix c of
        Some d \<Rightarrow> read_digits radix (acc * radix + d) (n + 1) s
      | None \<Rightarrow> (acc, n, c # s))"

definition read_number :: "nat \<Rightarrow> nat \<Rightarrow> bool \<Rightarrow> nat \<Rightarrow> nat reader" where
  "read_number radix max_digits allow_zero_prefix limit s =
     (let (v, n, rest) = read_digits radix 0 0 s
      in if n = 0 \<or> max_digits < n then None
         else if \<not> allow_zero_prefix \<and> hd s = CHR ''0'' \<and> 1 < n then None
         else if v < limit then Some (v, rest) else None)"

definition read_given_char :: "char \<Rightarrow> string \<Rightarrow> string option" where
  "read_given_char c s = (case s of [] \<Rightarrow> None | x # t \<Rightarrow> if x = c then Some t else None)"

text \<open>\<open>read_separator\<close>: the separator comes before every element but the first.\<close>

definition read_separator :: "char \<Rightarrow> nat \<Rightarrow> 'a reader \<Rightarrow> 'a reader" where
  "read_separator sep i inner s =
     (if i = 0 then inner s else do { t \<leftarrow> read_given_char sep s; inner t })"

definition read_octet :: "nat reader" where
  "read_octet = read_number 10 3 False 256"

definition read_ipv4_addr :: "u32 reader" where
  "read_ipv4_addr s =
     do {
       (a, s) \<leftarrow> read_separator CHR ''.'' 0 read_octet s;
       (b, s) \<leftarrow> read_separator CHR ''.'' 1 read_octet s;
       (c, s) \<leftarrow> read_separator CHR ''.'' 2 read_octet s;
       (d, s) \<leftarrow> read_separator CHR ''.'' 3 read_octet s;
       Some (of_nat (((a * 256 + b) * 256 + c) * 256 + d), s)
     }"

text \<open>
  \<open>read_groups\<close>: up to \<open>limit\<close> groups of 16 bits, the last two possibly in dotted notation;
  it returns the groups read, whether they end in a dotted address, and the rest.
\<close>

function read_groups :: "nat \<Rightarrow> nat \<Rightarrow> string \<Rightarrow> nat list \<times> bool \<times> string" where
  "read_groups limit i s =
     (if limit \<le> i then ([], False, s)
      else
        case (if i + 1 < limit then read_separator CHR '':'' i read_ipv4_addr s else None) of
          Some (v4, rest) \<Rightarrow> ([unat v4 div 65536, unat v4 mod 65536], True, rest)
        | None \<Rightarrow>
            (case read_separator CHR '':'' i (read_number 16 4 True 65536) s of
               Some (g, rest) \<Rightarrow>
                 (let (gs, dotted, rest') = read_groups limit (i + 1) rest
                  in (g # gs, dotted, rest'))
             | None \<Rightarrow> ([], False, s)))"
  by pat_completeness auto
termination
  by (relation "measure (\<lambda>(limit, i, s). limit - i)") auto

declare read_groups.simps [simp del]

definition v6_of_segments :: "nat list \<Rightarrow> u128" where
  "v6_of_segments gs = of_nat (foldl (\<lambda>acc g. acc * 65536 + g) 0 gs)"

definition read_ipv6_addr :: "u128 reader" where
  "read_ipv6_addr s =
     (let (head, head_ipv4, s1) = read_groups 8 0 s
      in if length head = 8 then Some (v6_of_segments head, s1)
         else if head_ipv4 then None
         else do {
           s2 \<leftarrow> read_given_char CHR '':'' s1;
           s3 \<leftarrow> read_given_char CHR '':'' s2;
           let (tail, _, s4) = read_groups (8 - (length head + 1)) 0 s3;
           Some (v6_of_segments (head @ replicate (8 - length head - length tail) 0 @ tail), s4)
         })"

definition parse_ip :: "string \<Rightarrow> ip_addr option" where
  "parse_ip s =
     (case read_ipv4_addr s of
        Some (w, rest) \<Rightarrow> if rest = [] then Some (V4 w) else None
      | None \<Rightarrow>
          (case read_ipv6_addr s of
             Some (w, rest) \<Rightarrow> if rest = [] then Some (V6 w) else None
           | None \<Rightarrow> None))"

end
