(* ===== verification/Server_State.thy ===== *)
theory Server_State
  imports Packet_Tracker Rust_Net
begin

text \<open>
  \<open>server/src/state.rs\<close>: the client sessions. The table of sessions is an association list
  with distinct keys whose order is the (unspecified) iteration order of the hash map; a
  session holds the fields that the modelled handlers read or write.
\<close>

record ClientSession =
  cs_id :: string
  cs_parent_id :: "string option"
  cs_ip_version :: "string option"
  cs_mode :: "string option"
  cs_conn_id :: string
  cs_ice_candidates :: "string list"
  cs_peer_address :: "(string \<times> u16) option"
  cs_icmp_error_count :: u32
  cs_last_icmp_error :: "nat option"

text \<open>The sessions of the server and the peer connections it has closed, newest last.\<close>

record ServerState =
  clients :: "(string \<times> ClientSession) list"
  closed_peers :: "string list"

definition remove_client :: "string \<Rightarrow> ServerState \<Rightarrow> ServerState" where
  "remove_client i s = s\<lparr>clients := filter (\<lambda>(k, _). k \<noteq> i) (clients s)\<rparr>"

definition update_client :: "string \<Rightarrow> ClientSession \<Rightarrow> ServerState \<Rightarrow> ServerState" where
  "update_client i c s =
     s\<lparr>clients := map (\<lambda>(k, v). if k = i then (k, c) else (k, v)) (clients s)\<rparr>"

definition client_ids :: "ServerState \<Rightarrow> string list" where
  "client_ids s = map fst (clients s)"

definition state_ok :: "ServerState \<Rightarrow> bool" where
  "state_ok s \<longleftrightarrow> distinct (client_ids s)"

lemma map_of_update_client [simp]:
  "map_of (clients (update_client i c s)) j =
     (if j = i then map_option (\<lambda>_. c) (map_of (clients s) i) else map_of (clients s) j)"
proof -
  have "map_of (map (\<lambda>(k, v). if k = i then (k, c) else (k, v)) xs) j =
    (if j = i then map_option (\<lambda>_. c) (map_of xs i) else map_of xs j)" for xs :: "(string \<times> ClientSession) list"
    by (induction xs) auto
  then show ?thesis by (simp add: update_client_def)
qed

lemma map_of_remove_client [simp]:
  "map_of (clients (remove_client i s)) j = (if j = i then None else map_of (clients s) j)"
proof -
  have "map_of (filter (\<lambda>(k, _). k \<noteq> i) xs) j = (if j = i then None else map_of xs j)"
    for xs :: "(string \<times> ClientSession) list"
    by (induction xs) auto
  then show ?thesis by (simp add: remove_client_def)
qed

lemma client_ids_update [simp]: "client_ids (update_client i c s) = client_ids s"
  by (simp add: client_ids_def update_client_def case_prod_beta' comp_def if_distrib cong: if_cong)

lemma state_ok_update [simp]: "state_ok (update_client i c s) = state_ok s"
  by (simp add: state_ok_def)

lemma state_ok_remove [simp]: "state_ok s \<Longrightarrow> state_ok (remove_client i s)"
  by (auto simp: state_ok_def client_ids_def remove_client_def distinct_map intro: inj_on_subset)

end
