(* ===== verification/Wire_Format.thy ===== *)
theory Wire_Format
  imports Netpoke_Prelude
begin

text \<open>
  Reference formats of the wire, as the standards have them: the UDP header, IPv4 headers
  (with or without options) and IPv6 headers. The theorems about the packet parsers are
  stated over these.
\<close>

definition udp_header :: "u16 \<Rightarrow> u16 \<Rightarrow> u16 \<Rightarrow> u16 \<Rightarrow> bytes" where
  "udp_header sp dp len cks =
     be_bytes 2 (unat sp) @ be_bytes 2 (unat dp) @ be_bytes 2 (unat len) @ be_bytes 2 (unat cks)"

definition ipv4_header :: "u8 \<Rightarrow> u32 \<Rightarrow> u32 \<Rightarrow> bytes \<Rightarrow> bool" where
  "ipv4_header protocol src dst hdr \<longleftrightarrow>
     20 \<le> length hdr \<and> unat (hdr ! 0) div 16 = 4 \<and> length hdr = 4 * (unat (hdr ! 0) mod 16) \<and>
     hdr ! 9 = protocol \<and> take 4 (drop 12 hdr) = v4_octets src \<and> take 4 (drop 16 hdr) = v4_octets dst"

definition ipv6_header :: "u8 \<Rightarrow> u128 \<Rightarrow> u128 \<Rightarrow> bytes \<Rightarrow> bool" where
  "ipv6_header next_header src dst hdr \<longleftrightarrow>
     length hdr = 40 \<and> unat (hdr ! 0) div 16 = 6 \<and> hdr ! 6 = next_header \<and>
     take 16 (drop 8 hdr) = v6_octets src \<and> drop 24 hdr = v6_octets dst"

lemma length_udp_header [simp]: "length (udp_header sp dp len cks) = 8"
  by (simp add: udp_header_def)

lemma udp_header_nth:
  "u16_be (udp_header sp dp len cks ! 0) (udp_header sp dp len cks ! Suc 0) = sp"
  "u16_be (udp_header sp dp len cks ! 2) (udp_header sp dp len cks ! 3) = dp"
  "u16_be (udp_header sp dp len cks ! 4) (udp_header sp dp len cks ! 5) = len"
  "u16_be (udp_header sp dp len cks ! 6) (udp_header sp dp len cks ! 7) = cks"
  by (simp_all add: udp_header_def nth_append)

lemma take4_nth: "take 4 (drop n xs) = ys \<Longrightarrow> length ys = 4 \<Longrightarrow> n + 4 \<le> length xs \<Longrightarrow>
    [xs ! n, xs ! (n + 1), xs ! (n + 2), xs ! (n + 3)] = ys"
  by (auto simp: list_eq_iff_nth_eq nth_Cons' less_Suc_eq numeral_eq_Suc)

lemma version_nibble: "unat (b :: u8) div 16 = n \<Longrightarrow> n < 16 \<Longrightarrow> drop_bit 4 b AND 0x0F = of_nat n"
  by (simp add: word_unat_eq_iff unat_high_nibble unat_of_nat_small)

lemma ipv4_header_fields:
  assumes "ipv4_header protocol src dst hdr"
  shows "20 \<le> length hdr" "hdr \<noteq> []" "drop_bit 4 (hdr ! 0) AND 0x0F = 4"
    "4 * (unat (hdr ! 0) mod 16) = length hdr" "hdr ! 9 = protocol"
    "v4_of [hdr ! 12, hdr ! 13, hdr ! 14, hdr ! 15] = src"
    "v4_of [hdr ! 16, hdr ! 17, hdr ! 18, hdr ! 19] = dst"
  using assms take4_nth [of 12 hdr "v4_octets src"] take4_nth [of 16 hdr "v4_octets dst"]
    version_nibble [of "hdr ! 0" 4]
  by (auto simp: ipv4_header_def)

lemma ipv6_header_fields:
  assumes "ipv6_header next_header src dst hdr"
  shows "length hdr = 40" "hdr \<noteq> []" "drop_bit 4 (hdr ! 0) AND 0x0F = 6" "hdr ! 6 = next_header"
    "v6_of (take 16 (drop 8 hdr)) = src" "take 16 (drop 24 hdr) = v6_octets dst"
    "v6_of (take 16 (drop 24 hdr)) = dst"
  using assms version_nibble [of "hdr ! 0" 6] by (auto simp: ipv6_header_def)

end
