(* ===== verification/Icmp_Listener.thy ===== *)
theory Icmp_Listener
  imports Packet_Tracker Wire_Format
begin

text \<open>
  \<open>server/src/icmp_listener.rs\<close>: the parsers that read the datagram an ICMP or ICMPv6 error
  quotes, and the body of the two listener loops. Indexing and slicing are checked, so the
  outer option of a parser is the panic of an access out of bounds.
\<close>

subsection \<open>The parsers\<close>

definition class_of_icmp :: "u8 \<Rightarrow> IcmpMessageClass" where
  "class_of_icmp ty = (if ty = 3 then Error else if ty = 11 then TtlExpired else Ignore)"

definition class_of_icmpv6 :: "u8 \<Rightarrow> IcmpMessageClass" where
  "class_of_icmpv6 ty = (if ty = 1 then Error else if ty = 2 then TtlExpired else Ignore)"

text \<open>The UDP header and payload prefix that both parsers read the same way.\<close>

definition read_udp :: "bytes \<Rightarrow> nat \<Rightarrow> ip_addr \<Rightarrow> EmbeddedUdpInfo option" where
  "read_udp packet udp_start dest_ip =
     do {
       src_port \<leftarrow> read_u16 packet udp_start;
       dest_port \<leftarrow> read_u16 packet (udp_start + 2);
       udp_length \<leftarrow> read_u16 packet (udp_start + 4);
       udp_checksum \<leftarrow> read_u16 packet (udp_start + 6);
       let payload_start = udp_start + 8;
       let payload_end = min (payload_start + MAX_PAYLOAD_PREFIX_SIZE) (length packet);
       payload_prefix \<leftarrow> slice packet payload_start payload_end;
       Some \<lparr>em_src_port = src_port, em_dest_addr = SocketAddr dest_ip dest_port,
             em_udp_length = udp_length, em_payload_prefix = payload_prefix,
             em_udp_checksum = udp_checksum\<rparr>
     }"

definition parse_icmp_error :: "bytes \<Rightarrow> (EmbeddedUdpInfo \<times> IcmpMessageClass) option option" where
  "parse_icmp_error packet =
     (if length packet < 56 then Some None
      else do {
        icmp_type \<leftarrow> idx packet 20;
        icmp_code \<leftarrow> idx packet 21;
        if icmp_type \<notin> {3, 11, 12} then Some None
        else do {
          let embedded_ip_start = 28;
          b \<leftarrow> idx packet embedded_ip_start;
          if drop_bit 4 b AND 0x0F \<noteq> 4 then Some None
          else do {
            header_len \<leftarrow> mul_checked (b AND 0x0F) 4;
            embedded_protocol \<leftarrow> idx packet (embedded_ip_start + 9);
            if embedded_protocol \<noteq> 17 then Some None
            else do {
              d0 \<leftarrow> idx packet (embedded_ip_start + 16);
              d1 \<leftarrow> idx packet (embedded_ip_start + 17);
              d2 \<leftarrow> idx packet (embedded_ip_start + 18);
              d3 \<leftarrow> idx packet (embedded_ip_start + 19);
              let dest_ip = v4_of [d0, d1, d2, d3];
              let embedded_udp_start = embedded_ip_start + unat header_len;
              if length packet < embedded_udp_start + 8 then Some None
              else do {
                info \<leftarrow> read_udp packet embedded_udp_start (V4 dest_ip);
                Some (Some (info, class_of_icmp icmp_type))
              }
            }
          }
        }
      })"

definition parse_icmpv6_error :: "bytes \<Rightarrow> (EmbeddedUdpInfo \<times> IcmpMessageClass) option option" where
  "parse_icmpv6_error packet =
     (if length packet < 56 then Some None
      else do {
        icmpv6_type \<leftarrow> idx packet 0;
        icmpv6_code \<leftarrow> idx packet 1;
        if icmpv6_type \<notin> {1, 2, 3} then Some None
        else if length packet < 8 + 40 then Some None
        else do {
          b \<leftarrow> idx packet 8;
          if drop_bit 4 b AND 0x0F \<noteq> 6 then Some None
          else do {
            next_header \<leftarrow> idx packet (8 + 6);
            if next_header \<noteq> 17 then Some None
            else do {
              dest_ip_bytes \<leftarrow> slice packet (8 + 24) (8 + 40);
              let embedded_udp_start = 8 + 40;
              if length packet < embedded_udp_start + 8 then Some None
              else do {
                info \<leftarrow> read_udp packet embedded_udp_start (V6 (v6_of dest_ip_bytes));
                Some (Some (info, class_of_icmpv6 icmpv6_type))
              }
            }
          }
        }
      })"

subsection \<open>The listener loops\<close>

text \<open>The handling of one received packet; \<open>addr_ip\<close> is the sender's address.\<close>

definition icmp_listener_v4 ::
  "nat \<Rightarrow> bytes \<Rightarrow> ip_addr \<Rightarrow> 's PacketTracker \<times> 's \<Rightarrow> ('s PacketTracker \<times> 's) option" where
  "icmp_listener_v4 now icmp_packet addr_ip st =
     do {
       parsed \<leftarrow> parse_icmp_error icmp_packet;
       (case parsed of
          Some (info, cls) \<Rightarrow>
            match_icmp_error now icmp_packet cls False info (Some (fmt_ip addr_ip)) st
        | None \<Rightarrow> Some st)
     }"

definition icmp_listener_v6 ::
  "nat \<Rightarrow> bytes \<Rightarrow> ip_addr \<Rightarrow> 's PacketTracker \<times> 's \<Rightarrow> ('s PacketTracker \<times> 's) option" where
  "icmp_listener_v6 now icmp_packet addr_ip st =
     do {
       parsed \<leftarrow> parse_icmpv6_error icmp_packet;
       (case parsed of
          Some (info, cls) \<Rightarrow>
            match_icmp_error now icmp_packet cls True info (Some (fmt_ip addr_ip)) st
        | None \<Rightarrow> Some st)
     }"

subsection \<open>Panic freedom\<close>

lemma read_udp_Some [panic_free]:
  assumes "u + 8 \<le> length p"
  shows "read_udp p u ip = Some
    \<lparr>em_src_port = u16_be (p ! u) (p ! (u + 1)),
     em_dest_addr = SocketAddr ip (u16_be (p ! (u + 2)) (p ! (u + 3))),
     em_udp_length = u16_be (p ! (u + 4)) (p ! (u + 5)),
     em_payload_prefix = take 64 (drop (u + 8) p),
     em_udp_checksum = u16_be (p ! (u + 6)) (p ! (u + 7))\<rparr>"
  using assms
  by (auto simp: read_udp_def MAX_PAYLOAD_PREFIX_SIZE_def slice_def min_def numeral_eq_Suc)

lemma icmp_parsers_total: "parse_icmp_error packet \<noteq> None \<and> parse_icmpv6_error packet \<noteq> None"
proof (cases "length packet < 56")
  case False
  then have "parse_icmp_error packet \<noteq> None"
    by (simp add: parse_icmp_error_def read_udp_Some Let_def)
  moreover from False have "packet \<noteq> []" by auto
  with False have "parse_icmpv6_error packet \<noteq> None"
    by (simp add: parse_icmpv6_error_def read_udp_Some Let_def)
  ultimately show ?thesis ..
qed (simp add: parse_icmp_error_def parse_icmpv6_error_def)

subsection \<open>Quoted datagrams\<close>

text \<open>
  An ICMPv4 error as a router builds it: 20 bytes of outer header, type, code, the rest of
  the ICMP header, the IP header of the offending datagram (with any options), its UDP
  header and as much of its payload as the router includes.
\<close>

definition icmp_v4_quote :: "bytes \<Rightarrow> u8 \<Rightarrow> bytes \<Rightarrow> bytes \<Rightarrow> bytes \<Rightarrow> bytes" where
  "icmp_v4_quote outer ty rest hdr datagram = outer @ [ty] @ rest @ hdr @ datagram"

definition icmp_v6_quote :: "u8 \<Rightarrow> bytes \<Rightarrow> bytes \<Rightarrow> bytes \<Rightarrow> bytes" where
  "icmp_v6_quote ty rest hdr datagram = [ty] @ rest @ hdr @ datagram"

definition embedded_of :: "ip_addr \<Rightarrow> u16 \<Rightarrow> u16 \<Rightarrow> u16 \<Rightarrow> u16 \<Rightarrow> bytes \<Rightarrow> EmbeddedUdpInfo" where
  "embedded_of ip sp dp len cks payload =
     \<lparr>em_src_port = sp, em_dest_addr = SocketAddr ip dp, em_udp_length = len,
      em_payload_prefix = take 64 payload, em_udp_checksum = cks\<rparr>"

lemma read_udp_quote:
  assumes "u = length pre"
  shows "read_udp (pre @ udp_header sp dp len cks @ payload) u ip =
    Some (embedded_of ip sp dp len cks payload)"
  unfolding assms
  by (subst read_udp_Some)
    (simp_all add: embedded_of_def nth_append udp_header_nth [simplified])

lemma quote_v4_nth:
  assumes "length outer = 20" and "length rest = 7"
  shows "icmp_v4_quote outer ty rest hdr d ! 20 = ty"
    and "i < length hdr \<Longrightarrow> icmp_v4_quote outer ty rest hdr d ! (28 + i) = hdr ! i"
  using assms by (simp_all add: icmp_v4_quote_def nth_append)

lemma parse_quote_v4:
  assumes "length outer = 20" and "length rest = 7" and "ty \<in> {3, 11, 12}"
    and hdr: "ipv4_header 17 src dst hdr"
  shows "parse_icmp_error (icmp_v4_quote outer ty rest hdr (udp_header sp dp len cks @ payload)) =
    Some (Some (embedded_of (V4 dst) sp dp len cks payload, class_of_icmp ty))"
proof -
  let ?d = "udp_header sp dp len cks @ payload"
  let ?p = "icmp_v4_quote outer ty rest hdr ?d"
  from hdr have h: "20 \<le> length hdr" "unat (hdr ! 0) div 16 = 4"
      "length hdr = 4 * (unat (hdr ! 0) mod 16)" "hdr ! 9 = 17"
      "v4_of [hdr ! 16, hdr ! 17, hdr ! 18, hdr ! 19] = dst"
    using take4_nth [of 16 hdr "v4_octets dst"] by (auto simp: ipv4_header_def)
  have len: "length ?p = 28 + length hdr + 8 + length payload"
    using assms by (simp add: icmp_v4_quote_def)
  have q: "?p ! (28 + i) = hdr ! i" if "i < length hdr" for i
    using quote_v4_nth(2) [OF assms(1,2) that] .
  have n: "?p ! 20 = ty" "?p ! 28 = hdr ! 0" "?p ! 37 = 17" "?p ! 44 = hdr ! 16"
      "?p ! 45 = hdr ! 17" "?p ! 46 = hdr ! 18" "?p ! 47 = hdr ! 19"
    using q [of 0] q [of 9] q [of 16] q [of 17] q [of 18] q [of 19] h
      quote_v4_nth(1) [OF assms(1,2)] by simp_all
  have "drop_bit 4 (hdr ! 0) AND 0x0F = 4"
    using h(2) by (simp add: word_unat_eq_iff unat_high_nibble)
  moreover have "read_udp ?p (28 + length hdr) (V4 dst) =
      Some (embedded_of (V4 dst) sp dp len cks payload)"
    using read_udp_quote [of "28 + length hdr" "outer @ [ty] @ rest @ hdr"] assms(1,2)
    by (simp add: icmp_v4_quote_def)
  ultimately show ?thesis
    using len n h assms(3) by (auto simp: parse_icmp_error_def unat_header_len)
qed

definition sample_hdr_v4 :: bytes where
  "sample_hdr_v4 = [0x45, 0, 0, 32, 0, 0, 0x40, 0, 1, 17, 0, 0, 10, 0, 0, 1, 10, 0, 0, 9]"

definition sample_hdr_v6 :: bytes where
  "sample_hdr_v6 = [0x60, 0, 0, 0, 0, 12, 17, 1,
     0, 0, 0, 0, 0, 0, 0, 0, 0, 0, 0, 0, 0, 0, 0, 1,
     0, 0, 0, 0, 0, 0, 0, 0, 0, 0, 0, 0, 0, 0, 0, 9]"

lemma sample_hdr_v4_ok: "ipv4_header 17 0x0A000001 0x0A000009 sample_hdr_v4"
  by (simp add: ipv4_header_def sample_hdr_v4_def v4_octets_def be_bytes_numeral)

lemma sample_hdr_v6_ok: "ipv6_header 17 1 9 sample_hdr_v6"
  by (simp add: ipv6_header_def sample_hdr_v6_def v6_octets_def be_bytes_numeral)

lemma parse_quote_v6:
  assumes "length rest = 7" and "ty \<in> {1, 2, 3}" and hdr: "ipv6_header 17 src dst hdr"
  shows "parse_icmpv6_error (icmp_v6_quote ty rest hdr (udp_header sp dp len cks @ payload)) =
    Some (Some (embedded_of (V6 dst) sp dp len cks payload, class_of_icmpv6 ty))"
proof -
  let ?p = "icmp_v6_quote ty rest hdr (udp_header sp dp len cks @ payload)"
  from hdr have h: "length hdr = 40" "unat (hdr ! 0) div 16 = 6" "hdr ! 6 = 17"
      "drop 24 hdr = v6_octets dst" by (auto simp: ipv6_header_def)
  have len: "length ?p = 56 + length payload"
    using assms h by (simp add: icmp_v6_quote_def)
  have n: "?p ! 0 = ty" "?p ! 8 = hdr ! 0" "?p ! 14 = 17" "?p \<noteq> []"
    using assms h by (simp_all add: icmp_v6_quote_def nth_append)
  have s: "slice ?p 32 48 = Some (v6_octets dst)"
    using assms h len by (simp add: slice_def icmp_v6_quote_def)
  have "drop_bit 4 (hdr ! 0) AND 0x0F = 6"
    using h(2) by (simp add: word_unat_eq_iff unat_high_nibble)
  moreover have "read_udp ?p 48 (V6 dst) = Some (embedded_of (V6 dst) sp dp len cks payload)"
    using read_udp_quote [of 48 "[ty] @ rest @ hdr"] assms h by (simp add: icmp_v6_quote_def)
  ultimately show ?thesis
    using len n s assms(2) by (auto simp: parse_icmpv6_error_def)
qed

text \<open>
  C5. Round trip: for every ICMPv4 error of type 3, 11 or 12 that quotes a UDP datagram, with
  IP options or without, and for every ICMPv6 error of type 1, 2 or 3 that quotes one directly
  behind its IPv6 header, with the payload cut anywhere, the parsers return the datagram's
  source port, destination, length and checksum, the first 64 quoted payload bytes and the
  class of the type. Neither parser panics on any received byte string, of any length and
  content: every index and slice is in bounds and the header length does not overflow.
\<close>

theorem icmp_parsers_read_the_quote:
  assumes "length outer = 20" and "length rest = 7"
    and "ty4 \<in> {3, 11, 12}" and "ipv4_header 17 src4 dst4 hdr4"
    and "ty6 \<in> {1, 2, 3}" and "ipv6_header 17 src6 dst6 hdr6"
  shows "parse_icmp_error (icmp_v4_quote outer ty4 rest hdr4 (udp_header sp dp len cks @ payload)) =
      Some (Some (embedded_of (V4 dst4) sp dp len cks payload, class_of_icmp ty4)) \<and>
    parse_icmpv6_error (icmp_v6_quote ty6 rest hdr6 (udp_header sp dp len cks @ payload)) =
      Some (Some (embedded_of (V6 dst6) sp dp len cks payload, class_of_icmpv6 ty6)) \<and>
    parse_icmp_error packet \<noteq> None \<and> parse_icmpv6_error packet \<noteq> None"
  using parse_quote_v4 [OF assms(1-4)] parse_quote_v6 [OF assms(2,5,6)] icmp_parsers_total by blast

theorem icmp_parsers_read_the_quote_witness:
  "parse_icmp_error (icmp_v4_quote (replicate 20 0) 11 (replicate 7 0) sample_hdr_v4
      (udp_header 4000 5000 12 0xBEEF @ [1, 2, 3, 4])) =
    Some (Some (embedded_of (V4 0x0A000009) 4000 5000 12 0xBEEF [1, 2, 3, 4], class_of_icmp 11)) \<and>
   parse_icmpv6_error (icmp_v6_quote 1 (replicate 7 0) sample_hdr_v6
      (udp_header 4000 5000 12 0xBEEF @ [1, 2, 3, 4])) =
    Some (Some (embedded_of (V6 9) 4000 5000 12 0xBEEF [1, 2, 3, 4], class_of_icmpv6 1)) \<and>
   parse_icmp_error [11, 0] \<noteq> None \<and> parse_icmpv6_error [11, 0] \<noteq> None"
  by (rule icmp_parsers_read_the_quote [OF _ _ _ sample_hdr_v4_ok _ sample_hdr_v6_ok]) simp_all

end
