(* ===== verification/Icmp_Wiring.thy ===== *)
theory Icmp_Wiring
  imports Server_State Icmp_Listener
begin

text \<open>
  The two callbacks that \<open>server/src/main.rs\<close> installs: the one that turns a probe of the UDP
  layer into a message for the tracker, and the one that counts unmatched ICMP errors per
  session and closes a session after five of them in quick succession. The task that the
  second one spawns is one step on the server state.
\<close>

subsection \<open>The tracking callback\<close>

definition tracking_info :: "tracked_send \<Rightarrow> u8 \<Rightarrow> UdpPacketInfo" where
  "tracking_info a ttl_value =
     \<lparr>ui_dest_addr = ts_dest_addr a, ui_src_addr = ts_src_addr a,
      ui_udp_length = ts_udp_length a, ui_cleartext = ts_cleartext a,
      ui_send_options = \<lparr>ttl = Some ttl_value, df_bit = Some True, tos = None,
        flow_label = None, track_for_ms = 5000, bypass_dtls = False,
        bypass_sctp_fragmentation = False\<rparr>,
      ui_sent_at = ts_sent_at a, ui_conn_id = ts_conn_id a,
      ui_udp_checksum = ts_udp_checksum a\<rparr>"

definition tracking_callback :: "'s PacketTracker tracking_fn" where
  "tracking_callback a t =
     (case ts_ttl a of
        Some ttl_value \<Rightarrow> Some (tx_send (tracking_info a ttl_value) t)
      | None \<Rightarrow> Some t)"

subsection \<open>The callback for unmatched errors\<close>

definition peer_is :: "socket_addr \<Rightarrow> ClientSession \<Rightarrow> bool" where
  "peer_is dest_addr session =
     (case cs_peer_address session of
        Some (addr_str, port) \<Rightarrow>
          (case parse_ip addr_str of
             Some peer_ip \<Rightarrow> SocketAddr peer_ip port = dest_addr
           | None \<Rightarrow> False)
      | None \<Rightarrow> False)"

definition find_session :: "socket_addr \<Rightarrow> ServerState \<Rightarrow> (string \<times> ClientSession) option" where
  "find_session dest_addr s = find (\<lambda>(i, session). peer_is dest_addr session) (clients s)"

definition one_second :: nat where
  "one_second = ms 1000"

definition count_error :: "nat \<Rightarrow> ClientSession \<Rightarrow> u32 option" where
  "count_error now session =
     (case cs_last_icmp_error session of
        Some last_time \<Rightarrow>
          if now - last_time < one_second then add_checked (cs_icmp_error_count session) 1
          else Some 1
      | None \<Rightarrow> Some 1)"

definition main_icmp_error_callback :: "nat \<Rightarrow> ServerState icmp_error_callback" where
  "main_icmp_error_callback now e s =
     (case find_session (em_dest_addr e) s of
        None \<Rightarrow> Some s
      | Some (session_id, session) \<Rightarrow>
          do {
            count \<leftarrow> count_error now session;
            let s = update_client session_id
              (session\<lparr>cs_icmp_error_count := count, cs_last_icmp_error := Some now\<rparr>) s;
            if 5 \<le> count
            then Some ((remove_client session_id s)
                         \<lparr>closed_peers := closed_peers s @ [session_id]\<rparr>)
            else Some s
          })"

subsection \<open>Bursts of errors\<close>

text \<open>A burst: five errors in a row, each less than a second after the one before.\<close>

definition quick :: "nat list \<Rightarrow> bool list" where
  "quick ts = map (\<lambda>(a, b). b - a < one_second) (zip ts (tl ts))"

definition four_in_row :: "bool list \<Rightarrow> bool" where
  "four_in_row bs \<longleftrightarrow> (\<exists>i. i + 4 \<le> length bs \<and> (\<forall>j < 4. bs ! (i + j)))"

definition burst :: "nat list \<Rightarrow> bool" where
  "burst ts \<longleftrightarrow> four_in_row (quick ts)"

fun icmp_errors :: "nat list \<Rightarrow> EmbeddedUdpInfo \<Rightarrow> ServerState \<Rightarrow> ServerState option" where
  "icmp_errors [] e s = Some s"
| "icmp_errors (t # ts) e s = do { s' \<leftarrow> main_icmp_error_callback t e s; icmp_errors ts e s' }"

lemma quick_Cons2 [simp]: "quick (a # b # ts) = (b - a < one_second) # quick (b # ts)"
  by (simp add: quick_def)

lemma quick_single [simp]: "quick [a] = []" "quick [] = []"
  by (simp_all add: quick_def)

lemma four_in_row_short [simp]: "length bs < 4 \<Longrightarrow> \<not> four_in_row bs"
  by (auto simp: four_in_row_def)

lemma four_in_row_prefix: "four_in_row (replicate 4 True @ bs)"
  unfolding four_in_row_def by (intro exI [of _ 0]) (simp add: nth_append)

lemma four_in_row_reset:
  assumes "n < 4"
  shows "four_in_row (replicate n True @ False # bs) \<longleftrightarrow> four_in_row bs"
proof
  assume "four_in_row (replicate n True @ False # bs)"
  then obtain i where i: "i + 4 \<le> n + 1 + length bs"
    and all: "\<forall>j < 4. (replicate n True @ False # bs) ! (i + j)"
    by (auto simp: four_in_row_def)
  have "\<not> i \<le> n"
  proof
    assume "i \<le> n"
    have "n - i < 4" using assms by simp
    with all have "(replicate n True @ False # bs) ! (i + (n - i))" by blast
    with \<open>i \<le> n\<close> show False by (simp add: nth_append)
  qed
  then obtain k where k: "i = n + 1 + k" using less_iff_Suc_add [of n i] by auto
  with all have "\<forall>j < 4. bs ! (k + j)" by (auto simp: nth_append)
  with i k show "four_in_row bs" unfolding four_in_row_def by (intro exI [of _ k]) simp
next
  assume "four_in_row bs"
  then obtain i where "i + 4 \<le> length bs" "\<forall>j < 4. bs ! (i + j)" by (auto simp: four_in_row_def)
  then show "four_in_row (replicate n True @ False # bs)"
    unfolding four_in_row_def by (intro exI [of _ "n + 1 + i"]) (simp add: nth_append)
qed

text \<open>The one session that an error's destination belongs to.\<close>

definition sole_peer :: "string \<Rightarrow> socket_addr \<Rightarrow> ServerState \<Rightarrow> bool" where
  "sole_peer i a s \<longleftrightarrow> (\<forall>(k, c) \<in> set (clients s). peer_is a c \<longrightarrow> k = i)"

lemma find_session_sole:
  assumes "state_ok s" and "sole_peer i a s" and "map_of (clients s) i = Some c" and "peer_is a c"
  shows "find_session a s = Some (i, c)"
proof -
  have mem: "(i, c) \<in> set (clients s)" using assms(3) by (rule map_of_SomeD)
  show ?thesis
  proof (cases "find_session a s")
    case None
    with mem assms(4) show ?thesis by (auto simp: find_session_def find_None_iff)
  next
    case (Some kc)
    then obtain k d where kd: "find_session a s = Some (k, d)" by (cases kc) auto
    then have "(k, d) \<in> set (clients s)" "peer_is a d"
      by (auto simp: find_session_def find_Some_iff in_set_conv_nth)
    with assms(1,2) mem have "k = i" "d = c"
      by (auto simp: sole_peer_def state_ok_def client_ids_def dest: eq_key_imp_eq_value)
    with kd show ?thesis by simp
  qed
qed

lemma find_session_none:
  assumes "sole_peer i a s" and "map_of (clients s) i = None"
  shows "find_session a s = None"
  using assms by (auto simp: find_session_def find_None_iff sole_peer_def map_of_eq_None_iff
      image_iff case_prod_beta')

definition watched :: "string \<Rightarrow> socket_addr \<Rightarrow> nat \<Rightarrow> nat option \<Rightarrow> ServerState \<Rightarrow> bool" where
  "watched i a n prev s \<longleftrightarrow>
     state_ok s \<and> sole_peer i a s \<and>
     (\<exists>c. map_of (clients s) i = Some c \<and> peer_is a c \<and> cs_icmp_error_count c = of_nat n \<and>
          cs_last_icmp_error c = prev)"

definition gone :: "string \<Rightarrow> socket_addr \<Rightarrow> ServerState \<Rightarrow> bool" where
  "gone i a s \<longleftrightarrow> sole_peer i a s \<and> map_of (clients s) i = None"

definition others_same :: "string \<Rightarrow> ServerState \<Rightarrow> ServerState \<Rightarrow> bool" where
  "others_same i s s' \<longleftrightarrow> (\<forall>j. j \<noteq> i \<longrightarrow> map_of (clients s') j = map_of (clients s) j)"

text \<open>The count that an error leaves, from the time of the last one.\<close>

definition next_count :: "nat \<Rightarrow> nat option \<Rightarrow> nat \<Rightarrow> nat" where
  "next_count now prev n =
     (case prev of Some t0 \<Rightarrow> if now - t0 < one_second then n + 1 else 1 | None \<Rightarrow> 1)"

lemma count_error_next:
  assumes "cs_icmp_error_count c = of_nat n" and "n \<le> 4"
  shows "count_error now c = Some (of_nat (next_count now (cs_last_icmp_error c) n))"
proof -
  have "unat (of_nat n :: u32) = n" using assms(2) by (intro unat_of_nat_small) simp
  then show ?thesis
    using assms by (auto simp: count_error_def next_count_def add_checked_def split: option.splits)
qed

lemma sole_peer_update:
  "sole_peer i a s \<Longrightarrow> sole_peer i a (update_client i c s)"
  by (auto simp: sole_peer_def update_client_def split: if_splits)

lemma sole_peer_remove: "sole_peer i a s \<Longrightarrow> sole_peer i a (remove_client i s)"
  by (auto simp: sole_peer_def remove_client_def)

lemma callback_watched:
  fixes now :: nat
  assumes w: "watched i (em_dest_addr e) n prev s" and n: "n \<le> 4"
  defines "m \<equiv> next_count now prev n"
  shows "\<exists>s'. main_icmp_error_callback now e s = Some s' \<and> others_same i s s' \<and>
    (if 5 \<le> m then gone i (em_dest_addr e) s' \<and> closed_peers s' = closed_peers s @ [i]
     else watched i (em_dest_addr e) m (Some now) s' \<and> closed_peers s' = closed_peers s)"
proof -
  from w obtain c where c: "map_of (clients s) i = Some c" "peer_is (em_dest_addr e) c"
      "cs_icmp_error_count c = of_nat n" "cs_last_icmp_error c = prev"
    and ok: "state_ok s" "sole_peer i (em_dest_addr e) s"
    by (auto simp: watched_def)
  from find_session_sole [OF ok c(1,2)] have f: "find_session (em_dest_addr e) s = Some (i, c)" .
  have cnt: "count_error now c = Some (of_nat m)"
    using count_error_next [OF c(3) n, of now] c(4) by (simp add: m_def)
  have "m \<le> 5" using n by (auto simp: m_def next_count_def split: option.splits)
  then have five: "(5 :: u32) \<le> of_nat m \<longleftrightarrow> 5 \<le> m"
    by (simp add: word_le_nat_alt unat_of_nat_small)
  let ?u = "update_client i (c\<lparr>cs_icmp_error_count := of_nat m, cs_last_icmp_error := Some now\<rparr>) s"
  have cb: "main_icmp_error_callback now e s =
    Some (if 5 \<le> m then (remove_client i ?u)\<lparr>closed_peers := closed_peers ?u @ [i]\<rparr> else ?u)"
    using five by (simp add: main_icmp_error_callback_def f cnt Let_def)
  have same: "closed_peers ?u = closed_peers s" by (simp add: update_client_def)
  show ?thesis
  proof (cases "5 \<le> m")
    case True
    have "gone i (em_dest_addr e) ((remove_client i ?u)\<lparr>closed_peers := closed_peers ?u @ [i]\<rparr>)"
      using sole_peer_remove [OF sole_peer_update [OF ok(2)]]
      by (simp add: gone_def sole_peer_def)
    with True cb same show ?thesis by (simp add: others_same_def)
  next
    case False
    have "peer_is (em_dest_addr e) (c\<lparr>cs_icmp_error_count := k, cs_last_icmp_error := l\<rparr>)" for k l
      using c(2) by (simp add: peer_is_def)
    with False cb same ok c(1) show ?thesis
      by (simp add: others_same_def watched_def sole_peer_update)
  qed
qed

lemma icmp_errors_gone:
  assumes "gone i (em_dest_addr e) s"
  shows "icmp_errors ts e s = Some s"
proof (induction ts)
  case (Cons t ts)
  have "find_session (em_dest_addr e) s = None"
    using assms find_session_none [of i "em_dest_addr e" s] by (simp add: gone_def)
  with Cons show ?case by (simp add: main_icmp_error_callback_def)
qed simp

lemma icmp_errors_watched:
  assumes "watched i (em_dest_addr e) n (Some t0) s" and "1 \<le> n" and "n \<le> 4"
  shows "\<exists>s'. icmp_errors ts e s = Some s' \<and> others_same i s s' \<and>
    (map_of (clients s') i = None \<longleftrightarrow> four_in_row (replicate (n - 1) True @ quick (t0 # ts))) \<and>
    closed_peers s' = closed_peers s @
      (if four_in_row (replicate (n - 1) True @ quick (t0 # ts)) then [i] else [])"
  using assms
proof (induction ts arbitrary: n t0 s)
  case Nil
  then show ?case by (auto simp: others_same_def watched_def)
next
  case (Cons t ts)
  let ?m = "next_count t (Some t0) n"
  let ?row = "four_in_row (replicate (n - 1) True @ quick (t0 # t # ts))"
  from callback_watched [OF Cons.prems(1,3), of t] obtain s1 where
    cb: "main_icmp_error_callback t e s = Some s1" and same: "others_same i s s1" and
    step: "if 5 \<le> ?m then gone i (em_dest_addr e) s1 \<and> closed_peers s1 = closed_peers s @ [i]
      else watched i (em_dest_addr e) ?m (Some t) s1 \<and> closed_peers s1 = closed_peers s"
    by blast
  have grow: "replicate (n - 1) True @ True # bs = replicate n True @ bs" for bs
    using Cons.prems(2) replicate_app_Cons_same [of "n - 1" True bs] by (cases n) simp_all
  show ?case
  proof (cases "5 \<le> ?m")
    case True
    then have "n = 4" and "t - t0 < one_second"
      using Cons.prems(3) by (auto simp: next_count_def split: if_splits)
    have "quick (t0 # t # ts) = True # quick (t # ts)" using \<open>t - t0 < one_second\<close> by simp
    then have "replicate (n - 1) True @ quick (t0 # t # ts) = replicate n True @ quick (t # ts)"
      by (simp only: grow)
    then have ?row using four_in_row_prefix [of "quick (t # ts)"] \<open>n = 4\<close> by (simp only:)
    with True step cb same show ?thesis by (auto simp: icmp_errors_gone gone_def)
  next
    case False
    have m: "1 \<le> ?m" "?m \<le> 4" using False by (auto simp: next_count_def)
    have "four_in_row (replicate (?m - 1) True @ quick (t # ts)) \<longleftrightarrow> ?row"
    proof (cases "t - t0 < one_second")
      case True
      then show ?thesis by (simp add: next_count_def grow [unfolded One_nat_def])
    next
      case False
      then show ?thesis using Cons.prems(3) by (simp add: next_count_def four_in_row_reset)
    qed
    with Cons.IH [OF _ m, of t s1] step False cb same show ?thesis
      by (auto simp: others_same_def)
  qed
qed

text \<open>
  C4. Five unmatched errors in a row for the peer of a session, each less than a second
  after the one before, and nothing less, close it: from a session without errors, over every
  sequence of error times the handler never panics, removes the session exactly when the
  sequence contains such a burst, closes its peer connection exactly once, and leaves every
  other session alone.
\<close>

theorem icmp_burst_closes_session:
  assumes "state_ok s" and "sole_peer i (em_dest_addr e) s"
    and "map_of (clients s) i = Some c" and "peer_is (em_dest_addr e) c"
    and "cs_last_icmp_error c = None" and "cs_icmp_error_count c = 0"
  shows "\<exists>s'. icmp_errors ts e s = Some s' \<and>
    (map_of (clients s') i = None \<longleftrightarrow> burst ts) \<and>
    closed_peers s' = closed_peers s @ (if burst ts then [i] else []) \<and>
    (\<forall>j. j \<noteq> i \<longrightarrow> map_of (clients s') j = map_of (clients s) j)"
proof (cases ts)
  case Nil
  with assms show ?thesis by (simp add: burst_def)
next
  case (Cons t us)
  have "watched i (em_dest_addr e) 0 None s" using assms by (simp add: watched_def)
  from callback_watched [OF this, of t] obtain s1 where
    cb: "main_icmp_error_callback t e s = Some s1" "others_same i s s1"
      "watched i (em_dest_addr e) 1 (Some t) s1" "closed_peers s1 = closed_peers s"
    by (auto simp: next_count_def)
  from icmp_errors_watched [OF this(3), of us] cb Cons show ?thesis
    by (auto simp: burst_def others_same_def)
qed

definition sample_session :: ClientSession where
  "sample_session = \<lparr>cs_id = ''s1'', cs_parent_id = None, cs_ip_version = None, cs_mode = None,
     cs_conn_id = ''conn-a'', cs_ice_candidates = [], cs_peer_address = Some (''10.0.0.9'', 5000),
     cs_icmp_error_count = 0, cs_last_icmp_error = None\<rparr>"

definition sample_state :: ServerState where
  "sample_state = \<lparr>clients = [(''s1'', sample_session)], closed_peers = []\<rparr>"

lemma parse_ip_sample: "parse_ip ''10.0.0.9'' = Some (V4 0x0A000009)"
  by (simp add: parse_ip_def read_ipv4_addr_def read_separator_def read_octet_def read_number_def
      digit_val_def read_given_char_def)

theorem icmp_burst_closes_session_witness:
  "\<exists>s'. icmp_errors [0, 100, 200, 300, 400] sample_embedded sample_state = Some s' \<and>
    map_of (clients s') ''s1'' = None \<and> closed_peers s' = [''s1'']"
proof -
  have "quick [0, 100, 200, 300, 400] = [True, True, True, True]"
    by (simp add: one_second_def ms_def)
  also have "\<dots> = replicate 4 True @ []" by code_simp
  finally have b: "burst [0, 100, 200, 300, 400]"
    unfolding burst_def using four_in_row_prefix [of "[]"] by presburger
  have "state_ok sample_state" "sole_peer ''s1'' (em_dest_addr sample_embedded) sample_state"
    "map_of (clients sample_state) ''s1'' = Some sample_session"
    "peer_is (em_dest_addr sample_embedded) sample_session"
    "cs_last_icmp_error sample_session = None" "cs_icmp_error_count sample_session = 0"
    by (simp_all add: state_ok_def client_ids_def sole_peer_def sample_state_def peer_is_def
        sample_session_def sample_embedded_def parse_ip_sample)
  from icmp_burst_closes_session [OF this, of "[0, 100, 200, 300, 400]"] b
  show ?thesis by (auto simp: sample_state_def)
qed

end
