(* ===== verification/Packet_Capture.thy ===== *)
theory Packet_Capture
  imports Rust_Net Interfaces Wire_Format
begin

text \<open>
  \<open>server/src/packet_capture.rs\<close>: the ring buffer of captured packets, the registry that maps
  client addresses to survey sessions, the parsers that find a packet's session, and the
  PCAP writer. The capture loop itself calls libpcap and is not modelled.
\<close>

subsection \<open>Data\<close>

record CapturedPacket =
  ts_sec :: i64
  ts_usec :: i64
  orig_len :: u32
  cp_data :: bytes
  cp_session :: "string option"

record CaptureConfig =
  max_packets :: nat
  snaplen :: i32
  capture_interface :: string
  capture_enabled :: bool
  promiscuous :: bool

definition default_capture_config :: CaptureConfig where
  "default_capture_config = \<lparr>max_packets = 10000, snaplen = 65535, capture_interface = [],
     capture_enabled = False, promiscuous = True\<rparr>"

record PacketRingBuffer =
  rb_config :: CaptureConfig
  rb_packets :: "CapturedPacket list"
  write_pos :: nat
  total_captured :: u64
  rb_datalink :: i32

record CaptureStats =
  st_packets_in_buffer :: nat
  st_max_packets :: nat
  st_total_captured :: u64
  st_snaplen :: u32

subsection \<open>The ring buffer\<close>

definition new_ring :: "CaptureConfig \<Rightarrow> PacketRingBuffer" where
  "new_ring config = \<lparr>rb_config = config, rb_packets = [], write_pos = 0, total_captured = 0,
     rb_datalink = 1\<rparr>"

definition set_datalink :: "i32 \<Rightarrow> PacketRingBuffer \<Rightarrow> PacketRingBuffer" where
  "set_datalink dl r = r\<lparr>rb_datalink := dl\<rparr>"

definition ring_add_packet :: "CapturedPacket \<Rightarrow> PacketRingBuffer \<Rightarrow> PacketRingBuffer option" where
  "ring_add_packet packet r =
     (let cap = max_packets (rb_config r)
      in do {
        packets \<leftarrow> (if length (rb_packets r) < cap then Some (rb_packets r @ [packet])
                    else set_idx (rb_packets r) (write_pos r) packet);
        pos \<leftarrow> umod_checked (write_pos r + 1) cap;
        total \<leftarrow> add_checked (total_captured r) 1;
        Some (r\<lparr>rb_packets := packets, write_pos := pos, total_captured := total\<rparr>)
      })"

definition ring_get_packets :: "PacketRingBuffer \<Rightarrow> CapturedPacket list option" where
  "ring_get_packets r =
     (if length (rb_packets r) < max_packets (rb_config r) then Some (rb_packets r)
      else do {
        a \<leftarrow> slice (rb_packets r) (write_pos r) (length (rb_packets r));
        b \<leftarrow> slice (rb_packets r) 0 (write_pos r);
        Some (a @ b)
      })"

definition ring_get_packets_for_session ::
  "string \<Rightarrow> PacketRingBuffer \<Rightarrow> CapturedPacket list option" where
  "ring_get_packets_for_session survey_session_id r =
     do {
       all_packets \<leftarrow> ring_get_packets r;
       Some (filter (\<lambda>p. cp_session p = Some survey_session_id) all_packets)
     }"

definition ring_stats :: "PacketRingBuffer \<Rightarrow> CaptureStats" where
  "ring_stats r = \<lparr>st_packets_in_buffer = length (rb_packets r),
     st_max_packets = max_packets (rb_config r), st_total_captured = total_captured r,
     st_snaplen = snaplen (rb_config r)\<rparr>"

definition ring_clear :: "PacketRingBuffer \<Rightarrow> PacketRingBuffer" where
  "ring_clear r = r\<lparr>rb_packets := [], write_pos := 0\<rparr>"

subsection \<open>The session registry\<close>

record SessionRegistry =
  address_to_session :: "socket_addr \<rightharpoonup> string"
  server_port_to_session :: "u16 \<rightharpoonup> string list"
  registered_session_ids :: "string set"

definition new_registry :: SessionRegistry where
  "new_registry = \<lparr>address_to_session = Map.empty, server_port_to_session = Map.empty,
     registered_session_ids = {}\<rparr>"

definition register :: "socket_addr \<Rightarrow> u16 \<Rightarrow> string \<Rightarrow> SessionRegistry \<Rightarrow> SessionRegistry" where
  "register client_addr server_port survey_session_id g =
     (let g = g\<lparr>address_to_session := (address_to_session g)(client_addr \<mapsto> survey_session_id),
                registered_session_ids := insert survey_session_id (registered_session_ids g)\<rparr>
      in if 0 < server_port
         then g\<lparr>server_port_to_session := (server_port_to_session g)(server_port \<mapsto>
                (case server_port_to_session g server_port of Some v \<Rightarrow> v | None \<Rightarrow> [])
                  @ [survey_session_id])\<rparr>
         else g)"

definition unregister :: "socket_addr \<Rightarrow> SessionRegistry \<Rightarrow> SessionRegistry" where
  "unregister client_addr g = g\<lparr>address_to_session := (address_to_session g)(client_addr := None)\<rparr>"

definition registry_lookup :: "socket_addr \<Rightarrow> SessionRegistry \<Rightarrow> string option" where
  "registry_lookup addr g = address_to_session g addr"

definition lookup_by_either :: "socket_addr \<Rightarrow> socket_addr \<Rightarrow> SessionRegistry \<Rightarrow> string option" where
  "lookup_by_either src dst g =
     (case address_to_session g src of Some i \<Rightarrow> Some i | None \<Rightarrow> address_to_session g dst)"

definition lookup_by_server_port :: "u16 \<Rightarrow> SessionRegistry \<Rightarrow> string option" where
  "lookup_by_server_port port g =
     (case server_port_to_session g port of
        Some (v # _) \<Rightarrow> Some v
      | _ \<Rightarrow> None)"

definition has_session :: "string \<Rightarrow> SessionRegistry \<Rightarrow> bool" where
  "has_session survey_session_id g \<longleftrightarrow> survey_session_id \<in> registered_session_ids g"

subsection \<open>Reading addresses from a packet\<close>

text \<open>
  Every reader returns \<open>None\<close> for a panic (an index out of bounds) and otherwise the
  \<open>Option\<close> of the code. \<open>ip_start_of\<close> is the EtherType test that three of them share.
\<close>

definition get_v4 :: "bytes \<Rightarrow> nat \<Rightarrow> ip_addr option" where
  "get_v4 d i =
     do {
       a \<leftarrow> idx d i; b \<leftarrow> idx d (i + 1); c \<leftarrow> idx d (i + 2); e \<leftarrow> idx d (i + 3);
       Some (V4 (v4_of [a, b, c, e]))
     }"

definition get_v6 :: "bytes \<Rightarrow> nat \<Rightarrow> ip_addr option" where
  "get_v6 d i = do { bs \<leftarrow> slice d i (i + 16); Some (V6 (v6_of bs)) }"

definition ip_start_of :: "bytes \<Rightarrow> nat option option" where
  "ip_start_of d =
     (if 14 \<le> length d then do {
        ethertype \<leftarrow> read_u16 d 12;
        if ethertype = 0x0800 \<or> ethertype = 0x86DD then Some (Some 14)
        else do {
          b \<leftarrow> idx d 0;
          Some (if drop_bit 4 b = 4 \<or> drop_bit 4 b = 6 then Some 0 else None)
        }
      } else Some (Some 0))"

definition parse_ipv4_udp_addresses ::
  "bytes \<Rightarrow> nat \<Rightarrow> (socket_addr \<times> socket_addr) option option" where
  "parse_ipv4_udp_addresses d ip_start =
     (if length d < ip_start + 20 then Some None
      else do {
        b \<leftarrow> idx d ip_start;
        ihl \<leftarrow> ihl_of b;
        protocol \<leftarrow> idx d (ip_start + 9);
        if protocol \<noteq> 17 \<and> protocol \<noteq> 1 then Some None
        else do {
          src_ip \<leftarrow> get_v4 d (ip_start + 12);
          dst_ip \<leftarrow> get_v4 d (ip_start + 16);
          let udp_start = ip_start + ihl;
          if length d < udp_start + 8 then
            Some (if protocol = 1 then Some (SocketAddr src_ip 0, SocketAddr dst_ip 0) else None)
          else if protocol = 1 then Some (Some (SocketAddr src_ip 0, SocketAddr dst_ip 0))
          else do {
            src_port \<leftarrow> read_u16 d udp_start;
            dst_port \<leftarrow> read_u16 d (udp_start + 2);
            Some (Some (SocketAddr src_ip src_port, SocketAddr dst_ip dst_port))
          }
        }
      })"

definition parse_ipv6_udp_addresses ::
  "bytes \<Rightarrow> nat \<Rightarrow> (socket_addr \<times> socket_addr) option option" where
  "parse_ipv6_udp_addresses d ip_start =
     (if length d < ip_start + 40 then Some None
      else do {
        next_header \<leftarrow> idx d (ip_start + 6);
        if next_header \<noteq> 17 \<and> next_header \<noteq> 58 then Some None
        else do {
          src_ip \<leftarrow> get_v6 d (ip_start + 8);
          dst_ip \<leftarrow> get_v6 d (ip_start + 24);
          let udp_start = ip_start + 40;
          if next_header = 58 then Some (Some (SocketAddr src_ip 0, SocketAddr dst_ip 0))
          else if length d < udp_start + 8 then Some None
          else do {
            src_port \<leftarrow> read_u16 d udp_start;
            dst_port \<leftarrow> read_u16 d (udp_start + 2);
            Some (Some (SocketAddr src_ip src_port, SocketAddr dst_ip dst_port))
          }
        }
      })"

definition parse_packet_addresses :: "bytes \<Rightarrow> (socket_addr \<times> socket_addr) option option" where
  "parse_packet_addresses d =
     (if length d < 42 then Some None
      else do {
        start \<leftarrow> ip_start_of d;
        (case start of
           None \<Rightarrow> Some None
         | Some ip_start \<Rightarrow>
             if length d \<le> ip_start then Some None
             else do {
               b \<leftarrow> idx d ip_start;
               let ip_version = drop_bit 4 b AND 0x0F;
               if ip_version = 4 then parse_ipv4_udp_addresses d ip_start
               else if ip_version = 6 then parse_ipv6_udp_addresses d ip_start
               else Some None
             })
      })"

definition is_icmp_error_packet :: "bytes \<Rightarrow> bool option" where
  "is_icmp_error_packet d =
     (if length d < 34 then Some False
      else do {
        start \<leftarrow> ip_start_of d;
        (case start of
           None \<Rightarrow> Some False
         | Some ip_start \<Rightarrow>
             if length d \<le> ip_start then Some False
             else do {
               b \<leftarrow> idx d ip_start;
               let ip_version = drop_bit 4 b AND 0x0F;
               if ip_version = 4 then
                 (if length d < ip_start + 21 then Some False
                  else do {
                    protocol \<leftarrow> idx d (ip_start + 9);
                    if protocol \<noteq> 1 then Some False
                    else do {
                      ihl \<leftarrow> ihl_of b;
                      if length d < ip_start + ihl + 1 then Some False
                      else do {
                        icmp_type \<leftarrow> idx d (ip_start + ihl);
                        Some (icmp_type \<in> {3, 11, 12})
                      }
                    }
                  })
               else if ip_version = 6 then
                 (if length d < ip_start + 41 then Some False
                  else do {
                    next_header \<leftarrow> idx d (ip_start + 6);
                    if next_header \<noteq> 58 then Some False
                    else do {
                      icmpv6_type \<leftarrow> idx d (ip_start + 40);
                      Some (icmpv6_type \<in> {1, 2, 3})
                    }
                  })
               else Some False
             })
      })"

definition extract_embedded_ipv4_destination :: "bytes \<Rightarrow> nat \<Rightarrow> socket_addr option option" where
  "extract_embedded_ipv4_destination d ip_start =
     do {
       b \<leftarrow> idx d ip_start;
       ihl \<leftarrow> ihl_of b;
       let embedded_ip_start = ip_start + ihl + 8;
       if length d < embedded_ip_start + 28 then Some None
       else do {
         c \<leftarrow> idx d embedded_ip_start;
         embedded_ihl \<leftarrow> ihl_of c;
         embedded_protocol \<leftarrow> idx d (embedded_ip_start + 9);
         if embedded_protocol \<noteq> 17 then Some None
         else do {
           dst_ip \<leftarrow> get_v4 d (embedded_ip_start + 16);
           let embedded_udp_start = embedded_ip_start + embedded_ihl;
           if length d < embedded_udp_start + 4 then Some None
           else do {
             dst_port \<leftarrow> read_u16 d (embedded_udp_start + 2);
             Some (Some (SocketAddr dst_ip dst_port))
           }
         }
       }
     }"

definition extract_embedded_ipv6_destination :: "bytes \<Rightarrow> nat \<Rightarrow> socket_addr option option" where
  "extract_embedded_ipv6_destination d ip_start =
     (let embedded_ip_start = ip_start + 40 + 8
      in if length d < embedded_ip_start + 48 then Some None
         else do {
           embedded_next_header \<leftarrow> idx d (embedded_ip_start + 6);
           if embedded_next_header \<noteq> 17 then Some None
           else do {
             dst_ip \<leftarrow> get_v6 d (embedded_ip_start + 24);
             let embedded_udp_start = embedded_ip_start + 40;
             if length d < embedded_udp_start + 4 then Some None
             else do {
               dst_port \<leftarrow> read_u16 d (embedded_udp_start + 2);
               Some (Some (SocketAddr dst_ip dst_port))
             }
           }
         })"

definition extract_embedded_destination :: "bytes \<Rightarrow> socket_addr option option" where
  "extract_embedded_destination d =
     do {
       start \<leftarrow> ip_start_of d;
       (case start of
          None \<Rightarrow> Some None
        | Some ip_start \<Rightarrow>
            do {
              b \<leftarrow> idx d ip_start;
              let ip_version = drop_bit 4 b AND 0x0F;
              if ip_version = 4 then extract_embedded_ipv4_destination d ip_start
              else if ip_version = 6 then extract_embedded_ipv6_destination d ip_start
              else Some None
            })
     }"

subsection \<open>The service\<close>

record PacketCaptureService =
  buffer :: PacketRingBuffer
  svc_config :: CaptureConfig
  session_registry :: SessionRegistry

definition new_service :: "CaptureConfig \<Rightarrow> PacketCaptureService" where
  "new_service config = \<lparr>buffer = new_ring config, svc_config = config,
     session_registry = new_registry\<rparr>"

definition register_session ::
  "socket_addr \<Rightarrow> u16 \<Rightarrow> string \<Rightarrow> PacketCaptureService \<Rightarrow> PacketCaptureService" where
  "register_session client_addr server_port survey_session_id v =
     v\<lparr>session_registry := register client_addr server_port survey_session_id (session_registry v)\<rparr>"

definition unregister_session :: "socket_addr \<Rightarrow> PacketCaptureService \<Rightarrow> PacketCaptureService" where
  "unregister_session client_addr v =
     v\<lparr>session_registry := unregister client_addr (session_registry v)\<rparr>"

definition extract_session_id_from_packet ::
  "bytes \<Rightarrow> SessionRegistry \<Rightarrow> string option option" where
  "extract_session_id_from_packet d registry =
     do {
       parsed \<leftarrow> parse_packet_addresses d;
       (case parsed of
          None \<Rightarrow> Some None
        | Some (src_addr, dst_addr) \<Rightarrow>
            (case lookup_by_either src_addr dst_addr registry of
               Some session_id \<Rightarrow> Some (Some session_id)
             | None \<Rightarrow>
                 do {
                   icmp \<leftarrow> is_icmp_error_packet d;
                   if icmp then do {
                     embedded \<leftarrow> extract_embedded_destination d;
                     Some (case embedded of
                        None \<Rightarrow> None
                      | Some embedded_dst \<Rightarrow>
                          (case lookup_by_server_port (sa_port embedded_dst) registry of
                             Some session_id \<Rightarrow> Some session_id
                           | None \<Rightarrow> registry_lookup embedded_dst registry))
                   } else Some None
                 }))
     }"

definition service_add_packet ::
  "i64 \<Rightarrow> i64 \<Rightarrow> u32 \<Rightarrow> bytes \<Rightarrow> PacketCaptureService \<Rightarrow> PacketCaptureService option" where
  "service_add_packet sec usec len d v =
     (if capture_enabled (svc_config v) then do {
        survey_session_id \<leftarrow> extract_session_id_from_packet d (session_registry v);
        r \<leftarrow> ring_add_packet \<lparr>ts_sec = sec, ts_usec = usec, orig_len = len, cp_data = d,
               cp_session = survey_session_id\<rparr> (buffer v);
        Some (v\<lparr>buffer := r\<rparr>)
      } else Some v)"

subsection \<open>The PCAP writer\<close>

definition pcap_record :: "CapturedPacket \<Rightarrow> bytes" where
  "pcap_record p =
     le_bytes 4 (unat (ucast (ts_sec p) :: u32)) @ le_bytes 4 (unat (ucast (ts_usec p) :: u32)) @
     le_bytes 4 (unat (of_nat (length (cp_data p)) :: u32)) @ le_bytes 4 (unat (orig_len p)) @
     cp_data p"

definition packets_to_pcap :: "CapturedPacket list \<Rightarrow> i32 \<Rightarrow> u32 \<Rightarrow> bytes" where
  "packets_to_pcap packets dl snap =
     le_bytes 4 0xa1b2c3d4 @ le_bytes 2 2 @ le_bytes 2 4 @ le_bytes 4 0 @ le_bytes 4 0 @
     le_bytes 4 (unat snap) @ le_bytes 4 (unat dl) @ concat (map pcap_record packets)"

definition generate_pcap :: "PacketCaptureService \<Rightarrow> bytes option" where
  "generate_pcap v =
     do {
       packets \<leftarrow> ring_get_packets (buffer v);
       Some (packets_to_pcap packets (rb_datalink (buffer v)) (snaplen (svc_config v)))
     }"

definition generate_pcap_for_session :: "string \<Rightarrow> PacketCaptureService \<Rightarrow> bytes option" where
  "generate_pcap_for_session survey_session_id v =
     do {
       packets \<leftarrow> ring_get_packets_for_session survey_session_id (buffer v);
       Some (packets_to_pcap packets (rb_datalink (buffer v)) (snaplen (svc_config v)))
     }"

subsection \<open>The ring keeps the newest packets\<close>

definition ring_ok :: "PacketRingBuffer \<Rightarrow> bool" where
  "ring_ok r \<longleftrightarrow>
     0 < max_packets (rb_config r) \<and> write_pos r < max_packets (rb_config r) \<and>
     length (rb_packets r) \<le> max_packets (rb_config r) \<and>
     (length (rb_packets r) < max_packets (rb_config r) \<longrightarrow> write_pos r = length (rb_packets r))"

definition ring_room :: "nat \<Rightarrow> PacketRingBuffer \<Rightarrow> bool" where
  "ring_room n r \<longleftrightarrow> unat (total_captured r) + n < 2 ^ 64"

lemma ring_get_packets_ok:
  "ring_ok r \<Longrightarrow> ring_get_packets r =
    Some (if length (rb_packets r) < max_packets (rb_config r) then rb_packets r
          else ring_order (write_pos r) (rb_packets r))"
  by (auto simp: ring_get_packets_def ring_ok_def slice_def ring_order_def)

interpretation ring: bounded_log "\<lambda>r. max_packets (rb_config r)" ring_ok ring_room
  ring_add_packet ring_get_packets
proof unfold_locales
  fix r :: PacketRingBuffer and n :: nat and xs :: "CapturedPacket list" and x :: CapturedPacket
  assume ok: "ring_ok r" and room: "ring_room (Suc n) r" and get: "ring_get_packets r = Some xs"
  let ?cap = "max_packets (rb_config r)"
  let ?ps = "if length (rb_packets r) < ?cap then rb_packets r @ [x] else (rb_packets r)[write_pos r := x]"
  let ?r = "r\<lparr>rb_packets := ?ps, write_pos := (write_pos r + 1) mod ?cap,
               total_captured := total_captured r + 1\<rparr>"
  have total: "add_checked (total_captured r) 1 = Some (total_captured r + 1)"
    using room by (simp add: add_checked_def ring_room_def)
  have add: "ring_add_packet x r = Some ?r"
    using ok total by (auto simp: ring_add_packet_def ring_ok_def umod_checked_def set_idx_def Let_def)
  have ok': "ring_ok ?r"
    using ok by (auto simp: ring_ok_def mod_Suc)
  have "unat (total_captured r + 1) = unat (total_captured r) + 1"
    using add_checked_Some [OF total] by simp
  then have "ring_room n ?r" using room by (simp add: ring_room_def)
  moreover have "ring_get_packets ?r = Some (lastn ?cap (xs @ [x]))"
  proof (cases "length (rb_packets r) < ?cap")
    case True
    with get ok have xs: "xs = rb_packets r" by (simp add: ring_get_packets_ok)
    with True ok' ok show ?thesis
      by (auto simp: ring_get_packets_ok ring_order_def ring_ok_def mod_Suc)
  next
    case False
    with ok have len: "length (rb_packets r) = ?cap" "write_pos r < length (rb_packets r)"
      by (auto simp: ring_ok_def)
    with False get ok have "xs = ring_order (write_pos r) (rb_packets r)"
      by (simp add: ring_get_packets_ok)
    with False ok' len ring_order_overwrite [OF len(2), of x] show ?thesis
      by (simp add: ring_get_packets_ok)
  qed
  ultimately show "\<exists>r'. ring_add_packet x r = Some r' \<and> ring_ok r' \<and>
      max_packets (rb_config r') = ?cap \<and> ring_room n r' \<and>
      ring_get_packets r' = Some (lastn ?cap (xs @ [x]))"
    using add ok' by auto
next
  fix r :: PacketRingBuffer
  assume "ring_ok r"
  then show "\<exists>xs. ring_get_packets r = Some xs \<and> length xs \<le> max_packets (rb_config r)"
    by (auto simp: ring_get_packets_ok ring_order_def ring_ok_def)
qed

subsection \<open>The parsers are total\<close>

lemma get_v4_Some [simp, panic_free]:
  "i + 3 < length d \<Longrightarrow>
    get_v4 d i = Some (V4 (v4_of [d ! i, d ! (i + 1), d ! (i + 2), d ! (i + 3)]))"
  by (simp add: get_v4_def)

lemma get_v6_Some [simp, panic_free]:
  "i + 16 \<le> length d \<Longrightarrow> get_v6 d i = Some (V6 (v6_of (take 16 (drop i d))))"
  by (simp add: get_v6_def slice_def)

lemma ip_start_of_cases:
  obtains (none) "ip_start_of d = Some None"
  | (raw) "ip_start_of d = Some (Some 0)"
  | (ether) "ip_start_of d = Some (Some 14)" and "14 \<le> length d"
proof (cases "14 \<le> length d")
  case True
  then have "idx d 0 = Some (d ! 0)" by (intro idx_Some) linarith
  with True have "ip_start_of d \<in> {Some None, Some (Some 0), Some (Some 14)}"
    by (simp add: ip_start_of_def)
  with True that show ?thesis by blast
qed (use that in \<open>simp add: ip_start_of_def\<close>)

lemma parse_ipv4_total [panic_free]: "parse_ipv4_udp_addresses d i \<noteq> None"
  by (cases "length d < i + 20") (simp_all add: parse_ipv4_udp_addresses_def Let_def)

lemma parse_ipv6_total [panic_free]: "parse_ipv6_udp_addresses d i \<noteq> None"
  by (cases "length d < i + 40") (simp_all add: parse_ipv6_udp_addresses_def Let_def)

lemma parse_packet_addresses_total [panic_free]: "parse_packet_addresses d \<noteq> None"
proof (cases "length d < 42")
  case False
  then have "d \<noteq> []" by auto
  with False parse_ipv4_total [of d] parse_ipv6_total [of d] show ?thesis
    by (cases rule: ip_start_of_cases [of d]) (simp_all add: parse_packet_addresses_def Let_def)
qed (simp add: parse_packet_addresses_def)

lemma is_icmp_error_total [panic_free]: "is_icmp_error_packet d \<noteq> None"
proof (cases "length d < 34")
  case False
  then have "d \<noteq> []" by auto
  with False show ?thesis
    by (cases rule: ip_start_of_cases [of d]) (auto simp: is_icmp_error_packet_def Let_def)
qed (simp add: is_icmp_error_packet_def)

lemma extract_embedded_total [panic_free]:
  assumes "34 \<le> length d"
  shows "extract_embedded_destination d \<noteq> None"
proof -
  from assms have "d \<noteq> []" by auto
  have v4: "extract_embedded_ipv4_destination d i \<noteq> None" if "i < length d" for i
    using that by (simp add: extract_embedded_ipv4_destination_def Let_def)
  have v6: "extract_embedded_ipv6_destination d i \<noteq> None" for i
    by (cases "length d < i + 96") (simp_all add: extract_embedded_ipv6_destination_def Let_def)
  show ?thesis
    using assms \<open>d \<noteq> []\<close> v4 v6
    by (cases rule: ip_start_of_cases [of d]) (simp_all add: extract_embedded_destination_def Let_def)
qed

lemma extract_session_total [panic_free]: "extract_session_id_from_packet d g \<noteq> None"
proof -
  obtain parsed where p: "parse_packet_addresses d = Some parsed"
    using parse_packet_addresses_total [of d] by auto
  obtain icmp where ic: "is_icmp_error_packet d = Some icmp"
    using is_icmp_error_total [of d] by auto
  show ?thesis
  proof (cases "length d < 34")
    case True
    then have "icmp = False" using ic by (simp add: is_icmp_error_packet_def)
    with p ic show ?thesis
      by (simp add: extract_session_id_from_packet_def split: option.splits prod.splits)
  next
    case False
    then obtain e where "extract_embedded_destination d = Some e"
      using extract_embedded_total [of d] by auto
    with p ic show ?thesis
      by (simp add: extract_session_id_from_packet_def split: option.splits prod.splits)
  qed
qed

subsection \<open>Capturing\<close>

text \<open>The tag of a packet, and the record that the ring stores for it.\<close>

definition session_tag :: "SessionRegistry \<Rightarrow> bytes \<Rightarrow> string option" where
  "session_tag g d = (case extract_session_id_from_packet d g of Some t \<Rightarrow> t | None \<Rightarrow> None)"

type_synonym wire_packet = "i64 \<times> i64 \<times> u32 \<times> bytes"

definition stored :: "SessionRegistry \<Rightarrow> wire_packet \<Rightarrow> CapturedPacket" where
  "stored g = (\<lambda>(sec, usec, len, d). \<lparr>ts_sec = sec, ts_usec = usec, orig_len = len, cp_data = d,
     cp_session = session_tag g d\<rparr>)"

fun capture_all :: "wire_packet list \<Rightarrow> PacketCaptureService \<Rightarrow> PacketCaptureService option" where
  "capture_all [] v = Some v"
| "capture_all ((sec, usec, len, d) # ps) v =
     do { v' \<leftarrow> service_add_packet sec usec len d v; capture_all ps v' }"

lemma service_add_packet_enabled:
  "capture_enabled (svc_config v) \<Longrightarrow>
    service_add_packet sec usec len d v =
      do {
        r \<leftarrow> ring_add_packet (stored (session_registry v) (sec, usec, len, d)) (buffer v);
        Some (v\<lparr>buffer := r\<rparr>)
      }"
  using extract_session_total [of d "session_registry v"]
  by (auto simp: service_add_packet_def stored_def session_tag_def)

lemma capture_all_ring:
  assumes "capture_enabled (svc_config v)"
  shows "capture_all ps v =
    do { r \<leftarrow> ring.add_all (map (stored (session_registry v)) ps) (buffer v); Some (v\<lparr>buffer := r\<rparr>) }"
  using assms
proof (induction ps arbitrary: v)
  case (Cons p ps)
  obtain sec usec len d where p: "p = (sec, usec, len, d)" by (cases p) auto
  from Cons show ?case
    by (cases "ring_add_packet (stored (session_registry v) p) (buffer v)")
      (simp_all add: p service_add_packet_enabled)
qed simp

lemma new_ring_ok: "0 < max_packets config \<Longrightarrow> ring_ok (new_ring config)"
  by (simp add: ring_ok_def new_ring_def)

lemma ring_get_new: "0 < max_packets config \<Longrightarrow> ring_get_packets (new_ring config) = Some []"
  by (simp add: ring_get_packets_def new_ring_def)

lemma ring_room_new: "ring_room n (new_ring config) \<longleftrightarrow> n < 2 ^ 64"
  by (simp add: ring_room_def new_ring_def)



subsection \<open>Tagging\<close>

text \<open>An Ethernet frame: 12 bytes of MAC addresses, the EtherType, the IP packet.\<close>

definition ethernet :: "bytes \<Rightarrow> bytes \<Rightarrow> bytes \<Rightarrow> bytes" where
  "ethernet macs ethertype ip = macs @ ethertype @ ip"

lemma ethernet_nth:
  assumes "length macs = 12" and "length ty = 2"
  shows "ethernet macs ty ip ! 12 = ty ! 0" "ethernet macs ty ip ! 13 = ty ! 1"
    "ethernet macs ty ip ! (14 + i) = ip ! i" "length (ethernet macs ty ip) = 14 + length ip"
    "drop (14 + i) (ethernet macs ty ip) = drop i ip"
  using assms by (simp_all add: ethernet_def nth_append)

lemma ip_start_ethernet:
  assumes "length macs = 12" and "ty = [0x08, 0x00] \<or> ty = [0x86, 0xDD]"
  shows "ip_start_of (ethernet macs ty ip) = Some (Some 14)"
proof -
  have "u16_be 0x08 0x00 = 0x0800" "u16_be 0x86 0xDD = 0x86DD" by (simp_all add: u16_be_def be_nat_pair)
  moreover have "length ty = 2" using assms(2) by auto
  ultimately show ?thesis
    using assms ethernet_nth(1,2,4) [of macs ty ip] by (auto simp: ip_start_of_def)
qed

lemma parse_ipv4_frame:
  assumes "length macs = 12" and h: "ipv4_header 17 src dst hdr"
  shows "parse_packet_addresses
      (ethernet macs [0x08, 0x00] (hdr @ udp_header sp dp len cks @ payload)) =
    Some (Some (SocketAddr (V4 src) sp, SocketAddr (V4 dst) dp))" (is ?addresses)
    and "is_icmp_error_packet
      (ethernet macs [0x08, 0x00] (hdr @ udp_header sp dp len cks @ payload)) = Some False" (is ?icmp)
proof -
  note f = ipv4_header_fields [OF h]
  let ?ip = "hdr @ udp_header sp dp len cks @ payload"
  let ?d = "ethernet macs [0x08, 0x00] ?ip"
  have len: "length ?d = 14 + length ?ip"
    using ethernet_nth(4) [OF assms(1), of "[0x08, 0x00]"] by simp
  have n: "?d ! (14 + i) = hdr ! i" if "i < length hdr" for i
    using ethernet_nth(3) [OF assms(1), of "[0x08, 0x00]"] that by (simp add: nth_append)
  have b: "?d ! 14 = hdr ! 0" "?d ! 23 = 17" "?d ! 26 = hdr ! 12" "?d ! 27 = hdr ! 13"
      "?d ! 28 = hdr ! 14" "?d ! 29 = hdr ! 15" "?d ! 30 = hdr ! 16" "?d ! 31 = hdr ! 17"
      "?d ! 32 = hdr ! 18" "?d ! 33 = hdr ! 19"
    using n [of 0] n [of 9] n [of 12] n [of 13] n [of 14] n [of 15] n [of 16] n [of 17] n [of 18]
      n [of 19] f by simp_all
  have u: "?d ! (14 + (length hdr + i)) = udp_header sp dp len cks ! i" if "i < 8" for i
    using ethernet_nth(3) [OF assms(1), of "[0x08, 0x00]" ?ip] that by (simp add: nth_append)
  have "parse_ipv4_udp_addresses ?d 14 = Some (Some (SocketAddr (V4 src) sp, SocketAddr (V4 dst) dp))"
    using len b u [of 0] u [of 1] u [of 2] u [of 3] f udp_header_nth(1,2) [of sp dp len cks]
    by (simp add: parse_ipv4_udp_addresses_def add.assoc)
  then show ?addresses
    using len b f(1-3) ip_start_ethernet [OF assms(1), of "[0x08, 0x00]" ?ip]
    by (simp add: parse_packet_addresses_def)
  show ?icmp
    using len b f(1-3) ip_start_ethernet [OF assms(1), of "[0x08, 0x00]" ?ip]
    by (simp add: is_icmp_error_packet_def)
qed

lemma parse_ipv6_frame:
  assumes "length macs = 12" and h: "ipv6_header 17 src dst hdr"
  shows "parse_packet_addresses
      (ethernet macs [0x86, 0xDD] (hdr @ udp_header sp dp len cks @ payload)) =
    Some (Some (SocketAddr (V6 src) sp, SocketAddr (V6 dst) dp))" (is ?addresses)
    and "is_icmp_error_packet
      (ethernet macs [0x86, 0xDD] (hdr @ udp_header sp dp len cks @ payload)) = Some False" (is ?icmp)
proof -
  note f = ipv6_header_fields [OF h]
  let ?ip = "hdr @ udp_header sp dp len cks @ payload"
  let ?d = "ethernet macs [0x86, 0xDD] ?ip"
  have len: "length ?d = 14 + length ?ip"
    using ethernet_nth(4) [OF assms(1), of "[0x86, 0xDD]"] by simp
  have n: "?d ! (14 + i) = hdr ! i" if "i < length hdr" for i
    using ethernet_nth(3) [OF assms(1), of "[0x86, 0xDD]"] that by (simp add: nth_append)
  have b: "?d ! 14 = hdr ! 0" "?d ! 20 = 17" using n [of 0] n [of 6] f by simp_all
  have a: "take 16 (drop 22 ?d) = take 16 (drop 8 hdr)" "take 16 (drop 38 ?d) = take 16 (drop 24 hdr)"
    using ethernet_nth(5) [OF assms(1), of "[0x86, 0xDD]" 8] f(1)
      ethernet_nth(5) [OF assms(1), of "[0x86, 0xDD]" 24] by simp_all
  have u: "?d ! (54 + i) = udp_header sp dp len cks ! i" if "i < 8" for i
    using ethernet_nth(3) [OF assms(1), of "[0x86, 0xDD]" ?ip "40 + i"] that f(1)
    by (simp add: nth_append)
  have "parse_ipv6_udp_addresses ?d 14 = Some (Some (SocketAddr (V6 src) sp, SocketAddr (V6 dst) dp))"
    using len b a u [of 0] u [of 1] u [of 2] u [of 3] f udp_header_nth(1,2) [of sp dp len cks]
    by (simp add: parse_ipv6_udp_addresses_def)
  then show ?addresses
    using len b f(1-3) ip_start_ethernet [OF assms(1), of "[0x86, 0xDD]" ?ip]
    by (simp add: parse_packet_addresses_def)
  show ?icmp
    using len b f(1-3) ip_start_ethernet [OF assms(1), of "[0x86, 0xDD]" ?ip]
    by (simp add: is_icmp_error_packet_def)
qed

text \<open>A UDP frame between two addresses, over either version of IP.\<close>

definition udp_frame :: "bytes \<Rightarrow> socket_addr \<Rightarrow> socket_addr \<Rightarrow> bool" where
  "udp_frame d src dst \<longleftrightarrow>
     (\<exists>macs hdr len cks payload. length macs = 12 \<and>
        (case (sa_ip src, sa_ip dst) of
           (V4 a, V4 b) \<Rightarrow> ipv4_header 17 a b hdr \<and>
             d = ethernet macs [0x08, 0x00] (hdr @ udp_header (sa_port src) (sa_port dst) len cks @ payload)
         | (V6 a, V6 b) \<Rightarrow> ipv6_header 17 a b hdr \<and>
             d = ethernet macs [0x86, 0xDD] (hdr @ udp_header (sa_port src) (sa_port dst) len cks @ payload)
         | _ \<Rightarrow> False))"

lemma parse_udp_frame:
  assumes "udp_frame d src dst"
  shows "parse_packet_addresses d = Some (Some (src, dst))" and "is_icmp_error_packet d = Some False"
  using assms
  by (cases src; cases dst; cases "sa_ip src"; cases "sa_ip dst";
      auto simp: udp_frame_def parse_ipv4_frame parse_ipv6_frame)+

lemma session_tag_udp_frame:
  assumes "udp_frame d src dst" and "lookup_by_either src dst g = Some i"
  shows "session_tag g d = Some i"
  using assms by (simp add: session_tag_def extract_session_id_from_packet_def parse_udp_frame)


definition sample_frame :: bytes where
  "sample_frame = ethernet (replicate 12 0) [0x08, 0x00]
     ([0x45, 0, 0, 32, 0, 0, 0x40, 0, 1, 17, 0, 0, 10, 0, 0, 9, 10, 0, 0, 1] @
      udp_header 5000 443 12 0 @ [1, 2, 3, 4])"

lemma sample_frame_ok:
  "udp_frame sample_frame (SocketAddr (V4 0x0A000009) 5000) (SocketAddr (V4 0x0A000001) 443)"
proof -
  have "ipv4_header 17 0x0A000009 0x0A000001
      [0x45, 0, 0, 32, 0, 0, 0x40, 0, 1, 17, 0, 0, 10, 0, 0, 9, 10, 0, 0, 1]"
    by (simp add: ipv4_header_def v4_octets_def be_bytes_numeral)
  then show ?thesis unfolding udp_frame_def sample_frame_def
    by (intro exI [of _ "replicate 12 0"] exI [of _ 12] exI [of _ 0] exI [of _ "[1, 2, 3, 4]"]
        exI [of _ "[0x45, 0, 0, 32, 0, 0, 0x40, 0, 1, 17, 0, 0, 10, 0, 0, 9, 10, 0, 0, 1]"]) simp
qed


subsection \<open>PCAP files read back\<close>

text \<open>
  A reader of the PCAP format (little-endian, microseconds): the snapshot length, the link
  type and the records with their times, original length and data.
\<close>

type_synonym pcap_entry = "nat \<times> nat \<times> nat \<times> bytes"

function read_records :: "bytes \<Rightarrow> pcap_entry list option" where
  "read_records bs =
     (if bs = [] then Some []
      else if length bs < 16 + le_nat (take 4 (drop 8 bs)) then None
      else
        let n = le_nat (take 4 (drop 8 bs))
        in do {
          rest \<leftarrow> read_records (drop (16 + n) bs);
          Some ((le_nat (take 4 bs), le_nat (take 4 (drop 4 bs)), le_nat (take 4 (drop 12 bs)),
                 take n (drop 16 bs)) # rest)
        })"
  by pat_completeness auto
termination
  by (relation "measure length") auto

declare read_records.simps [simp del]

definition read_pcap :: "bytes \<Rightarrow> (nat \<times> nat \<times> pcap_entry list) option" where
  "read_pcap bs =
     (if length bs < 24 \<or> le_nat (take 4 bs) \<noteq> 0xa1b2c3d4 \<or> le_nat (take 2 (drop 4 bs)) \<noteq> 2 \<or>
         le_nat (take 2 (drop 6 bs)) \<noteq> 4
      then None
      else do {
        records \<leftarrow> read_records (drop 24 bs);
        Some (le_nat (take 4 (drop 16 bs)), le_nat (take 4 (drop 20 bs)), records)
      })"

definition entry_of :: "CapturedPacket \<Rightarrow> pcap_entry" where
  "entry_of p = (unat (ucast (ts_sec p) :: u32), unat (ucast (ts_usec p) :: u32),
     unat (orig_len p), cp_data p)"

lemma le_nat_le_bytes_u32 [simp]: "le_nat (le_bytes 4 (unat (w :: u32))) = unat w"
  using unsigned_less [of w, where ?'a = nat] by (simp add: le_nat_le_bytes)

lemma read_records_record:
  assumes "length (cp_data p) < 2 ^ 32"
  shows "read_records (pcap_record p @ rest) = map_option ((#) (entry_of p)) (read_records rest)"
proof -
  define bs where "bs = pcap_record p @ rest"
  have n: "unat (of_nat (length (cp_data p)) :: u32) = length (cp_data p)"
    using assms by (intro unat_of_nat_small) simp
  have l: "le_nat (le_bytes 4 (length (cp_data p))) = length (cp_data p)"
    using assms by (simp add: le_nat_le_bytes)
  have f: "take 4 bs = le_bytes 4 (unat (ucast (ts_sec p) :: u32))"
      "take 4 (drop 4 bs) = le_bytes 4 (unat (ucast (ts_usec p) :: u32))"
      "take 4 (drop 8 bs) = le_bytes 4 (unat (of_nat (length (cp_data p)) :: u32))"
      "take 4 (drop 12 bs) = le_bytes 4 (unat (orig_len p))"
      "drop 16 bs = cp_data p @ rest" "length bs = 16 + length (cp_data p) + length rest"
    by (simp_all add: bs_def pcap_record_def)
  have d: "drop (16 + length (cp_data p)) bs = rest"
    using f(5) drop_drop [of "length (cp_data p)" 16 bs] by (simp add: add.commute)
  have e: "bs \<noteq> []" using f(6) by auto
  show ?thesis unfolding bs_def [symmetric]
    by (subst read_records.simps) (simp add: f d e n l entry_of_def Let_def map_conv_bind_option comp_def)
qed

lemma read_records_records:
  "\<forall>p \<in> set ps. length (cp_data p) < 2 ^ 32 \<Longrightarrow>
    read_records (concat (map pcap_record ps)) = Some (map entry_of ps)"
  by (induction ps) (simp_all add: read_records.simps [of "[]"] read_records_record)

text \<open>
  C10. A PCAP reader gets back from the written file exactly the snapshot length, the link
  type and, in order, every packet with its bytes, its original length and its times (modulo
  \<open>2 ^ 32\<close>, the width of the format).
\<close>

theorem pcap_reads_back:
  assumes "\<forall>p \<in> set packets. length (cp_data p) < 2 ^ 32"
  shows "read_pcap (packets_to_pcap packets dl snap) =
    Some (unat snap, unat dl, map entry_of packets)"
proof -
  define body where "body = concat (map pcap_record packets)"
  define bs where "bs = packets_to_pcap packets dl snap"
  have f: "take 4 bs = le_bytes 4 0xa1b2c3d4" "take 2 (drop 4 bs) = le_bytes 2 2"
      "take 2 (drop 6 bs) = le_bytes 2 4" "take 4 (drop 16 bs) = le_bytes 4 (unat snap)"
      "take 4 (drop 20 bs) = le_bytes 4 (unat dl)" "drop 24 bs = body" "24 \<le> length bs"
    by (simp_all add: bs_def body_def packets_to_pcap_def)
  have "read_records body = Some (map entry_of packets)"
    unfolding body_def by (rule read_records_records [OF assms])
  moreover have "le_nat (le_bytes 4 0xa1b2c3d4) = 0xa1b2c3d4" "le_nat (le_bytes 2 2) = 2"
      "le_nat (le_bytes 2 4) = 4" by (simp_all add: le_nat_le_bytes)
  ultimately show ?thesis using f unfolding bs_def [symmetric] by (simp add: read_pcap_def)
qed

theorem pcap_reads_back_witness:
  "read_pcap (packets_to_pcap [\<lparr>ts_sec = 7, ts_usec = 9, orig_len = 60, cp_data = [1, 2, 3],
      cp_session = None\<rparr>] 1 65535) = Some (65535, 1, [(7, 9, 60, [1, 2, 3])])"
  using pcap_reads_back [of "[\<lparr>ts_sec = 7, ts_usec = 9, orig_len = 60, cp_data = [1, 2, 3],
      cp_session = None\<rparr>]" 1 65535] by (simp add: entry_of_def)

end
