(* ===== verification/Tracing_Buffer.thy ===== *)
theory Tracing_Buffer
  imports Rust_Strings Interfaces
begin

text \<open>
  \<open>server/src/tracing_buffer.rs\<close>: the circular buffer of log entries and its text export. The
  formatting of levels and dates belongs to the \<open>tracing\<close> and \<open>chrono\<close> crates and is an
  argument; so is the \<open>Debug\<close> text of a field value.
\<close>

record 'l LogEntry =
  timestamp_us :: u64
  le_level :: 'l
  le_target :: string
  le_message :: string

record 'l TracingBuffer =
  tb_entries :: "'l LogEntry list"
  tb_max_entries :: nat
  next_index :: nat
  tb_enabled :: bool

definition new_tracing_buffer :: "nat \<Rightarrow> bool \<Rightarrow> 'l TracingBuffer" where
  "new_tracing_buffer max_entries enabled =
     \<lparr>tb_entries = [], tb_max_entries = max_entries, next_index = 0, tb_enabled = enabled\<rparr>"

text \<open>The store behind the guard: \<open>push_entry\<close> is the part of \<open>add_entry\<close> under the locks.\<close>

definition push_entry :: "'l LogEntry \<Rightarrow> 'l TracingBuffer \<Rightarrow> 'l TracingBuffer option" where
  "push_entry entry b =
     do {
       entries \<leftarrow> (if length (tb_entries b) < tb_max_entries b then Some (tb_entries b @ [entry])
                   else set_idx (tb_entries b) (next_index b) entry);
       next_idx \<leftarrow> umod_checked (next_index b + 1) (tb_max_entries b);
       Some (b\<lparr>tb_entries := entries, next_index := next_idx\<rparr>)
     }"

definition add_entry ::
  "u64 \<Rightarrow> 'l \<Rightarrow> string \<Rightarrow> string \<Rightarrow> 'l TracingBuffer \<Rightarrow> 'l TracingBuffer option" where
  "add_entry now level target message b =
     (if \<not> tb_enabled b then Some b
      else push_entry \<lparr>timestamp_us = now, le_level = level, le_target = target,
             le_message = message\<rparr> b)"

text \<open>The two index loops of \<open>get_entries\<close>: push \<open>entries[i]\<close> for \<open>i\<close> from \<open>a\<close> up to \<open>b\<close>.\<close>

definition push_range :: "'a list \<Rightarrow> nat \<Rightarrow> nat \<Rightarrow> 'a list option" where
  "push_range xs a b = those (map (idx xs) [a ..< b])"

definition get_entries :: "'l TracingBuffer \<Rightarrow> 'l LogEntry list option" where
  "get_entries b =
     (if length (tb_entries b) < tb_max_entries b then Some (tb_entries b)
      else do {
        older \<leftarrow> push_range (tb_entries b) (next_index b) (length (tb_entries b));
        newer \<leftarrow> push_range (tb_entries b) 0 (next_index b);
        Some (older @ newer)
      })"

definition tb_len :: "'l TracingBuffer \<Rightarrow> nat" where
  "tb_len b = length (tb_entries b)"

definition clear_tracing :: "'l TracingBuffer \<Rightarrow> 'l TracingBuffer" where
  "clear_tracing b = b\<lparr>tb_entries := [], next_index := 0\<rparr>"

text \<open>\<open>{:06}\<close> of a number, and the export; \<open>fmt_date\<close> is chrono's \<open>%Y-%m-%d %H:%M:%S\<close>.\<close>

definition pad6 :: "nat \<Rightarrow> string" where
  "pad6 n = replicate (6 - length (dec n)) CHR ''0'' @ dec n"

definition export_line ::
  "(nat \<Rightarrow> nat \<Rightarrow> string) \<Rightarrow> ('l \<Rightarrow> string) \<Rightarrow> 'l LogEntry \<Rightarrow> string" where
  "export_line fmt_date fmt_level e =
     (let secs = unat (timestamp_us e) div 1000000;
          micros = unat (timestamp_us e) mod 1000000
      in ''['' @ fmt_date secs (micros * 1000) @ ''.'' @ pad6 micros @ '' UTC] ('' @ dec secs @
         ''.'' @ pad6 micros @ '') '' @ fmt_level (le_level e) @ '' '' @ le_target e @ '' - '' @
         le_message e @ [CHR 0x0A])"

definition export_as_text ::
  "(nat \<Rightarrow> nat \<Rightarrow> string) \<Rightarrow> ('l \<Rightarrow> string) \<Rightarrow> 'l TracingBuffer \<Rightarrow> string option" where
  "export_as_text fmt_date fmt_level b =
     do { es \<leftarrow> get_entries b; Some (concat (map (export_line fmt_date fmt_level) es)) }"

text \<open>The visitor that builds the message of an event from its fields (name and value text).\<close>

fun record_debug :: "string \<Rightarrow> string \<times> string \<Rightarrow> string" where
  "record_debug message (name, value_text) =
     (if name = ''message'' then value_text
      else (if message \<noteq> [] then message @ '', '' else message) @ name @ '' = '' @ value_text)"

definition on_event ::
  "u64 \<Rightarrow> 'l \<Rightarrow> string \<Rightarrow> (string \<times> string) list \<Rightarrow> 'l TracingBuffer \<Rightarrow> 'l TracingBuffer option" where
  "on_event now level target event_fields b =
     add_entry now level target (foldl record_debug [] event_fields) b"

subsection \<open>The buffer keeps the newest entries\<close>

definition tracing_ok :: "'l TracingBuffer \<Rightarrow> bool" where
  "tracing_ok b \<longleftrightarrow>
     0 < tb_max_entries b \<and> next_index b < tb_max_entries b \<and>
     length (tb_entries b) \<le> tb_max_entries b \<and>
     (length (tb_entries b) < tb_max_entries b \<longrightarrow> next_index b = length (tb_entries b))"

lemma push_range_slice:
  "b \<le> length xs \<Longrightarrow> push_range xs a b = Some (take (b - a) (drop a xs))"
proof -
  assume b: "b \<le> length xs"
  have "those (map (idx xs) is) = Some (map ((!) xs) is)" if "\<forall>i \<in> set is. i < length xs" for "is"
    using that by (induction "is") simp_all
  moreover have "map ((!) xs) [a ..< b] = take (b - a) (drop a xs)"
    using b by (intro nth_equalityI) simp_all
  ultimately show ?thesis using b by (simp add: push_range_def)
qed

lemma get_entries_ok:
  "tracing_ok b \<Longrightarrow> get_entries b =
    Some (if length (tb_entries b) < tb_max_entries b then tb_entries b
          else ring_order (next_index b) (tb_entries b))"
  by (auto simp: get_entries_def tracing_ok_def push_range_slice ring_order_def)

interpretation tracing: bounded_log tb_max_entries tracing_ok "\<lambda>n b. True" push_entry get_entries
proof unfold_locales
  fix b :: "'l TracingBuffer" and xs :: "'l LogEntry list" and x :: "'l LogEntry"
  assume ok: "tracing_ok b" and get: "get_entries b = Some xs"
  let ?cap = "tb_max_entries b"
  let ?es = "if length (tb_entries b) < ?cap then tb_entries b @ [x] else (tb_entries b)[next_index b := x]"
  let ?b = "b\<lparr>tb_entries := ?es, next_index := (next_index b + 1) mod ?cap\<rparr>"
  have push: "push_entry x b = Some ?b"
    using ok by (auto simp: push_entry_def tracing_ok_def umod_checked_def set_idx_def)
  have ok': "tracing_ok ?b" using ok by (auto simp: tracing_ok_def mod_Suc)
  have "get_entries ?b = Some (lastn ?cap (xs @ [x]))"
  proof (cases "length (tb_entries b) < ?cap")
    case True
    with get ok have "xs = tb_entries b" by (simp add: get_entries_ok)
    with True ok' ok show ?thesis
      by (auto simp: get_entries_ok ring_order_def tracing_ok_def mod_Suc)
  next
    case False
    with ok have len: "length (tb_entries b) = ?cap" "next_index b < length (tb_entries b)"
      by (auto simp: tracing_ok_def)
    with False get ok have "xs = ring_order (next_index b) (tb_entries b)"
      by (simp add: get_entries_ok)
    with False ok' len ring_order_overwrite [OF len(2), of x] show ?thesis
      by (simp add: get_entries_ok)
  qed
  with push ok' show "\<exists>r'. push_entry x b = Some r' \<and> tracing_ok r' \<and> tb_max_entries r' = ?cap \<and>
      True \<and> get_entries r' = Some (lastn ?cap (xs @ [x]))" by auto
next
  fix b :: "'l TracingBuffer"
  assume "tracing_ok b"
  then show "\<exists>xs. get_entries b = Some xs \<and> length xs \<le> tb_max_entries b"
    by (auto simp: get_entries_ok ring_order_def tracing_ok_def)
qed

type_synonym 'l trace_event = "u64 \<times> 'l \<times> string \<times> (string \<times> string) list"

definition entry_for :: "'l trace_event \<Rightarrow> 'l LogEntry" where
  "entry_for = (\<lambda>(now, level, target, fs). \<lparr>timestamp_us = now, le_level = level,
     le_target = target, le_message = foldl record_debug [] fs\<rparr>)"

fun log_all :: "'l trace_event list \<Rightarrow> 'l TracingBuffer \<Rightarrow> 'l TracingBuffer option" where
  "log_all [] b = Some b"
| "log_all ((now, level, target, fs) # evs) b =
     do { b' \<leftarrow> on_event now level target fs b; log_all evs b' }"

lemma push_entry_enabled: "push_entry e b = Some b' \<Longrightarrow> tb_enabled b' = tb_enabled b"
  by (auto simp: push_entry_def bind_eq_Some_conv)

lemma log_all_enabled:
  "tb_enabled b \<Longrightarrow> log_all evs b = tracing.add_all (map entry_for evs) b"
proof (induction evs b rule: log_all.induct)
  case (2 now level target fs evs b)
  then show ?case
    by (cases "push_entry (entry_for (now, level, target, fs)) b")
      (auto simp: on_event_def add_entry_def entry_for_def dest: push_entry_enabled)
qed simp

lemma log_all_disabled: "\<not> tb_enabled b \<Longrightarrow> log_all evs b = Some b"
  by (induction evs b rule: log_all.induct) (simp_all add: on_event_def add_entry_def)

text \<open>
  C11. An enabled tracing buffer of positive capacity records every event without a panic and
  exports, oldest first, one line for each of the newest \<open>max_entries\<close> events; a disabled one
  stays empty; an enabled one of capacity 0 panics on the first event.
\<close>

theorem tracing_exports_newest:
  "(0 < n \<longrightarrow> (\<exists>b. log_all evs (new_tracing_buffer n True) = Some b \<and>
      get_entries b = Some (lastn n (map entry_for evs)) \<and>
      export_as_text fmt_date fmt_level b =
        Some (concat (map (export_line fmt_date fmt_level) (lastn n (map entry_for evs)))))) \<and>
   log_all evs (new_tracing_buffer n False) = Some (new_tracing_buffer n False) \<and>
   (evs \<noteq> [] \<longrightarrow> log_all evs (new_tracing_buffer 0 True) = None)"
proof (intro conjI impI)
  assume n: "0 < n"
  let ?b = "new_tracing_buffer n True :: 'a TracingBuffer"
  have b: "tracing_ok ?b" "get_entries ?b = Some []" "tb_max_entries ?b = n" "tb_enabled ?b"
    using n by (simp_all add: tracing_ok_def get_entries_def new_tracing_buffer_def)
  from tracing.add_all_contents [OF b(1) TrueI b(2), of "map entry_for evs"] b(3)
  obtain b where "tracing.add_all (map entry_for evs) ?b = Some b"
      "get_entries b = Some (lastn n (map entry_for evs))" by auto
  moreover note log_all_enabled [OF b(4), of evs]
  ultimately have "log_all evs ?b = Some b" "get_entries b = Some (lastn n (map entry_for evs))"
    by simp_all
  then show "\<exists>b. log_all evs ?b = Some b \<and> get_entries b = Some (lastn n (map entry_for evs)) \<and>
      export_as_text fmt_date fmt_level b =
        Some (concat (map (export_line fmt_date fmt_level) (lastn n (map entry_for evs))))"
    by (simp add: export_as_text_def)
next
  show "log_all evs (new_tracing_buffer n False) = Some (new_tracing_buffer n False)"
    by (rule log_all_disabled) (simp add: new_tracing_buffer_def)
next
  assume "evs \<noteq> []"
  then show "log_all evs (new_tracing_buffer 0 True) = None"
    by (cases evs)
      (auto simp: on_event_def add_entry_def new_tracing_buffer_def push_entry_def set_idx_def)
qed

theorem tracing_exports_newest_witness:
  "\<exists>b. log_all [(1, ''INFO'', ''a'', []), (2, ''WARN'', ''b'', [(''message'', ''x'')])]
      (new_tracing_buffer 1 True) = Some b \<and>
    get_entries b = Some [entry_for (2, ''WARN'', ''b'', [(''message'', ''x'')])]"
  using tracing_exports_newest [of 1 "[(1, ''INFO'', ''a'', []), (2, ''WARN'', ''b'', [(''message'', ''x'')])]"]
  by (auto simp: lastn_def)

end
