(* ===== verification/Dtls_Keylog.thy ===== *)
theory Dtls_Keylog
  imports Rust_Strings
begin

text \<open>
  \<open>server/src/dtls_keylog.rs\<close>: the store of DTLS keys per survey session, bounded in the number
  of sessions, and the key log file. The hex encoding is that of the \<open>hex\<close> crate, an argument
  \<open>hex_encode\<close>.
\<close>

subsection \<open>The storage\<close>

record DtlsKeylogEntry =
  client_random :: bytes
  master_secret :: bytes
  kl_timestamp :: nat

record DtlsKeylogConfig =
  max_sessions :: nat
  keylog_enabled :: bool

definition default_keylog_config :: DtlsKeylogConfig where
  "default_keylog_config = \<lparr>max_sessions = 1000, keylog_enabled = True\<rparr>"

record KeylogStorage =
  kl_sessions :: "(string \<times> DtlsKeylogEntry list) list"
  session_order :: "string list"
  kl_config :: DtlsKeylogConfig

record KeylogStats =
  ks_sessions_stored :: nat
  ks_total_entries :: nat
  ks_max_sessions :: nat

definition new_keylog_storage :: "DtlsKeylogConfig \<Rightarrow> KeylogStorage" where
  "new_keylog_storage config = \<lparr>kl_sessions = [], session_order = [], kl_config = config\<rparr>"

text \<open>The eviction loop: while the limit is reached and an order is left, drop the oldest.\<close>

fun evict_oldest ::
  "nat \<Rightarrow> string list \<Rightarrow> (string \<times> DtlsKeylogEntry list) list \<Rightarrow>
    string list \<times> (string \<times> DtlsKeylogEntry list) list" where
  "evict_oldest limit [] sessions = ([], sessions)"
| "evict_oldest limit (oldest # order) sessions =
     (if limit \<le> length sessions then evict_oldest limit order (al_remove oldest sessions)
      else (oldest # order, sessions))"

definition keylog_add_entry :: "string \<Rightarrow> DtlsKeylogEntry \<Rightarrow> KeylogStorage \<Rightarrow> KeylogStorage" where
  "keylog_add_entry survey_session_id entry st =
     (if survey_session_id = [] then st
      else
        let st = (if map_of (kl_sessions st) survey_session_id = None
                  then let (order, sessions) =
                             evict_oldest (max_sessions (kl_config st)) (session_order st) (kl_sessions st)
                       in st\<lparr>session_order := order @ [survey_session_id], kl_sessions := sessions\<rparr>
                  else st);
            entries = (case map_of (kl_sessions st) survey_session_id of
                         Some es \<Rightarrow> es | None \<Rightarrow> [])
        in st\<lparr>kl_sessions := al_put survey_session_id (entries @ [entry]) (kl_sessions st)\<rparr>)"

definition keylog_get_entries :: "string \<Rightarrow> KeylogStorage \<Rightarrow> DtlsKeylogEntry list option" where
  "keylog_get_entries survey_session_id st = map_of (kl_sessions st) survey_session_id"

definition keylog_has_session :: "string \<Rightarrow> KeylogStorage \<Rightarrow> bool" where
  "keylog_has_session survey_session_id st \<longleftrightarrow> map_of (kl_sessions st) survey_session_id \<noteq> None"

definition keylog_clear :: "KeylogStorage \<Rightarrow> KeylogStorage" where
  "keylog_clear st = st\<lparr>kl_sessions := [], session_order := []\<rparr>"

definition keylog_stats :: "KeylogStorage \<Rightarrow> KeylogStats" where
  "keylog_stats st = \<lparr>ks_sessions_stored = length (kl_sessions st),
     ks_total_entries = sum_list (map (\<lambda>(k, es). length es) (kl_sessions st)),
     ks_max_sessions = max_sessions (kl_config st)\<rparr>"

subsection \<open>The service\<close>

record DtlsKeylogService =
  kl_storage :: KeylogStorage
  kls_config :: DtlsKeylogConfig

definition new_keylog_service :: "DtlsKeylogConfig \<Rightarrow> DtlsKeylogService" where
  "new_keylog_service config =
     \<lparr>kl_storage = new_keylog_storage config, kls_config = config\<rparr>"

definition add_keylog ::
  "nat \<Rightarrow> string \<Rightarrow> bytes \<Rightarrow> bytes \<Rightarrow> DtlsKeylogService \<Rightarrow> DtlsKeylogService" where
  "add_keylog now survey_session_id random secret v =
     (if \<not> keylog_enabled (kls_config v) then v
      else v\<lparr>kl_storage := keylog_add_entry survey_session_id
               \<lparr>client_random = random, master_secret = secret, kl_timestamp = now\<rparr> (kl_storage v)\<rparr>)"

definition get_keylogs :: "string \<Rightarrow> DtlsKeylogService \<Rightarrow> DtlsKeylogEntry list" where
  "get_keylogs survey_session_id v =
     (case keylog_get_entries survey_session_id (kl_storage v) of Some es \<Rightarrow> es | None \<Rightarrow> [])"

definition to_sslkeylog_line :: "(bytes \<Rightarrow> string) \<Rightarrow> DtlsKeylogEntry \<Rightarrow> string" where
  "to_sslkeylog_line hex_encode e =
     ''CLIENT_RANDOM '' @ hex_encode (client_random e) @ '' '' @ hex_encode (master_secret e)"

definition generate_keylog_file ::
  "(bytes \<Rightarrow> string) \<Rightarrow> string \<Rightarrow> DtlsKeylogService \<Rightarrow> string" where
  "generate_keylog_file hex_encode survey_session_id v =
     (let entries = get_keylogs survey_session_id v
      in if entries = [] then []
         else join [CHR 0x0A] (map (to_sslkeylog_line hex_encode) entries) @ [CHR 0x0A])"

subsection \<open>Refinement: a queue of sessions\<close>

text \<open>
  The abstract store is a queue of sessions with their keys, oldest first. Adding a key to a
  session in the queue appends it there; adding one for a new session first drops the oldest
  sessions until there is room.
\<close>

type_synonym key_queue = "(string \<times> DtlsKeylogEntry list) list"

definition queue_add :: "nat \<Rightarrow> string \<Rightarrow> DtlsKeylogEntry \<Rightarrow> key_queue \<Rightarrow> key_queue" where
  "queue_add limit i e q =
     (if i = [] then q
      else if i \<in> set (al_keys q)
      then map (\<lambda>(j, es). if j = i then (j, es @ [e]) else (j, es)) q
      else drop (Suc (length q) - limit) q @ [(i, [e])])"

definition keylog_ok :: "KeylogStorage \<Rightarrow> bool" where
  "keylog_ok st \<longleftrightarrow>
     distinct (session_order st) \<and> distinct (al_keys (kl_sessions st)) \<and>
     set (session_order st) = set (al_keys (kl_sessions st))"

definition keylog_abs :: "KeylogStorage \<Rightarrow> key_queue" where
  "keylog_abs st = map (\<lambda>i. (i, case map_of (kl_sessions st) i of Some es \<Rightarrow> es | None \<Rightarrow> []))
     (session_order st)"

lemma keylog_ok_length: "keylog_ok st \<Longrightarrow> length (kl_sessions st) = length (session_order st)"
proof -
  assume "keylog_ok st"
  then have "length (al_keys (kl_sessions st)) = length (session_order st)"
    unfolding keylog_ok_def by (metis distinct_card)
  then show ?thesis by (simp add: al_keys_def)
qed

lemma evict_oldest_spec:
  assumes "distinct order" and "distinct (al_keys sessions)" and "set order = set (al_keys sessions)"
  shows "\<exists>sessions'. evict_oldest limit order sessions =
      (drop (Suc (length order) - limit) order, sessions') \<and>
    distinct (al_keys sessions') \<and> set (al_keys sessions') = set (drop (Suc (length order) - limit) order) \<and>
    (\<forall>i \<in> set (drop (Suc (length order) - limit) order). map_of sessions' i = map_of sessions i)"
  using assms
proof (induction limit order sessions rule: evict_oldest.induct)
  case (2 limit oldest order sessions)
  have "length (al_keys sessions) = length (oldest # order)"
    using 2(2-4) by (metis distinct_card)
  then have len: "length sessions = Suc (length order)" by (simp add: al_keys_def)
  show ?case
  proof (cases "limit \<le> length sessions")
    case True
    then have n: "Suc (length (oldest # order)) - limit = Suc (Suc (length order) - limit)"
      using len by simp
    have "set order = set (al_keys (al_remove oldest sessions))" using 2(2,4) by auto
    moreover have "oldest \<notin> set (drop m order)" for m
      using 2(2) by (auto dest: in_set_dropD)
    ultimately show ?thesis using 2(1) [OF True] 2(2,3) True n by fastforce
  next
    case False
    then show ?thesis using len 2(2-4) by simp
  qed
qed simp

lemma keylog_abs_keys: "al_keys (keylog_abs st) = session_order st"
  by (simp add: al_keys_def keylog_abs_def comp_def)

text \<open>
  C12. The key store refines a bounded queue of sessions: from every well-formed store, adding
  a key gives a well-formed store again and the queue with the key appended to its session, or
  the queue without its oldest sessions and with the new one at the end. Hence a store never
  holds more than \<open>max_sessions\<close> sessions (one when the limit is 0), and a session's keys are
  kept in order until the session is among the oldest.
\<close>

theorem keylog_refines_queue:
  assumes "keylog_ok st"
  shows "keylog_ok (keylog_add_entry i e st) \<and>
    keylog_abs (keylog_add_entry i e st) =
      queue_add (max_sessions (kl_config st)) i e (keylog_abs st) \<and>
    (length (keylog_abs st) \<le> max 1 (max_sessions (kl_config st)) \<longrightarrow>
      length (keylog_abs (keylog_add_entry i e st)) \<le> max 1 (max_sessions (kl_config st)))"
proof (cases "i = [] \<or> map_of (kl_sessions st) i \<noteq> None")
  case True
  have keys: "i \<in> set (session_order st) \<longleftrightarrow> map_of (kl_sessions st) i \<noteq> None"
    using assms by (simp add: keylog_ok_def map_of_keys_iff)
  show ?thesis
  proof (cases "i = []")
    case False
    with True obtain es where "map_of (kl_sessions st) i = Some es" by auto
    then have st: "keylog_add_entry i e st = st\<lparr>kl_sessions := al_put i (es @ [e]) (kl_sessions st)\<rparr>"
      using False by (simp add: keylog_add_entry_def)
    have "keylog_ok (keylog_add_entry i e st)"
      using assms True False by (auto simp: st keylog_ok_def al_keys_put map_of_keys_iff)
    moreover have "keylog_abs (keylog_add_entry i e st) =
        queue_add (max_sessions (kl_config st)) i e (keylog_abs st)"
      using False keys \<open>map_of (kl_sessions st) i = Some es\<close>
      by (auto simp: st keylog_abs_def queue_add_def keylog_abs_keys [unfolded keylog_abs_def])
    moreover have "length (keylog_abs (keylog_add_entry i e st)) = length (keylog_abs st)"
      by (simp add: st keylog_abs_def)
    ultimately show ?thesis by simp
  qed (use assms in \<open>simp add: keylog_add_entry_def queue_add_def\<close>)
next
  case False
  define n where "n = Suc (length (session_order st)) - max_sessions (kl_config st)"
  from False assms evict_oldest_spec [of "session_order st" "kl_sessions st" "max_sessions (kl_config st)"]
  obtain ss where ss: "evict_oldest (max_sessions (kl_config st)) (session_order st) (kl_sessions st) =
        (drop n (session_order st), ss)"
      "distinct (al_keys ss)" "set (al_keys ss) = set (drop n (session_order st))"
      "\<forall>j \<in> set (drop n (session_order st)). map_of ss j = map_of (kl_sessions st) j"
    unfolding keylog_ok_def n_def by blast
  have i: "i \<notin> set (session_order st)" "i \<notin> set (drop n (session_order st))" "map_of ss i = None"
    using False assms ss(3) in_set_dropD [of i n "session_order st"]
    by (auto simp: keylog_ok_def map_of_keys_iff) (metis map_of_keys_iff option.distinct(1))+
  let ?st = "keylog_add_entry i e st"
  have st: "?st = st\<lparr>session_order := drop n (session_order st) @ [i], kl_sessions := al_put i [e] ss\<rparr>"
    using False i(3) by (simp add: keylog_add_entry_def ss(1))
  have ok: "keylog_ok ?st"
    using assms ss(2,3) i(2) by (auto simp: st keylog_ok_def al_keys_put)
  have abs: "keylog_abs ?st = queue_add (max_sessions (kl_config st)) i e (keylog_abs st)"
    using False i ss(4)
    by (auto simp: st keylog_abs_def queue_add_def keylog_abs_keys [unfolded keylog_abs_def]
        drop_map n_def intro!: map_cong)
  have "length (keylog_abs ?st) \<le> max 1 (max_sessions (kl_config st))"
    by (simp add: st keylog_abs_def n_def)
  with ok abs show ?thesis by simp
qed

theorem keylog_refines_queue_witness:
  "keylog_abs (keylog_add_entry ''s2'' \<lparr>client_random = [1], master_secret = [2], kl_timestamp = 5\<rparr>
      \<lparr>kl_sessions = [(''s1'', [])], session_order = [''s1''],
       kl_config = \<lparr>max_sessions = 1, keylog_enabled = True\<rparr>\<rparr>) =
    [(''s2'', [\<lparr>client_random = [1], master_secret = [2], kl_timestamp = 5\<rparr>])]"
  using keylog_refines_queue [of "\<lparr>kl_sessions = [(''s1'', [])], session_order = [''s1''],
       kl_config = \<lparr>max_sessions = 1, keylog_enabled = True\<rparr>\<rparr>" "''s2''"
       "\<lparr>client_random = [1], master_secret = [2], kl_timestamp = 5\<rparr>"]
  by (simp add: keylog_ok_def keylog_abs_def al_keys_def queue_add_def)

subsection \<open>The key log file\<close>

lemma lines_acc_no_newline:
  "CHR 0x0A \<notin> set l \<Longrightarrow>
    lines_acc acc (l @ [CHR 0x0A] @ rest) = strip_cr (rev acc @ l) # lines_acc [] rest"
  by (induction l arbitrary: acc) auto

lemma str_lines_join:
  assumes "ls \<noteq> []" and "\<forall>l \<in> set ls. CHR 0x0A \<notin> set l"
  shows "str_lines (join [CHR 0x0A] ls @ [CHR 0x0A]) = map strip_cr ls"
  unfolding str_lines_def using assms
proof (induction "[CHR 0x0A]" ls rule: join.induct)
  case (2 x)
  then show ?case using lines_acc_no_newline [of x "[]" "[]"] by simp
next
  case (3 x y ys)
  then show ?case
    using lines_acc_no_newline [of x "[]" "join [CHR 0x0A] (y # ys) @ [CHR 0x0A]"] by simp
qed simp

text \<open>
  The key log file of a session has exactly one line per recorded key, in the order they
  were recorded, each of the form \<open>CLIENT_RANDOM <client random> <master secret>\<close>, for every
  hex encoding whose output has only hex digits.
\<close>

theorem keylog_file_lines:
  assumes "\<forall>bs. \<forall>c \<in> set (hex_encode bs). c \<in> set ''0123456789abcdef''"
  shows "str_lines (generate_keylog_file hex_encode i v) =
    map (\<lambda>e. ''CLIENT_RANDOM '' @ hex_encode (client_random e) @ '' '' @ hex_encode (master_secret e))
      (get_keylogs i v)"
proof -
  have hexd: "c \<in> set (hex_encode bs) \<Longrightarrow> c \<noteq> CHR 0x0A \<and> c \<noteq> CHR 0x0D" for c bs
    using assms by fastforce
  have nl: "CHR 0x0A \<notin> set (to_sslkeylog_line hex_encode e)" for e
    using hexd by (auto simp: to_sslkeylog_line_def)
  have cr: "strip_cr (to_sslkeylog_line hex_encode e) = to_sslkeylog_line hex_encode e" for e
  proof -
    have "CHR 0x0D \<notin> set (to_sslkeylog_line hex_encode e)"
      using hexd by (auto simp: to_sslkeylog_line_def)
    then show ?thesis unfolding strip_cr_def by (metis last_in_set)
  qed
  show ?thesis
  proof (cases "get_keylogs i v = []")
    case True
    then show ?thesis by (simp add: generate_keylog_file_def str_lines_def)
  next
    case False
    then have "generate_keylog_file hex_encode i v =
        join [CHR 0x0A] (map (to_sslkeylog_line hex_encode) (get_keylogs i v)) @ [CHR 0x0A]"
      by (simp add: generate_keylog_file_def Let_def)
    moreover have "str_lines (join [CHR 0x0A] (map (to_sslkeylog_line hex_encode) (get_keylogs i v)) @
        [CHR 0x0A]) = map strip_cr (map (to_sslkeylog_line hex_encode) (get_keylogs i v))"
      by (rule str_lines_join) (use False nl in auto)
    ultimately have "str_lines (generate_keylog_file hex_encode i v) =
        map strip_cr (map (to_sslkeylog_line hex_encode) (get_keylogs i v))" by (simp only:)
    then show ?thesis by (simp add: cr) (simp add: to_sslkeylog_line_def)
  qed
qed

lemma hex_digit_digits: "d < 16 \<Longrightarrow> hex_digit d \<in> set ''0123456789abcdef''"
proof -
  assume "d < 16"
  then have "d \<in> {0, 1, 2, 3, 4, 5, 6, 7, 8, 9, 10, 11, 12, 13, 14, 15}"
    unfolding insert_iff empty_iff by arith
  then show ?thesis by (elim insertE) (simp_all add: hex_digit_def char_of_eq_iff)
qed

lemma hex_bytes_digits: "c \<in> set (hex_bytes bs) \<Longrightarrow> c \<in> set ''0123456789abcdef''"
proof -
  assume "c \<in> set (hex_bytes bs)"
  then obtain b :: u8 where "c = hex_digit (unat b div 16) \<or> c = hex_digit (unat b mod 16)"
    by (auto simp: hex_bytes_def)
  moreover have "unat b div 16 < 16" using unat_u8_less [of b] by (simp del: unat_u8_less)
  moreover have "unat b mod 16 < 16" by simp
  ultimately show ?thesis using hex_digit_digits by metis
qed

theorem keylog_file_lines_witness:
  "str_lines (generate_keylog_file hex_bytes ''s1''
      (add_keylog 0 ''s1'' [0xAB] [0x01, 0xFF] (new_keylog_service default_keylog_config))) =
    [''CLIENT_RANDOM '' @ hex_bytes [0xAB] @ '' '' @ hex_bytes [0x01, 0xFF]]"
  by (subst keylog_file_lines)
    (use hex_bytes_digits in \<open>auto simp: get_keylogs_def keylog_get_entries_def add_keylog_def
      new_keylog_service_def new_keylog_storage_def default_keylog_config_def keylog_add_entry_def\<close>)

end
