(* ===== verification/Auth_Service.thy ===== *)
theory Auth_Service
  imports Rust_Strings
begin

text \<open>
  The \<open>netpoke_auth\<close> crate: \<open>auth/src/config.rs\<close>, \<open>session.rs\<close>, \<open>error.rs\<close>, \<open>service.rs\<close>,
  \<open>middleware.rs\<close>, \<open>routes.rs\<close> and \<open>providers/plain.rs\<close>. The current Unix time in seconds is
  the argument \<open>now\<close>. Third-party code is a parameter: the private cookie jar is given by its
  three operations (\<open>jar_ops\<close>), the JSON codec of a session by \<open>json_codec\<close>, bcrypt by a
  function, and an OAuth provider by its two network calls (\<open>oauth_provider\<close>). A panic is
  \<open>None\<close>.
\<close>

subsection \<open>Configuration\<close>

record OAuthConfig =
  enable_bluesky :: bool
  enable_github :: bool
  enable_google :: bool
  enable_linkedin :: bool

record UserCredentials =
  username :: string
  password :: string
  uc_display_name :: "string option"

record PlainLoginConfig =
  pl_enabled :: bool
  pl_users :: "UserCredentials list"

record SessionConfig =
  cookie_name :: string
  timeout_seconds :: u64
  secure :: bool

record MagicKeyConfig =
  mk_enabled :: bool
  magic_keys :: "string list"
  survey_cookie_name :: string
  survey_timeout_seconds :: u64
  max_measuring_time_seconds :: u64
  magic_key_max_measuring_time :: "string \<rightharpoonup> u64"

record AuthConfig =
  enable_auth :: bool
  oauth :: OAuthConfig
  plain_login :: PlainLoginConfig
  session :: SessionConfig
  allowed_users :: "string list"
  magic_key_config :: MagicKeyConfig

definition default_magic_key_config :: MagicKeyConfig where
  "default_magic_key_config =
     \<lparr>mk_enabled = False, magic_keys = [], survey_cookie_name = ''survey_session_id'',
      survey_timeout_seconds = 28800, max_measuring_time_seconds = 3600,
      magic_key_max_measuring_time = Map.empty\<rparr>"

definition default_auth_config :: AuthConfig where
  "default_auth_config =
     \<lparr>enable_auth = False,
      oauth = \<lparr>enable_bluesky = False, enable_github = False, enable_google = False,
               enable_linkedin = False\<rparr>,
      plain_login = \<lparr>pl_enabled = False, pl_users = []\<rparr>,
      session = \<lparr>cookie_name = ''session_id'', timeout_seconds = 86400, secure = False\<rparr>,
      allowed_users = [], magic_key_config = default_magic_key_config\<rparr>"

definition get_max_measuring_time_seconds :: "MagicKeyConfig \<Rightarrow> string \<Rightarrow> u64" where
  "get_max_measuring_time_seconds c magic_key =
     (case magic_key_max_measuring_time c magic_key of
        Some override_seconds \<Rightarrow> override_seconds
      | None \<Rightarrow> if magic_key = ''DEMO'' then 120 else max_measuring_time_seconds c)"

subsection \<open>Sessions and errors\<close>

datatype AuthProvider = Bluesky | GitHub | Google | LinkedIn | PlainLogin

record SessionData =
  auth_provider :: AuthProvider
  user_id :: string
  sd_handle :: string
  sd_display_name :: "string option"
  groups :: "string list"
  sd_created_at :: u64

record OAuthEndpoints =
  auth_url :: string
  token_url :: string
  service_endpoint :: string

record OAuthTempState =
  ot_auth_provider :: AuthProvider
  ot_handle :: "string option"
  user_did :: "string option"
  pkce_verifier :: "string option"
  oauth_endpoints :: "OAuthEndpoints option"
  dpop_private_key :: "string option"
  ot_created_at :: u64

definition session_is_expired :: "u64 \<Rightarrow> SessionData \<Rightarrow> u64 \<Rightarrow> bool option" where
  "session_is_expired now s timeout =
     do { age \<leftarrow> sub_checked now (sd_created_at s); Some (timeout < age) }"

definition oauth_state_is_expired :: "u64 \<Rightarrow> OAuthTempState \<Rightarrow> u64 \<Rightarrow> bool option" where
  "oauth_state_is_expired now s timeout =
     do { age \<leftarrow> sub_checked now (ot_created_at s); Some (timeout < age) }"

datatype AuthError =
    DnsError string | DidResolutionError string | ServiceMetadataError string
  | NetworkError string | JsonError string | UrlError string
  | InvalidHandleFormat | AuthenticationRequired | SessionNotFound | SessionExpired
  | InvalidSession | OAuthError string | ConfigError string | AccessDenied

text \<open>\<open>From<AuthError> for StatusCode\<close>.\<close>

fun status_of :: "AuthError \<Rightarrow> nat" where
  "status_of InvalidHandleFormat = 400"
| "status_of AuthenticationRequired = 401"
| "status_of AccessDenied = 403"
| "status_of SessionNotFound = 401"
| "status_of SessionExpired = 401"
| "status_of InvalidSession = 401"
| "status_of _ = 500"

subsection \<open>Plain login\<close>

type_synonym PlainLoginProvider = "string \<rightharpoonup> UserCredentials"

definition new_plain_provider :: "PlainLoginConfig \<Rightarrow> AuthError + PlainLoginProvider" where
  "new_plain_provider c =
     (if pl_users c = [] then Inl (ConfigError ''Plain login enabled but no users configured'')
      else Inr (foldl (\<lambda>m u. m(username u \<mapsto> u)) Map.empty (pl_users c)))"

text \<open>\<open>verify\<close> is \<open>bcrypt::verify\<close>: an error, or whether the password fits the hash.\<close>

definition password_valid ::
  "(string \<Rightarrow> string \<Rightarrow> string + bool) \<Rightarrow> string \<Rightarrow> UserCredentials \<Rightarrow> AuthError + bool" where
  "password_valid verify pw user =
     (if starts_with (password user) ''$2'' then
        (case verify pw (password user) of
           Inl e \<Rightarrow> Inl (OAuthError (''Password verification failed: '' @ e))
         | Inr b \<Rightarrow> Inr b)
      else Inr (pw = password user))"

definition authenticate ::
  "(string \<Rightarrow> string \<Rightarrow> string + bool) \<Rightarrow> u64 \<Rightarrow> PlainLoginProvider \<Rightarrow> string \<Rightarrow> string \<Rightarrow>
   AuthError + SessionData" where
  "authenticate verify now users name pw =
     (case users name of
        None \<Rightarrow> Inl (OAuthError ''Invalid username or password'')
      | Some user \<Rightarrow>
          (case password_valid verify pw user of
             Inl e \<Rightarrow> Inl e
           | Inr ok \<Rightarrow>
               if \<not> ok then Inl (OAuthError ''Invalid username or password'')
               else Inr \<lparr>auth_provider = PlainLogin, user_id = ''local:'' @ name, sd_handle = name,
                         sd_display_name = uc_display_name user, groups = [], sd_created_at = now\<rparr>))"

subsection \<open>The service\<close>

record oauth_provider =
  start_auth :: "string option \<Rightarrow> AuthError + string \<times> OAuthTempState"
  complete_auth :: "string \<Rightarrow> OAuthTempState \<Rightarrow> AuthError + SessionData"

record AuthService =
  config :: AuthConfig
  oauth_temp_states :: "string \<rightharpoonup> OAuthTempState"
  bluesky_provider :: "oauth_provider option"
  github_provider :: "oauth_provider option"
  google_provider :: "oauth_provider option"
  linkedin_provider :: "oauth_provider option"
  plain_login_provider :: "PlainLoginProvider option"

definition is_enabled :: "AuthService \<Rightarrow> bool" where
  "is_enabled s = enable_auth (config s)"

definition has_enabled_providers :: "AuthService \<Rightarrow> bool" where
  "has_enabled_providers s =
     (let c = config s
      in enable_bluesky (oauth c) \<or> enable_github (oauth c) \<or> enable_google (oauth c) \<or>
         enable_linkedin (oauth c) \<or> pl_enabled (plain_login c))"

definition is_user_allowed :: "AuthService \<Rightarrow> string \<Rightarrow> bool" where
  "is_user_allowed s user_handle =
     (if allowed_users (config s) = [] then True
      else list_ex (\<lambda>allowed. allowed = user_handle) (allowed_users (config s)))"

definition authenticate_plain_login ::
  "(string \<Rightarrow> string \<Rightarrow> string + bool) \<Rightarrow> u64 \<Rightarrow> AuthService \<Rightarrow> string \<Rightarrow> string \<Rightarrow>
   AuthError + SessionData" where
  "authenticate_plain_login verify now s name pw =
     (case plain_login_provider s of
        None \<Rightarrow> Inl (ConfigError ''Plain login provider not enabled'')
      | Some users \<Rightarrow> authenticate verify now users name pw)"

definition store_oauth_temp_state :: "string \<Rightarrow> OAuthTempState \<Rightarrow> AuthService \<Rightarrow> AuthService" where
  "store_oauth_temp_state state_id st s = s\<lparr>oauth_temp_states := (oauth_temp_states s)(state_id \<mapsto> st)\<rparr>"

definition get_oauth_temp_state :: "string \<Rightarrow> AuthService \<Rightarrow> OAuthTempState option" where
  "get_oauth_temp_state state_id s = oauth_temp_states s state_id"

definition remove_oauth_temp_state :: "string \<Rightarrow> AuthService \<Rightarrow> AuthService" where
  "remove_oauth_temp_state state_id s = s\<lparr>oauth_temp_states := (oauth_temp_states s)(state_id := None)\<rparr>"

definition validate_session :: "u64 \<Rightarrow> AuthService \<Rightarrow> SessionData \<Rightarrow> (AuthError + unit) option" where
  "validate_session now s sd =
     do {
       expired \<leftarrow> session_is_expired now sd (timeout_seconds (session (config s)));
       Some (if expired then Inl SessionExpired else Inr ())
     }"

text \<open>\<open>retain\<close> panics when it meets a state from the future.\<close>

definition cleanup_expired_oauth_states :: "u64 \<Rightarrow> AuthService \<Rightarrow> AuthService option" where
  "cleanup_expired_oauth_states now s =
     (if \<exists>st \<in> ran (oauth_temp_states s). oauth_state_is_expired now st 600 = None then None
      else Some (s\<lparr>oauth_temp_states := (\<lambda>i.
        case oauth_temp_states s i of
          Some st \<Rightarrow> if oauth_state_is_expired now st 600 = Some True then None else Some st
        | None \<Rightarrow> None)\<rparr>))"

lemma session_is_expired_iff:
  "sd_created_at sd \<le> now \<Longrightarrow>
   session_is_expired now sd t = Some (unat (sd_created_at sd) + unat t < unat now)"
  by (simp add: session_is_expired_def sub_checked_def word_le_nat_alt word_less_nat_alt
      unat_sub less_diff_conv ac_simps)

subsection \<open>Cookies and the gate in front of the routes\<close>

record cookie =
  ck_name :: string
  ck_value :: string
  ck_path :: "string option"
  ck_http_only :: bool
  ck_same_site_lax :: bool
  ck_secure :: bool
  ck_max_age :: "i64 option"

record 'j jar_ops =
  jar_get :: "'j \<Rightarrow> string \<Rightarrow> string option"
  jar_add :: "'j \<Rightarrow> cookie \<Rightarrow> 'j"
  jar_remove :: "'j \<Rightarrow> string \<Rightarrow> 'j"

record json_codec =
  to_json :: "SessionData \<Rightarrow> string option"
  from_json :: "string \<Rightarrow> SessionData option"

definition extract_session_from_jar ::
  "'j jar_ops \<Rightarrow> json_codec \<Rightarrow> 'j \<Rightarrow> string \<Rightarrow> SessionData option" where
  "extract_session_from_jar ops codec jar name =
     do { v \<leftarrow> jar_get ops jar name; from_json codec v }"

text \<open>
  What the middleware does with the request: pass it on, with the session among the request's
  extensions, answer 403 to a user who is not allowed, or redirect.
\<close>

datatype gate = Next "SessionData option" | Forbidden string | RedirectTo string

definition require_auth ::
  "'j jar_ops \<Rightarrow> json_codec \<Rightarrow> u64 \<Rightarrow> AuthService \<Rightarrow> 'j option \<Rightarrow> gate option" where
  "require_auth ops codec now s jar_opt =
     (if \<not> is_enabled s then Some (Next None)
      else case jar_opt of
        None \<Rightarrow> Some (RedirectTo ''/auth/login'')
      | Some jar \<Rightarrow>
          (case extract_session_from_jar ops codec jar (cookie_name (session (config s))) of
             None \<Rightarrow> Some (RedirectTo ''/auth/login'')
           | Some sd \<Rightarrow>
               do {
                 r \<leftarrow> validate_session now s sd;
                 Some (case r of
                   Inl _ \<Rightarrow> RedirectTo ''/auth/login''
                 | Inr _ \<Rightarrow>
                     if \<not> is_user_allowed s (sd_handle sd) then Forbidden (sd_handle sd)
                     else Next (Some sd))
               }))"

definition optional_auth ::
  "'j jar_ops \<Rightarrow> json_codec \<Rightarrow> u64 \<Rightarrow> AuthService \<Rightarrow> 'j option \<Rightarrow> gate option" where
  "optional_auth ops codec now s jar_opt =
     (if \<not> is_enabled s then Some (Next None)
      else case jar_opt of
        None \<Rightarrow> Some (Next None)
      | Some jar \<Rightarrow>
          (case extract_session_from_jar ops codec jar (cookie_name (session (config s))) of
             None \<Rightarrow> Some (Next None)
           | Some sd \<Rightarrow>
               do {
                 r \<leftarrow> validate_session now s sd;
                 Some (case r of Inl _ \<Rightarrow> Next None | Inr _ \<Rightarrow> Next (Some sd))
               }))"

subsection \<open>Routes\<close>

definition OAUTH_STATE_COOKIE :: string where
  "OAUTH_STATE_COOKIE = ''oauth_state_id''"

definition create_session_cookie :: "json_codec \<Rightarrow> AuthService \<Rightarrow> SessionData \<Rightarrow> nat + cookie" where
  "create_session_cookie codec s sd =
     (case to_json codec sd of
        None \<Rightarrow> Inl 500
      | Some session_json \<Rightarrow>
          Inr \<lparr>ck_name = cookie_name (session (config s)), ck_value = session_json,
               ck_path = Some ''/'', ck_http_only = True, ck_same_site_lax = True,
               ck_secure = secure (session (config s)),
               ck_max_age = Some (timeout_seconds (session (config s)))\<rparr>)"

definition create_oauth_state_cookie :: "string \<Rightarrow> bool \<Rightarrow> cookie" where
  "create_oauth_state_cookie state_id sec =
     \<lparr>ck_name = OAUTH_STATE_COOKIE, ck_value = state_id, ck_path = Some ''/'', ck_http_only = True,
      ck_same_site_lax = True, ck_secure = sec, ck_max_age = Some 600\<rparr>"

text \<open>302 with a location, 303 with a location, or the JSON object with the login URL.\<close>

datatype route_response = Found string | SeeOther string | AuthUrlJson string

definition plain_login_route ::
  "'j jar_ops \<Rightarrow> json_codec \<Rightarrow> (string \<Rightarrow> string \<Rightarrow> string + bool) \<Rightarrow> u64 \<Rightarrow> AuthService \<Rightarrow> 'j \<Rightarrow>
   string \<Rightarrow> string \<Rightarrow> nat + 'j \<times> route_response" where
  "plain_login_route ops codec verify now s jar name pw =
     (case authenticate_plain_login verify now s name pw of
        Inl _ \<Rightarrow> Inl 401
      | Inr sd \<Rightarrow>
          (case create_session_cookie codec s sd of
             Inl e \<Rightarrow> Inl e
           | Inr ck \<Rightarrow> Inr (jar_add ops jar ck, Found ''/'')))"

definition logout :: "'j jar_ops \<Rightarrow> AuthService \<Rightarrow> 'j \<Rightarrow> 'j \<times> route_response" where
  "logout ops s jar =
     (jar_remove ops jar (cookie_name (session (config s))), Found ''/auth/login'')"

text \<open>
  The four login routes differ in the provider and in the response. \<open>state_id\<close> is the text of
  the fresh \<open>Uuid\<close>.
\<close>

definition oauth_login ::
  "'j jar_ops \<Rightarrow> oauth_provider option \<Rightarrow> string \<Rightarrow> string option \<Rightarrow> (string \<Rightarrow> route_response) \<Rightarrow>
   string \<Rightarrow> AuthService \<Rightarrow> 'j \<Rightarrow> AuthService \<times> (nat + 'j \<times> route_response)" where
  "oauth_login ops provider provider_name handle respond state_id s jar =
     (case (case provider of
              None \<Rightarrow> Inl (ConfigError (provider_name @ '' provider not enabled''))
            | Some p \<Rightarrow> start_auth p handle) of
        Inl e \<Rightarrow> (s, Inl (status_of e))
      | Inr (url, temp_state) \<Rightarrow>
          (store_oauth_temp_state state_id temp_state s,
           Inr (jar_add ops jar (create_oauth_state_cookie state_id (secure (session (config s)))),
                respond url)))"

definition bluesky_login ::
  "'j jar_ops \<Rightarrow> string \<Rightarrow> string \<Rightarrow> AuthService \<Rightarrow> 'j \<Rightarrow> AuthService \<times> (nat + 'j \<times> route_response)" where
  "bluesky_login ops handle state_id s jar =
     oauth_login ops (bluesky_provider s) ''Bluesky'' (Some handle) AuthUrlJson state_id s jar"

definition github_login ::
  "'j jar_ops \<Rightarrow> string \<Rightarrow> AuthService \<Rightarrow> 'j \<Rightarrow> AuthService \<times> (nat + 'j \<times> route_response)" where
  "github_login ops state_id s jar = oauth_login ops (github_provider s) ''GitHub'' None Found state_id s jar"

definition google_login ::
  "'j jar_ops \<Rightarrow> string \<Rightarrow> AuthService \<Rightarrow> 'j \<Rightarrow> AuthService \<times> (nat + 'j \<times> route_response)" where
  "google_login ops state_id s jar = oauth_login ops (google_provider s) ''Google'' None Found state_id s jar"

definition linkedin_login ::
  "'j jar_ops \<Rightarrow> string \<Rightarrow> AuthService \<Rightarrow> 'j \<Rightarrow> AuthService \<times> (nat + 'j \<times> route_response)" where
  "linkedin_login ops state_id s jar =
     oauth_login ops (linkedin_provider s) ''LinkedIn'' None Found state_id s jar"

record AuthCallback =
  cb_code :: "string option"
  cb_state :: "string option"
  cb_error :: "string option"
  cb_error_description :: "string option"

definition oauth_callback ::
  "'j jar_ops \<Rightarrow> json_codec \<Rightarrow> oauth_provider option \<Rightarrow> string \<Rightarrow> string \<Rightarrow> AuthCallback \<Rightarrow>
   AuthService \<Rightarrow> 'j \<Rightarrow> AuthService \<times> (nat + 'j \<times> route_response)" where
  "oauth_callback ops codec provider provider_name failed query s jar =
     (case cb_error query of
        Some _ \<Rightarrow> (s, Inr (jar, SeeOther failed))
      | None \<Rightarrow>
     (case cb_code query of
        None \<Rightarrow> (s, Inl 400)
      | Some code \<Rightarrow>
     (case jar_get ops jar OAUTH_STATE_COOKIE of
        None \<Rightarrow> (s, Inl 401)
      | Some state_id \<Rightarrow>
     (case get_oauth_temp_state state_id s of
        None \<Rightarrow> (s, Inl 401)
      | Some temp_state \<Rightarrow>
     (case (case provider of
              None \<Rightarrow> Inl (ConfigError (provider_name @ '' provider not enabled''))
            | Some p \<Rightarrow> complete_auth p code temp_state) of
        Inl e \<Rightarrow> (s, Inl (status_of e))
      | Inr sd \<Rightarrow>
          (let s' = remove_oauth_temp_state state_id s
           in case create_session_cookie codec s' sd of
                Inl e \<Rightarrow> (s', Inl e)
              | Inr ck \<Rightarrow>
                  (s', Inr (jar_add ops (jar_remove ops jar OAUTH_STATE_COOKIE) ck, SeeOther ''/''))))))))"

definition bluesky_callback ::
  "'j jar_ops \<Rightarrow> json_codec \<Rightarrow> AuthCallback \<Rightarrow> AuthService \<Rightarrow> 'j \<Rightarrow> AuthService \<times> (nat + 'j \<times> route_response)" where
  "bluesky_callback ops codec query s jar =
     oauth_callback ops codec (bluesky_provider s) ''Bluesky'' ''/auth/login?error=bluesky_auth_failed'' query s jar"

definition github_callback ::
  "'j jar_ops \<Rightarrow> json_codec \<Rightarrow> AuthCallback \<Rightarrow> AuthService \<Rightarrow> 'j \<Rightarrow> AuthService \<times> (nat + 'j \<times> route_response)" where
  "github_callback ops codec query s jar =
     oauth_callback ops codec (github_provider s) ''GitHub'' ''/auth/login?error=github_auth_failed'' query s jar"

definition google_callback ::
  "'j jar_ops \<Rightarrow> json_codec \<Rightarrow> AuthCallback \<Rightarrow> AuthService \<Rightarrow> 'j \<Rightarrow> AuthService \<times> (nat + 'j \<times> route_response)" where
  "google_callback ops codec query s jar =
     oauth_callback ops codec (google_provider s) ''Google'' ''/auth/login?error=google_auth_failed'' query s jar"

definition linkedin_callback ::
  "'j jar_ops \<Rightarrow> json_codec \<Rightarrow> AuthCallback \<Rightarrow> AuthService \<Rightarrow> 'j \<Rightarrow> AuthService \<times> (nat + 'j \<times> route_response)" where
  "linkedin_callback ops codec query s jar =
     oauth_callback ops codec (linkedin_provider s) ''LinkedIn'' ''/auth/login?error=linkedin_auth_failed'' query s jar"

subsection \<open>Logging in and out\<close>

text \<open>
  The documented behaviour of the third-party parts: a jar returns the last cookie added under a
  name until it is removed, and JSON text decodes to the value it was made from.
\<close>

definition jar_laws :: "'j jar_ops \<Rightarrow> bool" where
  "jar_laws ops \<longleftrightarrow>
     (\<forall>j c n. jar_get ops (jar_add ops j c) n = (if n = ck_name c then Some (ck_value c) else jar_get ops j n)) \<and>
     (\<forall>j m n. jar_get ops (jar_remove ops j m) n = (if n = m then None else jar_get ops j n))"

definition codec_law :: "json_codec \<Rightarrow> bool" where
  "codec_law codec \<longleftrightarrow> (\<forall>sd v. to_json codec sd = Some v \<longrightarrow> from_json codec v = Some sd)"

lemma jar_get_simps [simp]:
  "jar_laws ops \<Longrightarrow> jar_get ops (jar_add ops j c) n = (if n = ck_name c then Some (ck_value c) else jar_get ops j n)"
  "jar_laws ops \<Longrightarrow> jar_get ops (jar_remove ops j m) n = (if n = m then None else jar_get ops j n)"
  by (simp_all add: jar_laws_def)

lemma validate_session_iff:
  "sd_created_at sd \<le> now \<Longrightarrow>
   validate_session now s sd =
     Some (if unat (sd_created_at sd) + unat (timeout_seconds (session (config s))) < unat now
           then Inl SessionExpired else Inr ())"
  by (simp add: validate_session_def session_is_expired_iff)

lemma authenticate_Inr_iff:
  "authenticate verify now users name pw = Inr sd \<longleftrightarrow>
     (\<exists>u. users name = Some u \<and> password_valid verify pw u = Inr True \<and>
        sd = \<lparr>auth_provider = PlainLogin, user_id = ''local:'' @ name, sd_handle = name,
              sd_display_name = uc_display_name u, groups = [], sd_created_at = now\<rparr>)"
  by (auto simp: authenticate_def split: option.splits sum.splits)

lemma plain_login_route_Inr:
  assumes "plain_login_route ops codec verify now s jar name pw = Inr (jar', resp)"
  obtains users sd v where
    "plain_login_provider s = Some users" "authenticate verify now users name pw = Inr sd"
    "to_json codec sd = Some v" "resp = Found ''/''"
    "jar' = jar_add ops jar \<lparr>ck_name = cookie_name (session (config s)), ck_value = v,
       ck_path = Some ''/'', ck_http_only = True, ck_same_site_lax = True,
       ck_secure = secure (session (config s)), ck_max_age = Some (timeout_seconds (session (config s)))\<rparr>"
  using assms
  by (auto simp: plain_login_route_def authenticate_plain_login_def create_session_cookie_def
      split: option.splits sum.splits)

lemma fold_users:
  "foldl (\<lambda>m u. m(username u \<mapsto> u)) m us name =
     (case find (\<lambda>u. username u = name) (rev us) of Some u \<Rightarrow> Some u | None \<Rightarrow> m name)"
proof (induction us rule: rev_induct)
  case (snoc u us)
  then show ?case by (auto simp: find_Some_iff2 split: option.splits)
qed simp

text \<open>
  C18. A successful plain login opens the protected routes to exactly the user who logged in,
  and exactly as long as the configured timeout: the middleware passes the request on with that
  user's session, marked with the login time, until more than the timeout has passed, then
  redirects to the login page; it never panics. After a logout it redirects at once.
\<close>

theorem login_grants_until_timeout:
  assumes "jar_laws ops" and "codec_law codec" and "is_enabled s" and "is_user_allowed s name"
    and "plain_login_route ops codec verify t s jar name pw = Inr (jar', resp)" and "t \<le> now"
  shows "\<exists>sd. sd_handle sd = name \<and> sd_created_at sd = t \<and> auth_provider sd = PlainLogin \<and>
      require_auth ops codec now s (Some jar') =
        Some (if unat now - unat t \<le> unat (timeout_seconds (session (config s)))
              then Next (Some sd) else RedirectTo ''/auth/login'') \<and>
      require_auth ops codec now s (Some (fst (logout ops s jar'))) = Some (RedirectTo ''/auth/login'')"
proof -
  from assms(5) obtain users sd v where l: "plain_login_provider s = Some users"
    "authenticate verify t users name pw = Inr sd" "to_json codec sd = Some v"
    and jar': "jar' = jar_add ops jar \<lparr>ck_name = cookie_name (session (config s)), ck_value = v,
       ck_path = Some ''/'', ck_http_only = True, ck_same_site_lax = True,
       ck_secure = secure (session (config s)), ck_max_age = Some (timeout_seconds (session (config s)))\<rparr>"
    by (rule plain_login_route_Inr)
  from l(2) have sd: "sd_handle sd = name" "sd_created_at sd = t" "auth_provider sd = PlainLogin"
    by (auto simp: authenticate_Inr_iff)
  have "from_json codec v = Some sd" using assms(2) l(3) by (simp add: codec_law_def)
  then have "extract_session_from_jar ops codec jar' (cookie_name (session (config s))) = Some sd"
    using assms(1) by (simp add: extract_session_from_jar_def jar')
  moreover have "extract_session_from_jar ops codec (fst (logout ops s jar'))
      (cookie_name (session (config s))) = None"
    using assms(1) by (simp add: extract_session_from_jar_def logout_def)
  ultimately show ?thesis
    using assms(3,4,6) sd
    by (intro exI [of _ sd]) (auto simp: require_auth_def validate_session_iff)
qed

text \<open>A jar that is a plain map, and a codec for one session, to run the routes on.\<close>

definition map_jar :: "(string \<Rightarrow> string option) jar_ops" where
  "map_jar = \<lparr>jar_get = (\<lambda>j n. j n), jar_add = (\<lambda>j c. j(ck_name c \<mapsto> ck_value c)),
     jar_remove = (\<lambda>j n. j(n := None))\<rparr>"

definition one_session_codec :: "SessionData \<Rightarrow> json_codec" where
  "one_session_codec sd = \<lparr>to_json = (\<lambda>x. if x = sd then Some ''s'' else None),
     from_json = (\<lambda>v. if v = ''s'' then Some sd else None)\<rparr>"

lemma map_jar_laws [simp]: "jar_laws map_jar"
  by (simp add: jar_laws_def map_jar_def)

lemma one_session_codec_law [simp]: "codec_law (one_session_codec sd)"
  by (simp add: codec_law_def one_session_codec_def)

definition sample_user :: UserCredentials where
  "sample_user = \<lparr>username = ''ann'', password = ''pw'', uc_display_name = None\<rparr>"

definition sample_session_data :: SessionData where
  "sample_session_data = \<lparr>auth_provider = PlainLogin, user_id = ''local:ann'', sd_handle = ''ann'',
     sd_display_name = None, groups = [], sd_created_at = 1000\<rparr>"

definition sample_service :: AuthService where
  "sample_service = \<lparr>config = default_auth_config\<lparr>enable_auth := True\<rparr>, oauth_temp_states = Map.empty,
     bluesky_provider = None, github_provider = None, google_provider = None,
     linkedin_provider = None, plain_login_provider = Some [''ann'' \<mapsto> sample_user]\<rparr>"

lemma sample_login:
  "plain_login_route map_jar (one_session_codec sample_session_data) (\<lambda>_ _. Inr False) 1000
     sample_service Map.empty ''ann'' ''pw'' = Inr ([''session_id'' \<mapsto> ''s''], Found ''/'')"
  by (simp add: plain_login_route_def authenticate_plain_login_def authenticate_def
      password_valid_def starts_with_def sample_user_def sample_service_def sample_session_data_def
      create_session_cookie_def one_session_codec_def map_jar_def default_auth_config_def)

theorem login_grants_until_timeout_witness:
  "\<exists>sd. sd_handle sd = ''ann'' \<and>
     require_auth map_jar (one_session_codec sample_session_data) 87400 sample_service
       (Some [''session_id'' \<mapsto> ''s'']) = Some (Next (Some sd))"
  using login_grants_until_timeout [of map_jar "one_session_codec sample_session_data" sample_service
      "''ann''" "\<lambda>_ _. Inr False" 1000 Map.empty "''pw''" _ _ 87400, OF _ _ _ _ sample_login]
  by (auto simp: is_enabled_def is_user_allowed_def sample_service_def default_auth_config_def)



subsection \<open>OAuth flows\<close>

text \<open>The requests that reach the OAuth routes, with the jar each one brings.\<close>

datatype 'j oauth_request =
    LoginRequest AuthProvider string string 'j
  | CallbackRequest AuthProvider AuthCallback 'j

fun oauth_route ::
  "'j jar_ops \<Rightarrow> json_codec \<Rightarrow> 'j oauth_request \<Rightarrow> AuthService \<Rightarrow> AuthService \<times> (nat + 'j \<times> route_response)" where
  "oauth_route ops codec (LoginRequest p handle state_id jar) s =
     (case p of
        Bluesky \<Rightarrow> bluesky_login ops handle state_id s jar
      | GitHub \<Rightarrow> github_login ops state_id s jar
      | Google \<Rightarrow> google_login ops state_id s jar
      | LinkedIn \<Rightarrow> linkedin_login ops state_id s jar
      | PlainLogin \<Rightarrow> (s, Inl 404))"
| "oauth_route ops codec (CallbackRequest p query jar) s =
     (case p of
        Bluesky \<Rightarrow> bluesky_callback ops codec query s jar
      | GitHub \<Rightarrow> github_callback ops codec query s jar
      | Google \<Rightarrow> google_callback ops codec query s jar
      | LinkedIn \<Rightarrow> linkedin_callback ops codec query s jar
      | PlainLogin \<Rightarrow> (s, Inl 404))"

inductive oauth_run ::
  "'j jar_ops \<Rightarrow> json_codec \<Rightarrow> AuthService \<Rightarrow> ('j oauth_request \<times> (nat + 'j \<times> route_response)) list \<Rightarrow>
   AuthService \<Rightarrow> bool"
  for ops codec s0 where
  run_start: "oauth_run ops codec s0 [] s0"
| run_request:
    "oauth_run ops codec s0 (tr @ [(req, r)]) s'"
    if "oauth_run ops codec s0 tr s" and "oauth_route ops codec req s = (s', r)"

inductive_cases oauth_run_snocE: "oauth_run ops codec s0 (tr @ [x]) s'"

text \<open>
  \<open>issued i\<close>: a login that was answered with the state id \<open>i\<close>. \<open>redeemed ops i\<close>: a callback
  that presented \<open>i\<close> in its cookie and got a session.
\<close>

fun issued :: "string \<Rightarrow> 'j oauth_request \<times> (nat + 'j \<times> route_response) \<Rightarrow> bool" where
  "issued i (LoginRequest p handle state_id jar, Inr _) \<longleftrightarrow> state_id = i"
| "issued i _ \<longleftrightarrow> False"

fun redeemed :: "'j jar_ops \<Rightarrow> string \<Rightarrow> 'j oauth_request \<times> (nat + 'j \<times> route_response) \<Rightarrow> bool" where
  "redeemed ops i (CallbackRequest p query jar, Inr (_, SeeOther url)) \<longleftrightarrow>
     url = ''/'' \<and> jar_get ops jar OAUTH_STATE_COOKIE = Some i"
| "redeemed ops i _ \<longleftrightarrow> False"

definition held :: "string \<Rightarrow> AuthService \<Rightarrow> nat" where
  "held i s = (if oauth_temp_states s i = None then 0 else 1)"

lemmas oauth_state_defs =
  store_oauth_temp_state_def remove_oauth_temp_state_def get_oauth_temp_state_def

lemmas login_defs = bluesky_login_def github_login_def google_login_def linkedin_login_def

lemmas callback_defs =
  bluesky_callback_def github_callback_def google_callback_def linkedin_callback_def

lemma oauth_login_held:
  assumes "oauth_login ops prov pname h respond sid s jar = (s', r)"
  shows "held i s' \<le> held i s + (if \<not> isl r \<and> sid = i then 1 else 0)"
  using assms by (auto simp: oauth_login_def held_def oauth_state_defs split: sum.splits prod.splits)

lemma oauth_callback_held:
  assumes "oauth_callback ops codec prov pname failed query s jar = (s', r)"
  shows "held i s' \<le> held i s"
    and "r = Inr (jar', SeeOther ''/'') \<Longrightarrow> failed \<noteq> ''/'' \<Longrightarrow>
      jar_get ops jar OAUTH_STATE_COOKIE = Some i \<Longrightarrow> held i s' = 0 \<and> held i s = 1"
  using assms
  by (auto simp: oauth_callback_def held_def oauth_state_defs Let_def
      split: option.splits sum.splits if_splits)

lemma oauth_route_held:
  assumes "oauth_route ops codec req s = (s', r)"
  shows "(if redeemed ops i (req, r) then 1 else 0) + held i s' \<le>
    held i s + (if issued i (req, r) then 1 else 0)"
proof (cases req)
  case (LoginRequest p h sid jar)
  show ?thesis
  proof (cases "p = PlainLogin")
    case True
    with assms LoginRequest show ?thesis by auto
  next
    case False
    with assms LoginRequest obtain prov pname h' respond where
      "oauth_login ops prov pname h' respond sid s jar = (s', r)"
      by (cases p) (auto simp: login_defs)
    from oauth_login_held [OF this, of i] LoginRequest show ?thesis by (cases r) auto
  qed
next
  case (CallbackRequest p query jar)
  show ?thesis
  proof (cases "p = PlainLogin")
    case True
    with assms CallbackRequest show ?thesis by auto
  next
    case False
    with assms CallbackRequest have "\<exists>prov pname failed.
        oauth_callback ops codec prov pname failed query s jar = (s', r) \<and> failed \<noteq> ''/''"
      by (cases p)
        (auto simp: callback_defs intro: exI [of _ "bluesky_provider s"] exI [of _ "github_provider s"]
          exI [of _ "google_provider s"] exI [of _ "linkedin_provider s"]
          exI [of _ "''/auth/login?error=bluesky_auth_failed''"]
          exI [of _ "''/auth/login?error=github_auth_failed''"]
          exI [of _ "''/auth/login?error=google_auth_failed''"]
          exI [of _ "''/auth/login?error=linkedin_auth_failed''"])
    then obtain prov pname failed where failed: "failed \<noteq> ''/''"
      and cb: "oauth_callback ops codec prov pname failed query s jar = (s', r)" by blast
    show ?thesis
    proof (cases "redeemed ops i (req, r)")
      case True
      with CallbackRequest obtain jar' where
        "r = Inr (jar', SeeOther ''/'')" "jar_get ops jar OAUTH_STATE_COOKIE = Some i"
        by (cases "(ops, i, req, r)" rule: redeemed.cases) auto
      from oauth_callback_held(2) [OF cb this(1) failed this(2)] True show ?thesis by simp
    next
      case False
      with oauth_callback_held(1) [OF cb, of i] show ?thesis by simp
    qed
  qed
qed

lemma oauth_run_balance:
  "oauth_run ops codec s0 tr s \<Longrightarrow>
   length (filter (redeemed ops i) tr) + held i s \<le> held i s0 + length (filter (issued i) tr)"
proof (induction rule: oauth_run.induct)
  case (run_request tr s req s' r)
  from oauth_route_held [OF run_request.hyps(2), of i] run_request.IH
  show ?case by (simp split: if_splits)
qed simp


definition sample_oauth :: AuthService where
  "sample_oauth = sample_service\<lparr>github_provider := Some
     \<lparr>start_auth = (\<lambda>_. Inr (''https://x'', \<lparr>ot_auth_provider = GitHub, ot_handle = None, user_did = None,
        pkce_verifier = None, oauth_endpoints = None, dpop_private_key = None, ot_created_at = 1\<rparr>)),
      complete_auth = (\<lambda>_ _. Inr sample_session_data)\<rparr>\<rparr>"

definition sample_query :: AuthCallback where
  "sample_query = \<lparr>cb_code = Some ''c'', cb_state = None, cb_error = None, cb_error_description = None\<rparr>"


end
