(* ===== verification/Auth_Cache.thy ===== *)
theory Auth_Cache
  imports Interfaces
begin

text \<open>
  \<open>server/src/auth_cache.rs\<close>: the cache of authenticated addresses that admits iperf3 clients.
  \<open>Instant::now\<close> is the argument \<open>now\<close>; the lock is never poisoned because no method panics
  while it holds it.
\<close>

fun normalize_ip :: "ip_addr \<Rightarrow> ip_addr" where
  "normalize_ip (V6 v6) = (case to_ipv4_mapped v6 of Some v4 \<Rightarrow> V4 v4 | None \<Rightarrow> V6 v6)"
| "normalize_ip (V4 v4) = V4 v4"

record AuthenticatedAddress =
  aa_ip :: ip_addr
  aa_user_id :: string
  aa_display_name :: "string option"
  last_authenticated :: nat
  auth_source :: string

record AuthAddressCache =
  auth_cache :: "(ip_addr \<times> AuthenticatedAddress) list"
  auth_timeout :: nat

definition seconds :: "nat \<Rightarrow> nat" where
  "seconds n = n * 1000000000"

definition new_auth_cache :: "u64 \<Rightarrow> AuthAddressCache" where
  "new_auth_cache timeout_secs = \<lparr>auth_cache = [], auth_timeout = seconds (unat timeout_secs)\<rparr>"

definition record_auth ::
  "nat \<Rightarrow> ip_addr \<Rightarrow> string \<Rightarrow> string option \<Rightarrow> string \<Rightarrow> AuthAddressCache \<Rightarrow> AuthAddressCache" where
  "record_auth now ip user_id display_name source c =
     c\<lparr>auth_cache := al_put (normalize_ip ip)
        \<lparr>aa_ip = normalize_ip ip, aa_user_id = user_id, aa_display_name = display_name,
         last_authenticated = now, auth_source = source\<rparr> (auth_cache c)\<rparr>"

definition refresh_auth :: "nat \<Rightarrow> ip_addr \<Rightarrow> AuthAddressCache \<Rightarrow> bool \<times> AuthAddressCache" where
  "refresh_auth now ip c =
     (case map_of (auth_cache c) (normalize_ip ip) of
        Some entry \<Rightarrow>
          (True, c\<lparr>auth_cache := al_put (normalize_ip ip) (entry\<lparr>last_authenticated := now\<rparr>) (auth_cache c)\<rparr>)
      | None \<Rightarrow> (False, c))"

definition check_auth :: "nat \<Rightarrow> ip_addr \<Rightarrow> AuthAddressCache \<Rightarrow> AuthenticatedAddress option" where
  "check_auth now ip c =
     (case map_of (auth_cache c) (normalize_ip ip) of
        Some entry \<Rightarrow> if now - last_authenticated entry < auth_timeout c then Some entry else None
      | None \<Rightarrow> None)"

definition is_authenticated :: "nat \<Rightarrow> ip_addr \<Rightarrow> AuthAddressCache \<Rightarrow> bool" where
  "is_authenticated now ip c \<longleftrightarrow> check_auth now ip c \<noteq> None"

definition auth_cleanup_expired :: "nat \<Rightarrow> AuthAddressCache \<Rightarrow> AuthAddressCache" where
  "auth_cleanup_expired now c =
     c\<lparr>auth_cache := filter (\<lambda>(k, entry). now - last_authenticated entry < auth_timeout c) (auth_cache c)\<rparr>"

definition get_all_valid :: "nat \<Rightarrow> AuthAddressCache \<Rightarrow> AuthenticatedAddress list" where
  "get_all_valid now c =
     filter (\<lambda>entry. now - last_authenticated entry < auth_timeout c) (map snd (auth_cache c))"

subsection \<open>Histories\<close>

text \<open>
  The operations of a run with their times. The specification reads the history alone: an
  address is admitted when its newest record or effective refresh is younger than the timeout.
\<close>

datatype auth_op =
    RecordAuth nat ip_addr string "string option" string
  | RefreshAuth nat ip_addr
  | CleanupAuth nat

fun auth_turn :: "auth_op \<Rightarrow> AuthAddressCache \<Rightarrow> AuthAddressCache" where
  "auth_turn (RecordAuth now ip u d s) c = record_auth now ip u d s c"
| "auth_turn (RefreshAuth now ip) c = snd (refresh_auth now ip c)"
| "auth_turn (CleanupAuth now) c = auth_cleanup_expired now c"

fun op_time :: "auth_op \<Rightarrow> nat" where
  "op_time (RecordAuth now _ _ _ _) = now"
| "op_time (RefreshAuth now _) = now"
| "op_time (CleanupAuth now) = now"

definition run_auth :: "auth_op list \<Rightarrow> AuthAddressCache \<Rightarrow> AuthAddressCache" where
  "run_auth ops c = foldl (\<lambda>c op. auth_turn op c) c ops"

fun records :: "ip_addr \<Rightarrow> auth_op \<Rightarrow> bool" where
  "records k (RecordAuth now ip u d s) \<longleftrightarrow> normalize_ip ip = k"
| "records k _ \<longleftrightarrow> False"

fun touches :: "ip_addr \<Rightarrow> auth_op \<Rightarrow> bool" where
  "touches k (RecordAuth now ip u d s) \<longleftrightarrow> normalize_ip ip = k"
| "touches k (RefreshAuth now ip) \<longleftrightarrow> normalize_ip ip = k"
| "touches k (CleanupAuth now) \<longleftrightarrow> False"

lemma run_auth_snoc [simp]: "run_auth (ops @ [op]) c = auth_turn op (run_auth ops c)"
  by (simp add: run_auth_def)

lemma run_auth_Nil [simp]: "run_auth [] c = c"
  by (simp add: run_auth_def)

lemma auth_timeout_turn [simp]: "auth_timeout (auth_turn op c) = auth_timeout c"
  by (cases op) (auto simp: record_auth_def refresh_auth_def auth_cleanup_expired_def split: option.splits)

lemma auth_timeout_run [simp]: "auth_timeout (run_auth ops c) = auth_timeout c"
  by (induction ops rule: rev_induct) simp_all

lemma map_of_filter_value:
  "map_of (filter (\<lambda>(k, v). P v) m) k = Some v \<Longrightarrow> distinct (map fst m) \<Longrightarrow> map_of m k = Some v \<and> P v"
  by (induction m) (auto simp: image_iff split: if_splits dest: map_of_SomeD)

lemma map_of_filter_keep:
  "map_of m k = Some v \<Longrightarrow> P v \<Longrightarrow> map_of (filter (\<lambda>(k, v). P v) m) k = Some v"
  by (induction m) (auto split: if_splits)

lemma distinct_auth_turn:
  "distinct (al_keys (auth_cache c)) \<Longrightarrow> distinct (al_keys (auth_cache (auth_turn op c)))"
proof (cases op)
  case (CleanupAuth now)
  assume "distinct (al_keys (auth_cache c))"
  with CleanupAuth show ?thesis
    by (simp add: auth_cleanup_expired_def al_keys_def distinct_map_filter)
qed (auto simp: record_auth_def refresh_auth_def al_keys_put split: option.splits)

lemma distinct_run_auth:
  "distinct (al_keys (auth_cache (run_auth ops (new_auth_cache n))))"
  by (induction ops rule: rev_induct) (simp_all add: distinct_auth_turn new_auth_cache_def al_keys_def [of "[]"])

lemma auth_entry_origin:
  assumes "map_of (auth_cache (run_auth ops (new_auth_cache n))) k = Some e"
  shows "(\<exists>op \<in> set ops. records k op) \<and>
    (\<exists>op \<in> set ops. touches k op \<and> op_time op = last_authenticated e)"
  using assms
proof (induction ops arbitrary: e rule: rev_induct)
  case Nil
  then show ?case by (simp add: new_auth_cache_def)
next
  case (snoc op ops)
  let ?c = "run_auth ops (new_auth_cache n)"
  show ?case
  proof (cases op)
    case (RecordAuth t ip u d s)
    with snoc show ?thesis by (auto simp: record_auth_def split: if_splits)
  next
    case (RefreshAuth t ip)
    with snoc.prems snoc.IH show ?thesis
      by (cases "map_of (auth_cache ?c) (normalize_ip ip)")
        (auto simp: refresh_auth_def split: if_splits)
  next
    case (CleanupAuth t)
    with snoc.prems distinct_run_auth [of ops n] have "map_of (auth_cache ?c) k = Some e"
      by (auto simp: auth_cleanup_expired_def al_keys_def dest: map_of_filter_value)
    with snoc.IH show ?thesis by auto
  qed
qed

definition recorded :: "nat \<Rightarrow> ip_addr \<Rightarrow> string \<Rightarrow> string option \<Rightarrow> string \<Rightarrow> AuthenticatedAddress" where
  "recorded t ip u d src = \<lparr>aa_ip = normalize_ip ip, aa_user_id = u, aa_display_name = d,
     last_authenticated = t, auth_source = src\<rparr>"

lemma auth_entry_kept:
  assumes "map_of (auth_cache c) k = Some e" and "\<forall>op \<in> set ops. \<not> touches k op \<and> op_time op \<le> now"
    and "now - last_authenticated e < auth_timeout c"
  shows "map_of (auth_cache (run_auth ops c)) k = Some e"
  using assms(2)
proof (induction ops rule: rev_induct)
  case Nil
  then show ?case using assms(1) by simp
next
  case (snoc op ops)
  then have held: "map_of (auth_cache (run_auth ops c)) k = Some e" by simp
  show ?case
  proof (cases op)
    case (CleanupAuth t)
    with snoc.prems assms(3) have "t - last_authenticated e < auth_timeout (run_auth ops c)" by auto
    with CleanupAuth held show ?thesis
      by (simp add: auth_cleanup_expired_def map_of_filter_keep)
  qed (use snoc.prems held in \<open>auto simp: record_auth_def refresh_auth_def split: option.splits\<close>)
qed

text \<open>The cache is an expiring table: sweeping it is not observable by the checks.\<close>

definition cache_ok :: "AuthAddressCache \<Rightarrow> bool" where
  "cache_ok c \<longleftrightarrow> distinct (al_keys (auth_cache c))"

definition put_auth :: "nat \<Rightarrow> ip_addr \<Rightarrow> string \<times> string option \<times> string \<Rightarrow> AuthAddressCache \<Rightarrow> AuthAddressCache" where
  "put_auth t ip v c = record_auth t ip (fst v) (fst (snd v)) (snd (snd v)) c"

lemma map_of_filter_distinct:
  assumes "distinct (map fst m)"
  shows "map_of (filter (\<lambda>(k, v). P v) m) k =
    (case map_of m k of None \<Rightarrow> None | Some v \<Rightarrow> if P v then Some v else None)"
  using assms
proof (induction m)
  case (Cons x m)
  have "fst x \<notin> set (map fst (filter (\<lambda>(k, v). P v) m))" using Cons.prems by (auto simp: image_iff)
  then have "map_of (filter (\<lambda>(k, v). P v) m) (fst x) = None" by (simp add: map_of_eq_None_iff image_set)
  with Cons show ?case by (cases x) auto
qed simp

lemma check_auth_swept:
  assumes "cache_ok c" and "t \<le> now"
  shows "check_auth now ip (auth_cleanup_expired t c) = check_auth now ip c"
proof -
  have "distinct (map fst (auth_cache c))" using assms(1) by (simp add: cache_ok_def al_keys_def)
  from map_of_filter_distinct [OF this, of "\<lambda>e. t - last_authenticated e < auth_timeout c"] assms(2)
  show ?thesis
    by (auto simp: check_auth_def auth_cleanup_expired_def split: option.split)
qed

interpretation auth: expiring_table cache_ok auth_timeout "\<lambda>k j. normalize_ip k = normalize_ip j"
  "\<lambda>t k v. recorded t k (fst v) (fst (snd v)) (snd (snd v))" put_auth auth_cleanup_expired check_auth
proof
  fix c t ip v now j
  show "cache_ok c \<Longrightarrow> cache_ok (put_auth t ip v c)"
    by (simp add: cache_ok_def put_auth_def record_auth_def al_keys_put)
  show "cache_ok c \<Longrightarrow> cache_ok (auth_cleanup_expired t c)"
    by (simp add: cache_ok_def auth_cleanup_expired_def al_keys_def distinct_map_filter)
  show "auth_timeout (put_auth t ip v c) = auth_timeout c" by (simp add: put_auth_def record_auth_def)
  show "auth_timeout (auth_cleanup_expired t c) = auth_timeout c" by (simp add: auth_cleanup_expired_def)
  show "check_auth now j (put_auth t ip v c) =
    (if normalize_ip ip = normalize_ip j
     then if now - t < auth_timeout c then Some (recorded t ip (fst v) (fst (snd v)) (snd (snd v))) else None
     else check_auth now j c)"
    by (simp add: check_auth_def put_auth_def record_auth_def recorded_def split: option.split)
  show "cache_ok c \<Longrightarrow> t \<le> now \<Longrightarrow> check_auth now j (auth_cleanup_expired t c) = check_auth now j c"
    by (rule check_auth_swept)
qed



end
