(* ===== verification/Survey_Session.thy ===== *)
theory Survey_Session
  imports Auth_Service Auth_Cache
begin

text \<open>
  Access by login or by magic key: \<open>server/src/auth_handlers.rs\<close>,
  \<open>server/src/survey_middleware.rs\<close> and the key extraction of \<open>server/src/data_channels.rs\<close>.
  The middleware repeats the cookie and session functions of the handlers word for word, so they
  are modelled once. \<open>now\<close> is the Unix time in seconds; the text of the fresh \<open>Uuid\<close> and
  \<open>HeaderValue::to_str\<close> are arguments.
\<close>

subsection \<open>Cookies\<close>

definition collect_all_cookies :: "('v \<Rightarrow> string option) \<Rightarrow> 'v list \<Rightarrow> string" where
  "collect_all_cookies to_str values =
     foldl (\<lambda>acc s. (if acc \<noteq> [] then acc @ ''; '' else acc) @ s) [] (List.map_filter to_str values)"

fun find_map :: "('a \<Rightarrow> 'b option) \<Rightarrow> 'a list \<Rightarrow> 'b option" where
  "find_map f [] = None"
| "find_map f (x # xs) = (case f x of Some y \<Rightarrow> Some y | None \<Rightarrow> find_map f xs)"

definition extract_session_id :: "string \<Rightarrow> string \<Rightarrow> string option" where
  "extract_session_id cookie_str name =
     find_map (\<lambda>cookie.
       let parts = split_on CHR ''='' (trim cookie)
       in if length parts = 2 \<and> parts ! 0 = name then Some (parts ! 1) else None)
     (split_on CHR '';'' cookie_str)"

subsection \<open>Survey session ids\<close>

definition validate_survey_session :: "u64 \<Rightarrow> string \<Rightarrow> MagicKeyConfig \<Rightarrow> bool" where
  "validate_survey_session now session_id cfg =
     (if \<not> starts_with session_id ''survey_'' then False
      else let parts = split_on CHR ''_'' session_id
      in if length parts < 4 then False
      else case parse_u64 (parts ! (length parts - 2)) of
        None \<Rightarrow> False
      | Some timestamp \<Rightarrow>
          if survey_timeout_seconds cfg < saturating_sub now timestamp then False
          else join ''-'' (drop 1 (take (length parts - 2) parts)) \<in> set (magic_keys cfg))"

definition extract_magic_key_from_session :: "string \<Rightarrow> string option" where
  "extract_magic_key_from_session session_id =
     (if \<not> starts_with session_id ''survey_'' then None
      else let parts = split_on CHR ''_'' session_id
      in if length parts < 4 then None
      else let key_parts = drop 1 (take (length parts - 2) parts)
      in if key_parts = [] then None else Some (join ''-'' key_parts))"

definition extract_magic_key_from_session_id :: "string \<Rightarrow> string option" where
  "extract_magic_key_from_session_id session_id =
     (if \<not> starts_with session_id ''survey_'' then None
      else let parts = split_on CHR ''_'' session_id
      in if length parts < 4 then None
      else let timestamp_idx = length parts - 2
      in if parse_u64 (parts ! timestamp_idx) = None then None
      else let magic_key_parts = drop 1 (take timestamp_idx parts)
      in if magic_key_parts = [] then None else Some (join ''-'' magic_key_parts))"

definition survey_id :: "string \<Rightarrow> u64 \<Rightarrow> string \<Rightarrow> string" where
  "survey_id key timestamp uuid =
     ''survey_'' @ replace_char CHR ''-'' CHR ''_'' key @ ''_'' @ dec (unat timestamp) @ ''_'' @ uuid"

subsection \<open>Status and magic key handlers\<close>

record StatsInfo =
  active_surveys :: u32
  total_measurements :: u32
  active_surveyors :: u32

record AuthStatusResponse =
  authenticated :: bool
  auth_type :: "string option"
  st_user :: "string option"
  st_stats :: "StatsInfo option"
  st_magic_key :: "string option"

definition unauthenticated :: AuthStatusResponse where
  "unauthenticated = \<lparr>authenticated = False, auth_type = None, st_user = None, st_stats = None,
     st_magic_key = None\<rparr>"

definition full_status :: "SessionData \<Rightarrow> AuthStatusResponse" where
  "full_status sd = \<lparr>authenticated = True, auth_type = Some ''full'', st_user = Some (sd_handle sd),
     st_stats = Some \<lparr>active_surveys = 0, total_measurements = 0, active_surveyors = 0\<rparr>,
     st_magic_key = None\<rparr>"

definition magic_status :: "string \<Rightarrow> AuthStatusResponse" where
  "magic_status sid = \<lparr>authenticated = True, auth_type = Some ''magic_key'', st_user = None,
     st_stats = None, st_magic_key = extract_magic_key_from_session sid\<rparr>"

text \<open>
  The two checks that the handlers and the middleware make: the session of a logged-in and
  allowed user (\<open>None\<close> outside: the age computation panics), and a valid survey cookie.
\<close>

definition regular_session ::
  "'j jar_ops \<Rightarrow> json_codec \<Rightarrow> u64 \<Rightarrow> AuthService \<Rightarrow> 'j \<Rightarrow> SessionData option option" where
  "regular_session ops codec now s jar =
     (case extract_session_from_jar ops codec jar (cookie_name (session (config s))) of
        None \<Rightarrow> Some None
      | Some sd \<Rightarrow>
          do {
            r \<leftarrow> validate_session now s sd;
            Some (case r of Inl _ \<Rightarrow> None
                  | Inr _ \<Rightarrow> if is_user_allowed s (sd_handle sd) then Some sd else None)
          })"

definition survey_session ::
  "('v \<Rightarrow> string option) \<Rightarrow> u64 \<Rightarrow> AuthService \<Rightarrow> 'v list \<Rightarrow> string option" where
  "survey_session to_str now s cookies =
     (let mk = magic_key_config (config s)
      in if \<not> mk_enabled mk then None
         else case extract_session_id (collect_all_cookies to_str cookies) (survey_cookie_name mk) of
           None \<Rightarrow> None
         | Some sid \<Rightarrow> if validate_survey_session now sid mk then Some sid else None)"

definition auth_status ::
  "'j jar_ops \<Rightarrow> json_codec \<Rightarrow> ('v \<Rightarrow> string option) \<Rightarrow> u64 \<Rightarrow> AuthService \<Rightarrow> 'v list \<Rightarrow> 'j \<Rightarrow>
   AuthStatusResponse option" where
  "auth_status ops codec to_str now s cookies jar =
     (if \<not> is_enabled s then Some unauthenticated
      else do {
        full \<leftarrow> regular_session ops codec now s jar;
        Some (case full of
          Some sd \<Rightarrow> full_status sd
        | None \<Rightarrow> (case survey_session to_str now s cookies of
                    Some sid \<Rightarrow> magic_status sid
                  | None \<Rightarrow> unauthenticated))
      })"

fun provider_debug :: "AuthProvider \<Rightarrow> string" where
  "provider_debug Bluesky = ''Bluesky''"
| "provider_debug GitHub = ''GitHub''"
| "provider_debug Google = ''Google''"
| "provider_debug LinkedIn = ''LinkedIn''"
| "provider_debug PlainLogin = ''PlainLogin''"

definition auth_status_with_cache ::
  "'j jar_ops \<Rightarrow> json_codec \<Rightarrow> ('v \<Rightarrow> string option) \<Rightarrow> u64 \<Rightarrow> nat \<Rightarrow> ip_addr \<Rightarrow> AuthService \<Rightarrow>
   'v list \<Rightarrow> 'j \<Rightarrow> AuthAddressCache option \<Rightarrow> (AuthStatusResponse \<times> AuthAddressCache option) option" where
  "auth_status_with_cache ops codec to_str now instant ip s cookies jar cache =
     (if \<not> is_enabled s then Some (unauthenticated, cache)
      else do {
        full \<leftarrow> regular_session ops codec now s jar;
        Some (case full of
          Some sd \<Rightarrow>
            (full_status sd, map_option (record_auth instant ip (sd_handle sd) (sd_display_name sd)
               (provider_debug (auth_provider sd))) cache)
        | None \<Rightarrow> (case survey_session to_str now s cookies of
                    Some sid \<Rightarrow>
                      (magic_status sid, map_option (record_auth instant ip ''magic_key_user'' None ''magic_key'') cache)
                  | None \<Rightarrow> (unauthenticated, cache)))
      })"

text \<open>The answers of the magic key handler: 401 with a message, or 200 with a \<open>Set-Cookie\<close> header.\<close>

datatype magic_response = Unauthorized string | Validated string

definition set_cookie_header :: "MagicKeyConfig \<Rightarrow> string \<Rightarrow> string" where
  "set_cookie_header mk sid =
     survey_cookie_name mk @ ''='' @ sid @ ''; Path=/; HttpOnly; SameSite=Lax; Max-Age='' @
     dec (unat (survey_timeout_seconds mk))"

definition magic_key_auth :: "u64 \<Rightarrow> string \<Rightarrow> AuthService \<Rightarrow> string \<Rightarrow> nat + magic_response" where
  "magic_key_auth now uuid s key =
     (let mk = magic_key_config (config s)
      in if \<not> mk_enabled mk \<or> magic_keys mk = [] then Inl 404
         else if key \<notin> set (magic_keys mk)
         then Inr (Unauthorized ''Invalid Magic Key. Please check your key and try again.'')
         else Inr (Validated (set_cookie_header mk (survey_id key now uuid))))"

definition magic_key_auth_with_cache ::
  "u64 \<Rightarrow> string \<Rightarrow> nat \<Rightarrow> ip_addr \<Rightarrow> AuthService \<Rightarrow> string \<Rightarrow> AuthAddressCache option \<Rightarrow>
   (nat + magic_response) \<times> AuthAddressCache option" where
  "magic_key_auth_with_cache now uuid instant ip s key cache =
     (let mk = magic_key_config (config s)
      in if \<not> mk_enabled mk \<or> magic_keys mk = [] then (Inl 404, cache)
         else if key \<notin> set (magic_keys mk)
         then (Inr (Unauthorized ''Invalid Magic Key. Please check your key and try again.''), cache)
         else (Inr (Validated (set_cookie_header mk (survey_id key now uuid))),
               map_option (record_auth instant ip (''magic_key:'' @ key) None ''magic_key'') cache))"

subsection \<open>The middleware\<close>

definition require_auth_or_survey_session ::
  "'j jar_ops \<Rightarrow> json_codec \<Rightarrow> ('v \<Rightarrow> string option) \<Rightarrow> u64 \<Rightarrow> AuthService \<Rightarrow> 'v list \<Rightarrow> 'j option \<Rightarrow>
   gate option" where
  "require_auth_or_survey_session ops codec to_str now s cookies jar_opt =
     (if \<not> is_enabled s then Some (Next None)
      else do {
        regular_auth_valid \<leftarrow>
          (case jar_opt of
             None \<Rightarrow> Some False
           | Some jar \<Rightarrow> do { r \<leftarrow> regular_session ops codec now s jar; Some (r \<noteq> None) });
        let magic_key_valid = \<not> regular_auth_valid \<and> survey_session to_str now s cookies \<noteq> None;
        Some (if regular_auth_valid \<or> magic_key_valid then Next None else RedirectTo ''/'')
      })"

subsection \<open>Session ids carry their key\<close>

lemma survey_id_parts:
  "CHR ''_'' \<notin> set uuid \<Longrightarrow>
   split_on CHR ''_'' (survey_id key t uuid) =
     ''survey'' # split_on CHR ''_'' (replace_char CHR ''-'' CHR ''_'' key) @ [dec (unat t), uuid]"
proof -
  assume u: "CHR ''_'' \<notin> set uuid"
  let ?k = "replace_char CHR ''-'' CHR ''_'' key"
  have "survey_id key t uuid = ''survey'' @ CHR ''_'' # (?k @ CHR ''_'' # (dec (unat t) @ CHR ''_'' # uuid))"
    by (simp add: survey_id_def)
  with u show ?thesis
    by (simp only: split_on_append) (simp add: dec_notin)
qed

lemma join_key_parts:
  "join ''-'' (split_on CHR ''_'' (replace_char CHR ''-'' CHR ''_'' key)) =
   replace_char CHR ''_'' CHR ''-'' key"
  unfolding join_split_map replace_char_def by (induction key) auto

lemma replace_char_id: "a \<notin> set s \<Longrightarrow> replace_char a b s = s"
  by (induction s) (auto simp: replace_char_def)

lemma survey_id_key_parts:
  fixes key t uuid
  defines "parts \<equiv> split_on CHR ''_'' (survey_id key t uuid)"
  assumes "CHR ''_'' \<notin> set uuid"
  shows "starts_with (survey_id key t uuid) ''survey_''" and "\<not> length parts < 4"
    and "parts ! (length parts - 2) = dec (unat t)" and "drop 1 (take (length parts - 2) parts) \<noteq> []"
    and "join ''-'' (drop 1 (take (length parts - 2) parts)) = replace_char CHR ''_'' CHR ''-'' key"
proof -
  let ?ks = "split_on CHR ''_'' (replace_char CHR ''-'' CHR ''_'' key)"
  have p: "parts = ''survey'' # ?ks @ [dec (unat t), uuid]"
    unfolding parts_def by (rule survey_id_parts [OF assms(2)])
  have k: "drop 1 (take (length parts - 2) parts) = ?ks" by (simp add: p)
  show "starts_with (survey_id key t uuid) ''survey_''" by (simp add: survey_id_def starts_with_def)
  show "\<not> length parts < 4" by (simp add: p Suc_le_eq not_less)
  show "parts ! (length parts - 2) = dec (unat t)" by (simp add: p nth_append)
  show "drop 1 (take (length parts - 2) parts) \<noteq> []" unfolding k by simp
  show "join ''-'' (drop 1 (take (length parts - 2) parts)) = replace_char CHR ''_'' CHR ''-'' key"
    unfolding k by (rule join_key_parts)
qed

lemma validate_survey_id:
  assumes "CHR ''_'' \<notin> set uuid"
  shows "validate_survey_session now (survey_id key t uuid) mk \<longleftrightarrow>
    unat now - unat t \<le> unat (survey_timeout_seconds mk) \<and>
    replace_char CHR ''_'' CHR ''-'' key \<in> set (magic_keys mk)"
  using survey_id_key_parts [OF assms, of key t]
  by (simp add: validate_survey_session_def Let_def word_less_nat_alt unat_saturating_sub not_less)

lemma extract_survey_id:
  assumes "CHR ''_'' \<notin> set uuid"
  shows "extract_magic_key_from_session (survey_id key t uuid) = Some (replace_char CHR ''_'' CHR ''-'' key)"
    and "extract_magic_key_from_session_id (survey_id key t uuid) = Some (replace_char CHR ''_'' CHR ''-'' key)"
  using survey_id_key_parts [OF assms, of key t]
  by (simp_all add: extract_magic_key_from_session_def extract_magic_key_from_session_id_def Let_def)

subsection \<open>Cookies as a browser sends them\<close>

definition cookie_text :: "string \<Rightarrow> bool" where
  "cookie_text s \<longleftrightarrow> list_all graphic s \<and> CHR '';'' \<notin> set s \<and> CHR ''='' \<notin> set s"

definition cookie_pair :: "string \<times> string \<Rightarrow> string" where
  "cookie_pair c = fst c @ ''='' @ snd c"

definition browser_header :: "(string \<times> string) list \<Rightarrow> string" where
  "browser_header cookies = join ''; '' (map cookie_pair cookies)"

lemma cookie_text_simps [simp]:
  "cookie_text []"
  "cookie_text (s @ t) \<longleftrightarrow> cookie_text s \<and> cookie_text t"
  "cookie_text (c # s) \<longleftrightarrow> graphic c \<and> c \<noteq> CHR '';'' \<and> c \<noteq> CHR ''='' \<and> cookie_text s"
  by (auto simp: cookie_text_def)

lemma cookie_text_dec: "cookie_text (dec n)"
proof -
  have "graphic c" if "c \<in> set (dec n)" for c
    using dec_chars [OF that] by (simp add: graphic_def)
  then show ?thesis by (simp add: cookie_text_def list_all_iff dec_notin)
qed

lemma split_join_space:
  "\<forall>p \<in> set (q # ps). CHR '';'' \<notin> set p \<Longrightarrow>
   split_on CHR '';'' (join ''; '' (q # ps)) = q # map (Cons CHR '' '') ps"
proof (induction ps arbitrary: q)
  case (Cons p ps)
  have "join ''; '' (q # p # ps) = q @ CHR '';'' # (CHR '' '' # join ''; '' (p # ps))" by simp
  moreover have "split_on CHR '';'' (CHR '' '' # join ''; '' (p # ps)) =
      (CHR '' '' # p) # map (Cons CHR '' '') ps"
    using Cons.IH [of p] Cons.prems by (auto split: list.splits)
  ultimately show ?case using Cons.prems by (simp only: split_on_append) simp
qed simp

lemma pair_parts:
  assumes "cookie_text n" and "cookie_text v"
  shows "CHR '';'' \<notin> set (cookie_pair (n, v))"
    and "split_on CHR ''='' (trim (cookie_pair (n, v))) = [n, v]"
    and "split_on CHR ''='' (trim (CHR '' '' # cookie_pair (n, v))) = [n, v]"
proof -
  have g: "list_all graphic (cookie_pair (n, v))"
    using assms by (auto simp: cookie_pair_def cookie_text_def graphic_def)
  have s: "split_on CHR ''='' (cookie_pair (n, v)) = [n, v]"
    using assms split_on_append [of "CHR ''=''" n v] by (simp add: cookie_pair_def cookie_text_def)
  show "CHR '';'' \<notin> set (cookie_pair (n, v))" using assms by (auto simp: cookie_pair_def cookie_text_def)
  show "split_on CHR ''='' (trim (cookie_pair (n, v))) = [n, v]" by (simp only: trim_graphic [OF g] s)
  show "split_on CHR ''='' (trim (CHR '' '' # cookie_pair (n, v))) = [n, v]"
    by (simp only: trim_space [OF g] s)
qed

lemma extract_browser:
  assumes "\<forall>(n, v) \<in> set cookies. cookie_text n \<and> cookie_text v"
  shows "extract_session_id (browser_header cookies) name = map_of cookies name"
proof (cases cookies)
  case Nil
  then show ?thesis by (simp add: extract_session_id_def browser_header_def trim_graphic [of "[]"])
next
  case (Cons c cs)
  have find: "find_map (\<lambda>cookie. let parts = split_on CHR ''='' (trim cookie)
      in if length parts = 2 \<and> parts ! 0 = name then Some (parts ! 1) else None)
      (map (\<lambda>c. CHR '' '' # cookie_pair c) ds) = map_of ds name"
    if "\<forall>(n, v) \<in> set ds. cookie_text n \<and> cookie_text v" for ds
    using that by (induction ds) (auto simp: pair_parts)
  have "split_on CHR '';'' (browser_header cookies) =
      cookie_pair c # map (Cons CHR '' '') (map cookie_pair cs)"
    unfolding browser_header_def Cons list.map using assms Cons
    by (intro split_join_space) (auto simp: pair_parts)
  with assms find [of cs] Cons show ?thesis
    by (cases c) (auto simp: extract_session_id_def pair_parts comp_def)
qed

lemma join_append:
  "xs \<noteq> [] \<Longrightarrow> ys \<noteq> [] \<Longrightarrow> join sep (xs @ ys) = join sep xs @ sep @ join sep ys"
proof (induction xs rule: join.induct [of _ sep])
  case (3 sep' x y zs)
  then show ?case by (cases "zs @ ys") auto
qed (auto simp: neq_Nil_conv)

lemma browser_header_Nil [simp]: "browser_header [] = []"
  by (simp add: browser_header_def)

lemma browser_header_append:
  "as \<noteq> [] \<Longrightarrow> bs \<noteq> [] \<Longrightarrow>
   browser_header (as @ bs) = browser_header as @ ''; '' @ browser_header bs"
  by (simp add: browser_header_def join_append)

lemma browser_header_not_Nil: "cs \<noteq> [] \<Longrightarrow> browser_header cs \<noteq> []"
  by (cases cs; cases "tl cs") (auto simp: browser_header_def cookie_pair_def)

lemma collect_browser:
  assumes "List.map_filter to_str values = map browser_header css" and "[] \<notin> set css"
  shows "collect_all_cookies to_str values = browser_header (concat css)"
proof -
  have "foldl (\<lambda>acc s. (if acc \<noteq> [] then acc @ ''; '' else acc) @ s) [] (map browser_header css) =
      browser_header (concat css)"
    using assms(2)
  proof (induction css rule: rev_induct)
    case Nil
    then show ?case by (simp add: browser_header_def)
  next
    case (snoc cs css)
    then have cs: "cs \<noteq> []" and IH: "foldl (\<lambda>acc s. (if acc \<noteq> [] then acc @ ''; '' else acc) @ s) []
        (map browser_header css) = browser_header (concat css)" by auto
    show ?case
    proof (cases "concat css = []")
      case True
      with IH show ?thesis by (simp del: concat_eq_Nil_conv)
    next
      case False
      with IH cs show ?thesis
        by (simp add: browser_header_append browser_header_not_Nil del: concat_eq_Nil_conv)
    qed
  qed
  with assms(1) show ?thesis by (simp add: collect_all_cookies_def)
qed

subsection \<open>What a magic key opens\<close>

lemma magic_key_auth_Validated:
  "magic_key_auth t uuid s key = Inr (Validated header) \<longleftrightarrow>
     mk_enabled (magic_key_config (config s)) \<and> key \<in> set (magic_keys (magic_key_config (config s))) \<and>
     header = set_cookie_header (magic_key_config (config s)) (survey_id key t uuid)"
  by (auto simp: magic_key_auth_def Let_def)

lemma set_cookie_pair:
  assumes "cookie_text (survey_cookie_name mk)" and "CHR '';'' \<notin> set sid"
  shows "takeWhile (\<lambda>c. c \<noteq> CHR '';'') (set_cookie_header mk sid) = cookie_pair (survey_cookie_name mk, sid)"
proof -
  let ?p = "cookie_pair (survey_cookie_name mk, sid)"
  have "CHR '';'' \<notin> set ?p" using assms by (auto simp: cookie_pair_def cookie_text_def)
  then have "takeWhile (\<lambda>c. c \<noteq> CHR '';'') (?p @ CHR '';'' # r) = ?p" for r
    by (subst takeWhile_append2) auto
  moreover have "\<exists>r. set_cookie_header mk sid = ?p @ CHR '';'' # r"
    by (auto simp: set_cookie_header_def cookie_pair_def)
  ultimately show ?thesis by auto
qed

lemma survey_id_cookie_text:
  "cookie_text key \<Longrightarrow> cookie_text uuid \<Longrightarrow> cookie_text (survey_id key t uuid)"
  by (auto simp: survey_id_def cookie_text_dec graphic_def replace_char_def)
    (auto simp: cookie_text_def list_all_iff graphic_def)

lemma cookie_pair_inj:
  "cookie_text n \<Longrightarrow> cookie_pair (n, v) = cookie_pair (n, v') \<Longrightarrow> v = v'"
  by (simp add: cookie_pair_def)

text \<open>
  C15. A magic key without an underscore opens the protected pages for exactly the configured
  time. When the key handler has answered with its cookie, and the browser sends that cookie
  back, among any others and over any number of cookie headers, then the middleware lets the
  request of a visitor who is not logged in through, and the status page reports the very key,
  as long as the timeout has not passed; afterwards both refuse. The data channels recover the
  same key from the session id.
\<close>

theorem magic_key_admits_until_timeout:
  assumes "is_enabled s" and "magic_key_auth t uuid s key = Inr (Validated header)"
    and "CHR ''_'' \<notin> set key" and "cookie_text key"
    and "CHR ''_'' \<notin> set uuid" and "cookie_text uuid"
    and mk: "mk = magic_key_config (config s)" and "cookie_text (survey_cookie_name mk)"
    and "takeWhile (\<lambda>c. c \<noteq> CHR '';'') header = cookie_pair (survey_cookie_name mk, sid)"
    and "map_of (concat css) (survey_cookie_name mk) = Some sid" and "[] \<notin> set css"
    and "\<forall>(n, v) \<in> set (concat css). cookie_text n \<and> cookie_text v"
    and "List.map_filter to_str values = map browser_header css"
    and "regular_session ops codec now s jar = Some None"
  shows "require_auth_or_survey_session ops codec to_str now s values (Some jar) =
      Some (if unat now - unat t \<le> unat (survey_timeout_seconds mk) then Next None else RedirectTo ''/'') \<and>
    auth_status ops codec to_str now s values jar =
      Some (if unat now - unat t \<le> unat (survey_timeout_seconds mk)
            then \<lparr>authenticated = True, auth_type = Some ''magic_key'', st_user = None, st_stats = None,
                  st_magic_key = Some key\<rparr>
            else unauthenticated) \<and>
    extract_magic_key_from_session_id sid = Some key"
proof -
  have k: "mk_enabled mk" "key \<in> set (magic_keys mk)"
      "header = set_cookie_header mk (survey_id key t uuid)"
    using assms(2) mk by (auto simp: magic_key_auth_Validated)
  have "cookie_text (survey_id key t uuid)" by (rule survey_id_cookie_text [OF assms(4,6)])
  then have "takeWhile (\<lambda>c. c \<noteq> CHR '';'') header = cookie_pair (survey_cookie_name mk, survey_id key t uuid)"
    unfolding k(3) by (intro set_cookie_pair assms(8)) (simp add: cookie_text_def)
  with assms(9) have sid: "sid = survey_id key t uuid"
    using cookie_pair_inj [OF assms(8)] by metis
  have "extract_session_id (collect_all_cookies to_str values) (survey_cookie_name mk) = Some sid"
    using extract_browser [OF assms(12)] assms(10) by (simp only: collect_browser [OF assms(13,11)])
  then have "survey_session to_str now s values =
      (if unat now - unat t \<le> unat (survey_timeout_seconds mk) then Some sid else None)"
    using k validate_survey_id [OF assms(5), of now key t mk] replace_char_id [OF assms(3)]
    by (simp add: survey_session_def mk sid)
  moreover have "extract_magic_key_from_session sid = Some key"
    "extract_magic_key_from_session_id sid = Some key"
    using extract_survey_id [OF assms(5)] replace_char_id [OF assms(3)] by (simp_all add: sid)
  ultimately show ?thesis
    using assms(1,14)
    by (simp add: require_auth_or_survey_session_def auth_status_def magic_status_def)
qed

definition sample_magic :: AuthService where
  "sample_magic = sample_service\<lparr>config := default_auth_config\<lparr>enable_auth := True,
     magic_key_config := default_magic_key_config\<lparr>mk_enabled := True, magic_keys := [''A-B'', ''X_Y'']\<rparr>\<rparr>\<rparr>"

lemma sample_magic_id:
  "survey_id ''A-B'' 9 ''ff'' = ''survey_A_B_9_ff''"
  by (simp add: survey_id_def replace_char_def dec_hex_simps char_of_eq_iff)

theorem magic_key_admits_until_timeout_witness:
  "require_auth_or_survey_session map_jar (one_session_codec sample_session_data) Some 5000 sample_magic
     [''theme=dark; survey_session_id=survey_A_B_9_ff''] (Some Map.empty) = Some (Next None)"
proof -
  let ?css = "[[(''theme'', ''dark''), (''survey_session_id'', ''survey_A_B_9_ff'')]]"
  let ?sid = "''survey_A_B_9_ff''"
  have h: "magic_key_auth 9 ''ff'' sample_magic ''A-B'' =
      Inr (Validated (set_cookie_header (magic_key_config (config sample_magic)) ?sid))"
    by (simp add: magic_key_auth_Validated sample_magic_def default_auth_config_def
        default_magic_key_config_def sample_magic_id)
  have n: "survey_cookie_name (magic_key_config (config sample_magic)) = ''survey_session_id''"
    "survey_timeout_seconds (magic_key_config (config sample_magic)) = 28800"
    by (simp_all add: sample_magic_def default_auth_config_def default_magic_key_config_def)
  have tw: "takeWhile (\<lambda>c. c \<noteq> CHR '';'') (set_cookie_header (magic_key_config (config sample_magic)) ?sid) =
      cookie_pair (survey_cookie_name (magic_key_config (config sample_magic)), ?sid)"
    by (rule set_cookie_pair) (simp_all add: n graphic_def)
  have r: "regular_session map_jar (one_session_codec sample_session_data) 5000 sample_magic Map.empty = Some None"
    by (simp add: regular_session_def extract_session_from_jar_def map_jar_def)
  have e: "is_enabled sample_magic" by (simp add: is_enabled_def sample_magic_def default_auth_config_def)
  from magic_key_admits_until_timeout [OF e h _ _ _ _ refl _ tw, of ?css Some
      "map browser_header ?css" map_jar "one_session_codec sample_session_data" 5000 Map.empty] r
  show ?thesis
    by (simp add: n graphic_def browser_header_def cookie_pair_def map_filter_simps)
qed

text \<open>
  C26. A configured magic key with an underscore is accepted by the key handler, yet the cookie
  it sets never opens anything, because the key read back from it has hyphens instead: unless
  that other key is configured as well, the session is refused at every time.
\<close>

theorem underscore_key_locked_out:
  assumes "magic_key_auth t uuid s key = Inr (Validated header)"
    and "CHR ''_'' \<in> set key" and "CHR ''_'' \<notin> set uuid"
    and "replace_char CHR ''_'' CHR ''-'' key \<notin> set (magic_keys (magic_key_config (config s)))"
  shows "header = set_cookie_header (magic_key_config (config s)) (survey_id key t uuid) \<and>
    (\<forall>now. \<not> validate_survey_session now (survey_id key t uuid) (magic_key_config (config s))) \<and>
    extract_magic_key_from_session (survey_id key t uuid) \<noteq> Some key"
proof -
  have "CHR ''_'' \<notin> set (replace_char CHR ''_'' CHR ''-'' key)" by (auto simp: replace_char_def)
  with assms(2) have "replace_char CHR ''_'' CHR ''-'' key \<noteq> key" by auto
  with assms show ?thesis
    by (auto simp: magic_key_auth_Validated validate_survey_id extract_survey_id)
qed

theorem underscore_key_locked_out_witness:
  "\<not> validate_survey_session 9 (survey_id ''X_Y'' 9 ''ff'') (magic_key_config (config sample_magic))"
proof -
  have h: "magic_key_auth 9 ''ff'' sample_magic ''X_Y'' = Inr (Validated
      (set_cookie_header (magic_key_config (config sample_magic)) (survey_id ''X_Y'' 9 ''ff'')))"
    by (simp add: magic_key_auth_Validated sample_magic_def default_auth_config_def
        default_magic_key_config_def)
  show ?thesis
    using underscore_key_locked_out [OF h]
    by (simp add: replace_char_def sample_magic_def default_auth_config_def default_magic_key_config_def)
qed



end
