(* ===== verification/Iperf3_Protocol.thy ===== *)
theory Iperf3_Protocol
  imports Auth_Cache Rust_Strings
begin

text \<open>
  \<open>iperf3-server/src/protocol.rs\<close>, \<open>config.rs\<close>, \<open>error.rs\<close> and the framing of control
  messages in \<open>session.rs\<close>. The control connection is the pair of the bytes the client still
  has to deliver and the bytes written so far; \<open>read_exact\<close> fails when the client closes too
  early. The JSON decoder is a parameter. Floating point fields are kept as numbers of the
  type \<open>'f\<close> that the results are generic in.
\<close>

subsection \<open>States\<close>

datatype State =
    ParamExchange | CreateStreams | TestStart | TestRunning | TestEnd | ExchangeResults
  | DisplayResults | IperfDone | ServerTerminate | AccessDenied | ServerError

definition from_byte :: "u8 \<Rightarrow> State option" where
  "from_byte b =
     (let signed = sint b
      in if signed = 9 then Some ParamExchange
         else if signed = 10 then Some CreateStreams
         else if signed = 1 then Some TestStart
         else if signed = 2 then Some TestRunning
         else if signed = 4 then Some TestEnd
         else if signed = 13 then Some ExchangeResults
         else if signed = 14 then Some DisplayResults
         else if signed = 16 then Some IperfDone
         else if signed = 15 then Some ServerTerminate
         else if signed = - 1 then Some AccessDenied
         else if signed = - 2 then Some ServerError
         else None)"

fun discriminant :: "State \<Rightarrow> int" where
  "discriminant ParamExchange = 9"
| "discriminant CreateStreams = 10"
| "discriminant TestStart = 1"
| "discriminant TestRunning = 2"
| "discriminant TestEnd = 4"
| "discriminant ExchangeResults = 13"
| "discriminant DisplayResults = 14"
| "discriminant IperfDone = 16"
| "discriminant ServerTerminate = 15"
| "discriminant AccessDenied = - 1"
| "discriminant ServerError = - 2"

definition to_byte :: "State \<Rightarrow> u8" where
  "to_byte s = word_of_int (discriminant s)"

lemma sint_to_byte [simp]: "sint (to_byte s) = discriminant s"
  by (cases s) (simp_all add: to_byte_def)

lemma from_byte_to_byte [simp]: "from_byte (to_byte s) = Some s"
  by (cases s) (simp_all add: from_byte_def Let_def)

lemma from_byte_eq_Some: "from_byte b = Some s \<Longrightarrow> b = to_byte s"
proof -
  assume "from_byte b = Some s"
  then have "sint b = sint (to_byte s)"
    unfolding sint_to_byte by (cases s) (auto simp: from_byte_def Let_def split: if_splits)
  then show ?thesis by (simp only: signed_word_eqI)
qed

subsection \<open>Parameters and configuration\<close>

record 'f TestParameters =
  protocol :: string
  tp_time :: u64
  tp_parallel :: u32
  reverse :: bool
  bidirectional :: bool
  bandwidth :: u64
  blksize :: u32
  tp_window :: u32
  mss :: u32
  nodelay :: bool
  tp_bytes :: u64
  blockcount :: u64
  omit :: u32
  client_version :: string
  udp :: bool
  interval :: 'f

definition default_params :: "'f \<Rightarrow> 'f TestParameters" where
  "default_params one =
     \<lparr>protocol = ''TCP'', tp_time = 10, tp_parallel = 1, reverse = False, bidirectional = False,
      bandwidth = 0, blksize = 131072, tp_window = 0, mss = 0, nodelay = False, tp_bytes = 0,
      blockcount = 0, omit = 0, client_version = [], udp = False, interval = one\<rparr>"

record Iperf3Config =
  ic_enabled :: bool
  host :: string
  ic_port :: u16
  max_sessions :: nat
  max_duration_secs :: u64
  ic_require_auth :: bool
  auth_timeout_secs :: u64
  max_bandwidth :: u64

definition default_iperf3_config :: Iperf3Config where
  "default_iperf3_config =
     \<lparr>ic_enabled = False, host = ''0.0.0.0'', ic_port = 5201, max_sessions = 10,
      max_duration_secs = 3600, ic_require_auth = False, auth_timeout_secs = 300, max_bandwidth = 0\<rparr>"

datatype Iperf3Error =
    Io | Json | Protocol string | UnauthorizedIp ip_addr | SessionLimitReached nat
  | InvalidParameter string | Timeout u64 | Shutdown

subsection \<open>The control connection\<close>

record control =
  inp :: bytes
  outp :: bytes

definition MAX_MESSAGE_SIZE :: nat where
  "MAX_MESSAGE_SIZE = 1024 * 1024"

definition read_exact :: "nat \<Rightarrow> control \<Rightarrow> (Iperf3Error + bytes) \<times> control" where
  "read_exact n c =
     (if n \<le> length (inp c) then (Inr (take n (inp c)), c\<lparr>inp := drop n (inp c)\<rparr>)
      else (Inl Io, c\<lparr>inp := []\<rparr>))"

definition read_json_message ::
  "(bytes \<Rightarrow> 'v option) \<Rightarrow> control \<Rightarrow> (Iperf3Error + 'v) \<times> control" where
  "read_json_message from_slice c =
     (case read_exact 4 c of
        (Inl e, c1) \<Rightarrow> (Inl e, c1)
      | (Inr len_buf, c1) \<Rightarrow>
          (let len = be_nat len_buf
           in if MAX_MESSAGE_SIZE < len
              then (Inl (Protocol (''Message too large: '' @ dec len @ '' bytes'')), c1)
              else case read_exact len c1 of
                (Inl e, c2) \<Rightarrow> (Inl e, c2)
              | (Inr data, c2) \<Rightarrow>
                  (case from_slice data of None \<Rightarrow> (Inl Json, c2) | Some json \<Rightarrow> (Inr json, c2))))"

text \<open>\<open>data\<close> is the serialised value; its length is cast to \<open>u32\<close>.\<close>

definition write_json_message :: "bytes \<Rightarrow> control \<Rightarrow> control" where
  "write_json_message data c =
     c\<lparr>outp := outp c @ be_bytes 4 (unat (of_nat (length data) :: u32)) @ data\<rparr>"

definition read_state :: "control \<Rightarrow> (Iperf3Error + State) \<times> control" where
  "read_state c =
     (case read_exact 1 c of
        (Inl e, c1) \<Rightarrow> (Inl e, c1)
      | (Inr buf, c1) \<Rightarrow>
          (case from_byte (buf ! 0) of
             Some s \<Rightarrow> (Inr s, c1)
           | None \<Rightarrow> (Inl (Protocol (''Unknown state: '' @ dec (unat (buf ! 0)))), c1)))"

definition frame :: "bytes \<Rightarrow> bytes" where
  "frame data = be_bytes 4 (length data) @ data"

lemma length_frame [simp]: "length (frame data) = 4 + length data"
  by (simp add: frame_def)

lemma write_frame: "length data < 2 ^ 32 \<Longrightarrow> write_json_message data c = c\<lparr>outp := outp c @ frame data\<rparr>"
  by (simp add: write_json_message_def frame_def unat_of_nat_small)

lemma read_exact_append: "inp c = a @ rest \<Longrightarrow> read_exact (length a) c = (Inr a, c\<lparr>inp := rest\<rparr>)"
  by (simp add: read_exact_def)

lemma read_frame_front:
  assumes "inp c = frame data @ rest" and "length data < 2 ^ 32"
  shows "read_exact 4 c = (Inr (be_bytes 4 (length data)), c\<lparr>inp := data @ rest\<rparr>)"
    and "be_nat (be_bytes 4 (length data)) = length data"
  using read_exact_append [of c "be_bytes 4 (length data)" "data @ rest"] assms
  by (simp_all add: frame_def be_nat_be_bytes)

lemma read_frame:
  assumes "inp c = frame data @ rest" and "length data \<le> MAX_MESSAGE_SIZE"
  shows "read_json_message from_slice c =
    ((case from_slice data of None \<Rightarrow> Inl Json | Some v \<Rightarrow> Inr v), c\<lparr>inp := rest\<rparr>)"
proof -
  have "length data < 2 ^ 32" using assms(2) by (simp add: MAX_MESSAGE_SIZE_def)
  note front = read_frame_front [OF assms(1) this]
  have "read_exact (length data) (c\<lparr>inp := data @ rest\<rparr>) = (Inr data, c\<lparr>inp := rest\<rparr>)"
    by (subst read_exact_append [where rest = rest]) simp_all
  with front assms(2) show ?thesis
    by (simp add: read_json_message_def Let_def split: option.splits)
qed

lemma read_state_byte:
  "inp c = to_byte s # rest \<Longrightarrow> read_state c = (Inr s, c\<lparr>inp := rest\<rparr>)"
  by (simp add: read_state_def read_exact_def)

text \<open>
  C22. The control channel carries what is put on it. The state codec is a bijection between
  the states and eleven byte values. A message up to one megabyte written on one side is read
  on the other side as the value its bytes decode to, the rest of the stream untouched; a longer
  one (below 4 GiB) is refused before its body is read.
\<close>

theorem control_channel_round_trip:
  assumes "length data < 2 ^ 32"
    and "inp r = outp (write_json_message data \<lparr>inp = [], outp = []\<rparr>) @ rest"
  shows "(\<forall>s b. from_byte b = Some s \<longleftrightarrow> b = to_byte s) \<and>
    (if length data \<le> MAX_MESSAGE_SIZE
     then read_json_message from_slice r =
       ((case from_slice data of None \<Rightarrow> Inl Json | Some v \<Rightarrow> Inr v), r\<lparr>inp := rest\<rparr>)
     else read_json_message from_slice r =
       (Inl (Protocol (''Message too large: '' @ dec (length data) @ '' bytes'')), r\<lparr>inp := data @ rest\<rparr>))"
proof -
  have r: "inp r = frame data @ rest" using assms by (simp add: write_frame)
  show ?thesis
    using read_frame [OF r] read_frame_front [OF r assms(1)] from_byte_eq_Some
    by (auto simp: read_json_message_def Let_def)
qed

theorem control_channel_round_trip_witness:
  "read_json_message (\<lambda>d. Some (length d)) \<lparr>inp = frame [123, 125] @ [9], outp = []\<rparr> =
     (Inr 2, \<lparr>inp = [9], outp = []\<rparr>)"
  using control_channel_round_trip [of "[123, 125]" "\<lparr>inp = frame [123, 125] @ [9], outp = []\<rparr>" "[9]"
      "\<lambda>d. Some (length d)"]
  by (simp add: write_frame MAX_MESSAGE_SIZE_def)

end
