(* ===== verification/Iperf3_Session.thy ===== *)
theory Iperf3_Session
  imports Iperf3_Protocol
begin

text \<open>
  \<open>iperf3-server/src/session.rs\<close> and the session protocol of \<open>server.rs\<close>
  (\<open>run_session_protocol\<close>, \<open>accept_udp_streams\<close>). A session is a record; its sockets are
  counted. One iteration of a data loop is a function of what the iteration observes
  (cancellation, clock readings, the result of the read or write). The protocol of a session is
  a step relation: each statement of the function that touches the connection is a program
  point, and the other tasks (data streams that connect, bytes that are counted, time that
  passes) are steps of their own, so every interleaving is a run.
\<close>

subsection \<open>Session state\<close>

record 'f TestSession =
  ts_cookie :: string
  client_addr :: socket_addr
  ts_params :: "'f TestParameters"
  ts_state :: State
  data_streams :: nat
  udp_streams :: nat
  test_started_at :: "nat option"
  bytes_received :: u64
  bytes_sent :: u64
  cancelled :: bool
  is_udp :: bool

definition new_test_session :: "'f \<Rightarrow> string \<Rightarrow> socket_addr \<Rightarrow> 'f TestSession" where
  "new_test_session one ck addr =
     \<lparr>ts_cookie = ck, client_addr = addr, ts_params = default_params one, ts_state = ParamExchange,
      data_streams = 0, udp_streams = 0, test_started_at = None, bytes_received = 0, bytes_sent = 0,
      cancelled = False, is_udp = False\<rparr>"

definition set_udp_mode :: "bool \<Rightarrow> 'f TestSession \<Rightarrow> 'f TestSession" where
  "set_udp_mode b s = s\<lparr>is_udp := b\<rparr>"

definition cancel :: "'f TestSession \<Rightarrow> 'f TestSession" where
  "cancel s = s\<lparr>cancelled := True\<rparr>"

text \<open>\<open>AtomicU64::fetch_add\<close> wraps around.\<close>

definition add_bytes_received :: "u64 \<Rightarrow> 'f TestSession \<Rightarrow> 'f TestSession" where
  "add_bytes_received n s = s\<lparr>bytes_received := bytes_received s + n\<rparr>"

definition add_bytes_sent :: "u64 \<Rightarrow> 'f TestSession \<Rightarrow> 'f TestSession" where
  "add_bytes_sent n s = s\<lparr>bytes_sent := bytes_sent s + n\<rparr>"

definition add_data_stream :: "'f TestSession \<Rightarrow> 'f TestSession" where
  "add_data_stream s = s\<lparr>data_streams := data_streams s + 1\<rparr>"

definition add_udp_stream :: "'f TestSession \<Rightarrow> 'f TestSession" where
  "add_udp_stream s = s\<lparr>udp_streams := udp_streams s + 1\<rparr>"

definition stream_count :: "'f TestSession \<Rightarrow> nat" where
  "stream_count s = (if is_udp s then udp_streams s else data_streams s)"

definition start_test :: "nat \<Rightarrow> 'f TestSession \<Rightarrow> 'f TestSession" where
  "start_test now s = s\<lparr>test_started_at := Some now\<rparr>"

definition test_elapsed :: "nat \<Rightarrow> 'f TestSession \<Rightarrow> nat option" where
  "test_elapsed now s = map_option (\<lambda>t. now - t) (test_started_at s)"

definition send_state :: "State \<Rightarrow> 'f TestSession \<times> control \<Rightarrow> 'f TestSession \<times> control" where
  "send_state st sc = ((fst sc)\<lparr>ts_state := st\<rparr>, (snd sc)\<lparr>outp := outp (snd sc) @ [to_byte st]\<rparr>)"

record 'f ExchangeStreamResult =
  es_id :: u32
  es_bytes :: u64
  retransmits :: i64
  jitter :: 'f
  es_errors :: u64
  omitted_errors :: u64
  es_packets :: u64
  omitted_packets :: u64
  start_time :: 'f
  end_time :: 'f

record 'f ExchangeResultsData =
  cpu_util_total :: 'f
  cpu_util_user :: 'f
  cpu_util_system :: 'f
  sender_has_retransmits :: i32
  congestion_used :: "string option"
  er_streams :: "'f ExchangeStreamResult list"

definition generate_exchange_results :: "'f \<Rightarrow> 'f \<Rightarrow> 'f TestSession \<Rightarrow> 'f ExchangeResultsData" where
  "generate_exchange_results zero test_duration s =
     \<lparr>cpu_util_total = zero, cpu_util_user = zero, cpu_util_system = zero,
      sender_has_retransmits = - 1, congestion_used = Some ''cubic'',
      er_streams = [\<lparr>es_id = 1, es_bytes = bytes_received s, retransmits = - 1, jitter = zero,
        es_errors = 0, omitted_errors = 0, es_packets = 0, omitted_packets = 0,
        start_time = zero, end_time = test_duration\<rparr>]\<rparr>"

subsection \<open>Data loops\<close>

text \<open>
  What one iteration sees: the cancel flag, the clock at the deadline check, at the rate check
  and at the reset of the window, and the result of the socket call (\<open>None\<close> for an error).
\<close>

record tick =
  tk_cancelled :: bool
  tk_now :: nat
  tk_rate :: nat
  tk_reset :: nat
  tk_io :: "nat option"

definition u64_max :: u64 where
  "u64_max = - 1"

definition one_sec :: nat where
  "one_sec = 1000000000"

record sender =
  last_send :: nat
  bytes_this_second :: u64
  sd_bytes :: u64
  sd_done :: bool

definition tcp_bytes_per_second :: "u64 \<Rightarrow> u64" where
  "tcp_bytes_per_second bw = (if 0 < bw then bw div 8 else u64_max)"

definition udp_bytes_per_second :: "u64 \<Rightarrow> u64" where
  "udp_bytes_per_second bw = (if 0 < bw then bw div 8 else 1000000 div 8)"

definition udp_blksize :: "u32 \<Rightarrow> nat" where
  "udp_blksize b = (if 0 < b then unat b else 8 * 1024)"

text \<open>
  The rest of an iteration after the rate check: the write, with \<open>n\<close> the bytes it counts.
  \<open>bytes_this_second +=\<close> panics on overflow.
\<close>

definition count_sent :: "nat \<Rightarrow> sender \<Rightarrow> sender option" where
  "count_sent n sd =
     do {
       b \<leftarrow> add_checked (bytes_this_second sd) (of_nat n);
       Some (sd\<lparr>sd_bytes := sd_bytes sd + of_nat n, bytes_this_second := b\<rparr>)
     }"

definition tcp_sender_turn :: "u64 \<Rightarrow> nat \<Rightarrow> nat \<Rightarrow> tick \<Rightarrow> sender \<Rightarrow> sender option" where
  "tcp_sender_turn bps blk deadline tk sd =
     (if sd_done sd then Some sd
      else if tk_cancelled tk \<or> deadline < tk_now tk then Some (sd\<lparr>sd_done := True\<rparr>)
      else let limited = bps \<noteq> u64_max;
               fresh = limited \<and> one_sec \<le> tk_rate tk - last_send sd;
               sd1 = (if fresh then sd\<lparr>last_send := tk_reset tk, bytes_this_second := 0\<rparr> else sd)
           in if limited \<and> \<not> fresh \<and> bps \<le> bytes_this_second sd then Some sd
              else case tk_io tk of
                None \<Rightarrow> Some (sd1\<lparr>sd_done := True\<rparr>)
              | Some _ \<Rightarrow> count_sent blk sd1)"

definition udp_sender_turn :: "u64 \<Rightarrow> nat \<Rightarrow> tick \<Rightarrow> sender \<Rightarrow> sender option" where
  "udp_sender_turn bps deadline tk sd =
     (if sd_done sd then Some sd
      else if tk_cancelled tk \<or> deadline < tk_now tk then Some (sd\<lparr>sd_done := True\<rparr>)
      else let fresh = one_sec \<le> tk_rate tk - last_send sd;
               sd1 = (if fresh then sd\<lparr>last_send := tk_reset tk, bytes_this_second := 0\<rparr> else sd)
           in if \<not> fresh \<and> bps \<le> bytes_this_second sd then Some sd
              else case tk_io tk of
                None \<Rightarrow> Some (sd1\<lparr>sd_done := True\<rparr>)
              | Some n \<Rightarrow> count_sent n sd1)"

text \<open>Receivers: a read of 0 bytes ends a TCP loop; a timeout is a read without a result.\<close>

datatype read_result = ReadBytes nat | ReadError | ReadTimeout

record receiver =
  rc_bytes :: u64
  rc_done :: bool

definition tcp_receiver_turn :: "nat \<Rightarrow> bool \<Rightarrow> nat \<Rightarrow> read_result \<Rightarrow> receiver \<Rightarrow> receiver" where
  "tcp_receiver_turn deadline canc now r rc =
     (if rc_done rc then rc
      else if canc \<or> deadline < now then rc\<lparr>rc_done := True\<rparr>
      else case r of
        ReadBytes n \<Rightarrow> if n = 0 then rc\<lparr>rc_done := True\<rparr> else rc\<lparr>rc_bytes := rc_bytes rc + of_nat n\<rparr>
      | ReadError \<Rightarrow> rc\<lparr>rc_done := True\<rparr>
      | ReadTimeout \<Rightarrow> rc)"

definition udp_receiver_turn :: "nat \<Rightarrow> bool \<Rightarrow> nat \<Rightarrow> read_result \<Rightarrow> receiver \<Rightarrow> receiver" where
  "udp_receiver_turn deadline canc now r rc =
     (if rc_done rc then rc
      else if canc \<or> deadline < now then rc\<lparr>rc_done := True\<rparr>
      else case r of
        ReadBytes n \<Rightarrow> rc\<lparr>rc_bytes := rc_bytes rc + of_nat n\<rparr>
      | ReadError \<Rightarrow> rc\<lparr>rc_done := True\<rparr>
      | ReadTimeout \<Rightarrow> rc)"

subsection \<open>The rate limit of the senders\<close>

definition new_sender :: "nat \<Rightarrow> sender" where
  "new_sender start = \<lparr>last_send = start, bytes_this_second = 0, sd_bytes = 0, sd_done = False\<rparr>"

definition window_bound :: "u64 \<Rightarrow> nat \<Rightarrow> nat" where
  "window_bound bps blk = unat bps - 1 + blk"

definition sender_inv :: "nat \<Rightarrow> nat \<Rightarrow> nat \<Rightarrow> sender \<Rightarrow> bool" where
  "sender_inv start T B sd \<longleftrightarrow>
     start \<le> last_send sd \<and> last_send sd \<le> T \<and> unat (bytes_this_second sd) \<le> B \<and>
     unat (sd_bytes sd) \<le> (last_send sd - start) div one_sec * B + unat (bytes_this_second sd)"

lemma unat_add_le: "unat ((a :: u64) + of_nat n) \<le> unat a + n"
proof -
  have "unat (a + of_nat n) \<le> unat a + unat (of_nat n :: u64)"
    by (simp add: unat_word_ariths mod_less_eq_dividend)
  also have "unat (of_nat n :: u64) \<le> n" by (simp add: unat_of_nat take_bit_nat_eq_self_iff take_bit_nat_less_eq_self)
  finally show ?thesis by simp
qed

lemma count_sent_inv:
  assumes "sender_inv start T (window_bound bps blk) sd" and "n \<le> blk"
    and "unat (bytes_this_second sd) \<le> unat bps - 1" and "unat bps - 1 + blk < 2 ^ 64"
  shows "\<exists>sd'. count_sent n sd = Some sd' \<and> sender_inv start T (window_bound bps blk) sd'"
proof -
  have n: "unat (of_nat n :: u64) = n" using assms(2,4) by (intro unat_of_nat_small) simp
  then have "add_checked (bytes_this_second sd) (of_nat n) = Some (bytes_this_second sd + of_nat n)"
    using assms(2-4) by (simp add: add_checked_def)
  moreover from add_checked_Some [OF this] n
  have "unat (bytes_this_second sd + of_nat n) = unat (bytes_this_second sd) + n" by simp
  ultimately show ?thesis
    using assms(1-3) unat_add_le [of "sd_bytes sd" n]
    by (simp add: count_sent_def sender_inv_def window_bound_def)
qed

lemma reset_inv:
  assumes "sender_inv start T B sd" and "one_sec \<le> rate - last_send sd" and "rate \<le> reset" and "reset \<le> T"
  shows "sender_inv start T B (sd\<lparr>last_send := reset, bytes_this_second := 0\<rparr>)"
proof -
  have pos: "0 < one_sec" by (simp add: one_sec_def)
  have "last_send sd + one_sec \<le> reset" using assms(2,3) pos by linarith
  then have "(last_send sd - start) + one_sec \<le> reset - start"
    using assms(1) by (simp add: sender_inv_def)
  then have "((last_send sd - start) + one_sec) div one_sec \<le> (reset - start) div one_sec"
    by (rule div_le_mono)
  then have "(last_send sd - start) div one_sec + 1 \<le> (reset - start) div one_sec"
    using pos div_add_self2 [of one_sec "last_send sd - start"] by simp
  then have "((last_send sd - start) div one_sec + 1) * B \<le> (reset - start) div one_sec * B"
    by (rule mult_le_mono1)
  with assms(1,4) \<open>last_send sd + one_sec \<le> reset\<close> show ?thesis
    by (simp add: sender_inv_def)
qed

definition tick_ok :: "nat \<Rightarrow> nat \<Rightarrow> tick \<Rightarrow> bool" where
  "tick_ok T blk tk \<longleftrightarrow> tk_rate tk \<le> tk_reset tk \<and> tk_reset tk \<le> T \<and>
     (case tk_io tk of Some n \<Rightarrow> n \<le> blk | None \<Rightarrow> True)"

lemma sender_inv_done [simp]: "sender_inv a T B (sd\<lparr>sd_done := d\<rparr>) = sender_inv a T B sd"
  by (simp add: sender_inv_def)

lemma after_rate_check_inv:
  fixes sd tk bps
  defines "sd1 \<equiv> (if one_sec \<le> tk_rate tk - last_send sd
      then sd\<lparr>last_send := tk_reset tk, bytes_this_second := 0\<rparr> else sd)"
  assumes "sender_inv start T (window_bound bps blk) sd" and "tick_ok T blk tk"
    and "one_sec \<le> tk_rate tk - last_send sd \<or> \<not> bps \<le> bytes_this_second sd"
  shows "sender_inv start T (window_bound bps blk) sd1"
    and "unat (bytes_this_second sd1) \<le> unat bps - 1"
  using assms reset_inv [OF assms(2), of "tk_rate tk" "tk_reset tk"]
  by (auto simp: tick_ok_def word_le_nat_alt)

lemma tcp_turn_inv:
  assumes inv: "sender_inv start T (window_bound bps blk) sd" and tk: "tick_ok T blk tk"
    and "bps \<noteq> u64_max" and cap: "unat bps - 1 + blk < 2 ^ 64"
  shows "\<exists>sd'. tcp_sender_turn bps blk deadline tk sd = Some sd' \<and> sender_inv start T (window_bound bps blk) sd'"
proof -
  note after = after_rate_check_inv [OF inv tk]
  show ?thesis
    using assms after count_sent_inv [OF after(1) _ after(2) cap, of blk]
    by (auto simp: tcp_sender_turn_def Let_def split: option.splits)
qed

lemma udp_turn_inv:
  assumes inv: "sender_inv start T (window_bound bps blk) sd" and tk: "tick_ok T blk tk"
    and cap: "unat bps - 1 + blk < 2 ^ 64"
  shows "\<exists>sd'. udp_sender_turn bps deadline tk sd = Some sd' \<and> sender_inv start T (window_bound bps blk) sd'"
proof -
  note after = after_rate_check_inv [OF inv tk]
  show ?thesis
  proof (cases "tk_io tk")
    case None
    with assms after show ?thesis by (auto simp: udp_sender_turn_def Let_def)
  next
    case (Some n)
    with tk have "n \<le> blk" by (simp add: tick_ok_def)
    with Some assms after count_sent_inv [OF after(1) this after(2) cap]
    show ?thesis by (auto simp: udp_sender_turn_def Let_def)
  qed
qed

lemma sender_inv_total:
  assumes "sender_inv start T B sd"
  shows "unat (sd_bytes sd) \<le> ((T - start) div one_sec + 1) * B"
proof -
  have "(last_send sd - start) div one_sec * B \<le> (T - start) div one_sec * B"
    using assms by (intro mult_le_mono1 div_le_mono) (simp add: sender_inv_def diff_le_mono)
  moreover have "unat (sd_bytes sd) \<le> (last_send sd - start) div one_sec * B + B"
    using assms unfolding sender_inv_def by linarith
  ultimately have "unat (sd_bytes sd) \<le> (T - start) div one_sec * B + B" by linarith
  then show ?thesis by (simp add: algebra_simps)
qed

lemma new_sender_inv: "start \<le> T \<Longrightarrow> sender_inv start T B (new_sender start)"
  by (simp add: sender_inv_def new_sender_def)

lemma bps_small: "unat (bw div 8 :: u64) < 2 ^ 61"
proof -
  have "unat (bw div 8) = unat bw div 8" by (simp add: unat_div)
  moreover have "unat bw < 2 ^ 64" using unsigned_less [of bw] by simp
  ultimately show ?thesis by simp
qed

text \<open>
  C16. A rate limit holds. Whatever a run of a sending loop observes, the loop never panics,
  and until time \<open>T\<close> a stream with the bandwidth \<open>bw\<close> has sent at most \<open>bw / 8 - 1\<close> bytes and
  one block per started second, over TCP (when a bandwidth is given) and over UDP (where one is
  always in force).
\<close>

theorem sender_rate_bound:
  assumes "start \<le> T" and "\<forall>tk \<in> set ticks. tick_ok T blk tk" and "blk < 2 ^ 32"
  shows "(0 < bw \<longrightarrow>
      (\<exists>sd. run_ticks (tcp_sender_turn (tcp_bytes_per_second bw) blk deadline) ticks (new_sender start) = Some sd \<and>
         unat (sd_bytes sd) \<le> ((T - start) div one_sec + 1) * (unat bw div 8 - 1 + blk))) \<and>
    (\<exists>sd. run_ticks (udp_sender_turn (udp_bytes_per_second bw) deadline) ticks (new_sender start) = Some sd \<and>
       unat (sd_bytes sd) \<le> ((T - start) div one_sec + 1) *
         ((if 0 < bw then unat bw div 8 else 125000) - 1 + blk))"
proof -
  have cap: "unat bps - 1 + blk < 2 ^ 64" if "unat bps < 2 ^ 61" for bps :: u64
    using that assms(3) by simp
  have tcp: "\<exists>sd. run_ticks (tcp_sender_turn bps blk deadline) ticks (new_sender start) = Some sd \<and>
      sender_inv start T (window_bound bps blk) sd" if "unat bps < 2 ^ 61" for bps :: u64
  proof (rule run_ticks_invariant)
    have "bps \<noteq> u64_max" using that by (auto simp: u64_max_def unsigned_minus_1_eq_mask mask_eq_exp_minus_1)
    then show "\<exists>s'. tcp_sender_turn bps blk deadline t s = Some s' \<and> sender_inv start T (window_bound bps blk) s'"
      if "t \<in> set ticks" "sender_inv start T (window_bound bps blk) s" for t s
      using that assms(2) cap [OF \<open>unat bps < 2 ^ 61\<close>] by (intro tcp_turn_inv) auto
  qed (rule new_sender_inv [OF assms(1)])
  have udp: "\<exists>sd. run_ticks (udp_sender_turn bps deadline) ticks (new_sender start) = Some sd \<and>
      sender_inv start T (window_bound bps blk) sd" if "unat bps < 2 ^ 61" for bps :: u64
  proof (rule run_ticks_invariant)
    show "\<exists>s'. udp_sender_turn bps deadline t s = Some s' \<and> sender_inv start T (window_bound bps blk) s'"
      if "t \<in> set ticks" "sender_inv start T (window_bound bps blk) s" for t s
      using that assms(2) cap [OF \<open>unat bps < 2 ^ 61\<close>] by (intro udp_turn_inv) auto
  qed (rule new_sender_inv [OF assms(1)])
  have default_bps: "udp_bytes_per_second 0 = 125000" by (simp add: udp_bytes_per_second_def)
  show ?thesis
    using tcp [OF bps_small [of bw]] udp [OF bps_small [of bw]] udp [of 125000] default_bps
    by (fastforce simp: tcp_bytes_per_second_def udp_bytes_per_second_def window_bound_def unat_div
        dest!: sender_inv_total split: if_splits)
qed

definition sample_tick :: tick where
  "sample_tick = \<lparr>tk_cancelled = False, tk_now = 5, tk_rate = 5, tk_reset = 6, tk_io = Some 1000\<rparr>"

theorem sender_rate_bound_witness:
  "\<exists>sd. run_ticks (tcp_sender_turn (tcp_bytes_per_second 8000) 1000 100) [sample_tick, sample_tick] (new_sender 0) = Some sd \<and>
     unat (sd_bytes sd) \<le> 1999"
  using sender_rate_bound [of 0 6 "[sample_tick, sample_tick]" 1000 8000 100]
  by (simp add: sample_tick_def tick_ok_def one_sec_def)

end
