(* ===== verification/Iperf3_Run.thy ===== *)
theory Iperf3_Run
  imports Iperf3_Session "HOL-Library.Sublist"
begin

text \<open>
  The protocol of one session: \<open>run_session_protocol\<close> and \<open>accept_udp_streams\<close> of
  \<open>iperf3-server/src/server.rs\<close>. A program point names the next statement that touches the
  connection, the clock or the session; the parameters the client sent travel in it. Time is in
  nanoseconds.
\<close>

definition STREAM_CONNECT_TIMEOUT :: nat where
  "STREAM_CONNECT_TIMEOUT = 10 * one_sec"

text \<open>The largest \<open>Instant\<close>: adding a duration beyond it panics.\<close>

definition instant_max :: nat where
  "instant_max = 2 ^ 63 * one_sec - 1"

record ('v, 'f) session_env =
  env_max_duration :: u64
  env_max_bandwidth :: u64
  env_from_slice :: "bytes \<Rightarrow> 'v option"
  env_from_value :: "'v \<Rightarrow> 'f TestParameters option"
  env_to_vec :: "'f ExchangeResultsData \<Rightarrow> bytes option"
  env_zero :: 'f
  env_secs :: "nat \<Rightarrow> 'f"

definition apply_limits :: "u64 \<Rightarrow> u64 \<Rightarrow> 'f TestParameters \<Rightarrow> 'f TestParameters" where
  "apply_limits max_dur max_bw p =
     (let p1 = (if 0 < max_dur \<and> max_dur < tp_time p then p\<lparr>tp_time := max_dur\<rparr> else p)
      in if 0 < max_bw \<and> max_bw < bandwidth p1 then p1\<lparr>bandwidth := max_bw\<rparr> else p1)"

datatype 'f pc =
    AtParamExchange
  | AtReadParams
  | AtCreateStreams "'f TestParameters"
  | AtWaitBegin "'f TestParameters"
  | AtWaitTcp "'f TestParameters" nat
  | AtWaitUdp "'f TestParameters" nat nat
  | AtTestStart "'f TestParameters"
  | AtStartTest "'f TestParameters"
  | AtTestRunning "'f TestParameters"
  | AtStartData "'f TestParameters"
  | AtWaitEnd "'f TestParameters"
  | AtExchange
  | AtReadResults
  | AtWriteResults
  | AtDisplay bytes
  | AtWaitDone bytes
  | AtTerminate bytes
  | Finished bytes
  | Failed Iperf3Error
  | Panicked

text \<open>The program points that send a state byte, with the state and the next point.\<close>

fun sends :: "'f pc \<Rightarrow> (State \<times> 'f pc) option" where
  "sends AtParamExchange = Some (ParamExchange, AtReadParams)"
| "sends (AtCreateStreams p) = Some (CreateStreams, AtWaitBegin p)"
| "sends (AtTestStart p) = Some (TestStart, AtStartTest p)"
| "sends (AtTestRunning p) = Some (TestRunning, AtStartData p)"
| "sends AtExchange = Some (ExchangeResults, AtReadResults)"
| "sends (AtDisplay d) = Some (DisplayResults, AtWaitDone d)"
| "sends (AtTerminate d) = Some (ServerTerminate, Finished d)"
| "sends _ = None"

record 'f conf =
  cf_pc :: "'f pc"
  cf_sess :: "'f TestSession"
  cf_ctl :: control
  cf_time :: nat

definition expected_streams :: "'f TestParameters \<Rightarrow> nat" where
  "expected_streams p = unat (tp_parallel p)"

definition after_params :: "('v, 'f) session_env \<Rightarrow> Iperf3Error + 'v \<Rightarrow> 'f TestSession \<Rightarrow> 'f pc \<times> 'f TestSession" where
  "after_params env r s =
     (case r of
        Inl e \<Rightarrow> (Failed e, s)
      | Inr v \<Rightarrow>
          (case env_from_value env v of
             None \<Rightarrow> (Failed Json, s)
           | Some p \<Rightarrow>
               (let p' = apply_limits (env_max_duration env) (env_max_bandwidth env) p
                in (AtCreateStreams p', set_udp_mode (udp p') s))))"

text \<open>
  Starting the data tasks: nothing happens without streams, otherwise the deadline
  \<open>Instant::now() + max_duration\<close> is computed.
\<close>

definition start_data :: "nat \<Rightarrow> 'f TestParameters \<Rightarrow> 'f TestSession \<Rightarrow> 'f pc" where
  "start_data now p s =
     (if stream_count s = 0 then AtWaitEnd p
      else if instant_max < now + unat (tp_time p) * one_sec then Panicked
      else AtWaitEnd p)"

definition exchange_results :: "('v, 'f) session_env \<Rightarrow> nat \<Rightarrow> 'f TestSession \<Rightarrow> bytes option" where
  "exchange_results env now s =
     env_to_vec env (generate_exchange_results (env_zero env)
       (env_secs env (case test_elapsed now s of Some d \<Rightarrow> d | None \<Rightarrow> 0)) s)"

definition timeout_message :: "nat \<Rightarrow> nat \<Rightarrow> string" where
  "timeout_message expected got =
     ''Timeout waiting for '' @ dec expected @ '' data streams, got '' @ dec got"

inductive session_step :: "('v, 'f) session_env \<Rightarrow> 'f conf \<Rightarrow> 'f conf \<Rightarrow> bool" for env where
  send:
    "session_step env cf (cf\<lparr>cf_pc := pc', cf_sess := s', cf_ctl := c'\<rparr>)"
    if "sends (cf_pc cf) = Some (st, pc')" and "send_state st (cf_sess cf, cf_ctl cf) = (s', c')"
| send_fails:
    "session_step env cf (cf\<lparr>cf_pc := Failed Io\<rparr>)"
    if "sends (cf_pc cf) \<noteq> None"
| read_params:
    "session_step env cf (cf\<lparr>cf_pc := fst (after_params env r (cf_sess cf)),
       cf_sess := snd (after_params env r (cf_sess cf)), cf_ctl := c'\<rparr>)"
    if "cf_pc cf = AtReadParams" and "read_json_message (env_from_slice env) (cf_ctl cf) = (r, c')"
| wait_begin:
    "session_step env cf (cf\<lparr>cf_pc :=
       (if udp p then AtWaitUdp p (cf_time cf) 0 else AtWaitTcp p (cf_time cf))\<rparr>)"
    if "cf_pc cf = AtWaitBegin p"
| tcp_ready:
    "session_step env cf (cf\<lparr>cf_pc := AtTestStart p\<rparr>)"
    if "cf_pc cf = AtWaitTcp p t0" and "expected_streams p \<le> stream_count (cf_sess cf)"
| tcp_timeout:
    "session_step env cf (cf\<lparr>cf_pc := Failed (Protocol
       (timeout_message (expected_streams p) (stream_count (cf_sess cf))))\<rparr>)"
    if "cf_pc cf = AtWaitTcp p t0" and "stream_count (cf_sess cf) < expected_streams p"
      and "STREAM_CONNECT_TIMEOUT < cf_time cf - t0"
| udp_ready:
    "session_step env cf (cf\<lparr>cf_pc := AtTestStart p\<rparr>)"
    if "cf_pc cf = AtWaitUdp p t0 k" and "k = expected_streams p"
| udp_accept:
    "session_step env cf (cf\<lparr>cf_pc := AtWaitUdp p t0 (k + 1), cf_sess := add_udp_stream (cf_sess cf)\<rparr>)"
    if "cf_pc cf = AtWaitUdp p t0 k" and "k < expected_streams p"
      and "\<not> STREAM_CONNECT_TIMEOUT < cf_time cf - t0"
| udp_fails:
    "session_step env cf (cf\<lparr>cf_pc := Failed (Protocol msg)\<rparr>)"
    if "cf_pc cf = AtWaitUdp p t0 k" and "k < expected_streams p"
| begin_test:
    "session_step env cf (cf\<lparr>cf_pc := AtTestRunning p, cf_sess := start_test (cf_time cf) (cf_sess cf)\<rparr>)"
    if "cf_pc cf = AtStartTest p"
| begin_data:
    "session_step env cf (cf\<lparr>cf_pc := start_data (cf_time cf) p (cf_sess cf)\<rparr>)"
    if "cf_pc cf = AtStartData p"
| test_end:
    "session_step env cf (cf\<lparr>cf_pc := AtExchange, cf_sess := cancel (cf_sess cf), cf_ctl := c'\<rparr>)"
    if "cf_pc cf = AtWaitEnd p" and "read_state (cf_ctl cf) = (Inr st, c')"
| test_end_fails:
    "session_step env cf (cf\<lparr>cf_pc := Failed e, cf_ctl := c'\<rparr>)"
    if "cf_pc cf = AtWaitEnd p" and "read_state (cf_ctl cf) = (Inl e, c')"
| read_results:
    "session_step env cf (cf\<lparr>cf_pc := (case r of Inl e \<Rightarrow> Failed e | Inr _ \<Rightarrow> AtWriteResults), cf_ctl := c'\<rparr>)"
    if "cf_pc cf = AtReadResults" and "read_json_message (env_from_slice env) (cf_ctl cf) = (r, c')"
| write_results:
    "session_step env cf (cf\<lparr>cf_pc := AtDisplay d, cf_ctl := write_json_message d (cf_ctl cf)\<rparr>)"
    if "cf_pc cf = AtWriteResults" and "exchange_results env (cf_time cf) (cf_sess cf) = Some d"
| write_results_fails:
    "session_step env cf (cf\<lparr>cf_pc := Failed e, cf_ctl := (cf_ctl cf)\<lparr>outp := outp (cf_ctl cf) @ part\<rparr>\<rparr>)"
    if "cf_pc cf = AtWriteResults"
      and "(exchange_results env (cf_time cf) (cf_sess cf) = None \<and> e = Json \<and> part = []) \<or>
           (\<exists>d. exchange_results env (cf_time cf) (cf_sess cf) = Some d \<and> e = Io \<and>
             prefix (outp (cf_ctl cf) @ part) (outp (write_json_message d (cf_ctl cf))))"
| client_done:
    "session_step env cf (cf\<lparr>cf_pc := AtTerminate d, cf_ctl := c'\<rparr>)"
    if "cf_pc cf = AtWaitDone d" and "read_state (cf_ctl cf) = (Inr st, c')"
| client_done_fails:
    "session_step env cf (cf\<lparr>cf_pc := Failed e, cf_ctl := c'\<rparr>)"
    if "cf_pc cf = AtWaitDone d" and "read_state (cf_ctl cf) = (Inl e, c')"
| stream_connects: "session_step env cf (cf\<lparr>cf_sess := add_data_stream (cf_sess cf)\<rparr>)"
| bytes_in: "session_step env cf (cf\<lparr>cf_sess := add_bytes_received n (cf_sess cf)\<rparr>)"
| bytes_out: "session_step env cf (cf\<lparr>cf_sess := add_bytes_sent n (cf_sess cf)\<rparr>)"
| time_passes: "session_step env cf (cf\<lparr>cf_time := cf_time cf + d\<rparr>)"

inductive session_reach :: "('v, 'f) session_env \<Rightarrow> 'f conf \<Rightarrow> 'f conf \<Rightarrow> bool" for env c0 where
  reach_start: "session_reach env c0 c0"
| reach_step: "session_reach env c0 c2" if "session_reach env c0 c1" and "session_step env c1 c2"

definition start_conf :: "'f \<Rightarrow> string \<Rightarrow> socket_addr \<Rightarrow> bytes \<Rightarrow> nat \<Rightarrow> 'f conf" where
  "start_conf one ck addr input now =
     \<lparr>cf_pc = AtParamExchange, cf_sess = new_test_session one ck addr,
      cf_ctl = \<lparr>inp = input, outp = []\<rparr>, cf_time = now\<rparr>"

subsection \<open>Invariants of a session\<close>

lemma session_invariant:
  assumes "session_reach env c0 cf" and "I c0"
    and "\<And>c1 c2. session_step env c1 c2 \<Longrightarrow> I c1 \<Longrightarrow> I c2"
  shows "I cf"
  using assms(1) by induction (auto intro: assms(2,3))

lemmas session_ops =
  set_udp_mode_def cancel_def add_bytes_received_def add_bytes_sent_def add_data_stream_def
  add_udp_stream_def start_test_def send_state_def

subsubsection \<open>What the server writes\<close>

definition framed :: "bytes \<Rightarrow> bytes" where
  "framed d = outp (write_json_message d \<lparr>inp = [], outp = []\<rparr>)"

definition pieces :: "bytes \<Rightarrow> bytes list" where
  "pieces d = [[to_byte ParamExchange], [to_byte CreateStreams], [to_byte TestStart],
     [to_byte TestRunning], [to_byte ExchangeResults], framed d, [to_byte DisplayResults],
     [to_byte ServerTerminate]]"

definition transcript :: "bytes \<Rightarrow> bytes" where
  "transcript d = concat (pieces d)"

text \<open>How many of the pieces have been written at a program point.\<close>

fun phase :: "'f pc \<Rightarrow> nat" where
  "phase AtParamExchange = 0"
| "phase AtReadParams = 1"
| "phase (AtCreateStreams p) = 1"
| "phase (AtWaitBegin p) = 2"
| "phase (AtWaitTcp p t) = 2"
| "phase (AtWaitUdp p t k) = 2"
| "phase (AtTestStart p) = 2"
| "phase (AtStartTest p) = 3"
| "phase (AtTestRunning p) = 3"
| "phase (AtStartData p) = 4"
| "phase (AtWaitEnd p) = 4"
| "phase AtExchange = 4"
| "phase AtReadResults = 5"
| "phase AtWriteResults = 5"
| "phase (AtDisplay d) = 6"
| "phase (AtWaitDone d) = 7"
| "phase (AtTerminate d) = 7"
| "phase _ = 8"

fun result_of :: "'f pc \<Rightarrow> bytes" where
  "result_of (AtDisplay d) = d"
| "result_of (AtWaitDone d) = d"
| "result_of (AtTerminate d) = d"
| "result_of (Finished d) = d"
| "result_of _ = []"

fun stopped :: "'f pc \<Rightarrow> bool" where
  "stopped (Failed e) = True"
| "stopped Panicked = True"
| "stopped _ = False"

definition out_inv :: "'f conf \<Rightarrow> bool" where
  "out_inv cf \<longleftrightarrow>
     (if stopped (cf_pc cf) then \<exists>d. prefix (outp (cf_ctl cf)) (transcript d)
      else outp (cf_ctl cf) = concat (take (phase (cf_pc cf)) (pieces (result_of (cf_pc cf)))))"

lemma outp_write: "outp (write_json_message d c) = outp c @ framed d"
  by (simp add: framed_def write_json_message_def)

lemma prefix_transcript: "prefix (concat (take n (pieces d))) (transcript d)"
  unfolding transcript_def by (metis append_take_drop_id concat_append prefixI)

lemma outp_read_json: "read_json_message f c = (r, c') \<Longrightarrow> outp c' = outp c"
  by (auto simp: read_json_message_def read_exact_def Let_def split: if_splits option.splits)

lemma outp_read_state: "read_state c = (r, c') \<Longrightarrow> outp c' = outp c"
  by (auto simp: read_state_def read_exact_def split: if_splits option.splits)

lemma out_inv_stop:
  assumes "out_inv cf" and "stopped pc'"
  shows "out_inv (cf\<lparr>cf_pc := pc'\<rparr>)"
  using assms prefix_transcript by (auto simp: out_inv_def split: if_splits)

lemma after_params_phase:
  "stopped (fst (after_params env r s)) \<or> phase (fst (after_params env r s)) = 1 \<and>
     result_of (fst (after_params env r s)) = []"
  by (auto simp: after_params_def Let_def split: sum.splits option.splits)

lemma out_inv_step:
  assumes "session_step env c1 c2" and "out_inv c1"
  shows "out_inv c2"
  using assms
proof cases
  case (send st pc' s' c')
  with assms(2) show ?thesis
    by (cases "cf_pc c1") (auto simp: out_inv_def send_state_def pieces_def numeral_eq_Suc)
next
  case (write_results_fails e part)
  then obtain d where "prefix (outp (cf_ctl c1) @ part) (concat (take 6 (pieces d)))"
    using assms(2) by (auto simp: out_inv_def outp_write pieces_def numeral_eq_Suc)
  then have "prefix (outp (cf_ctl c1) @ part) (transcript d)"
    using prefix_transcript prefix_order.trans by blast
  with write_results_fails show ?thesis by (auto simp: out_inv_def)
next
  case (read_params r c')
  with assms(2) after_params_phase [of env r "cf_sess c1"] prefix_transcript [of 1 "[]"]
  show ?thesis by (auto simp: out_inv_def outp_read_json)
next
  case (send_fails)
  with assms(2) show ?thesis by (simp add: out_inv_stop)
next
  case (begin_data p)
  with assms(2) prefix_transcript [of 4 "[]"] show ?thesis by (auto simp: out_inv_def start_data_def)
next
  case (read_results r c')
  with assms(2) prefix_transcript [of 5 "[]"] show ?thesis
    by (auto simp: out_inv_def outp_read_json split: sum.splits)
next
  case (write_results d)
  with assms(2) show ?thesis by (auto simp: out_inv_def outp_write pieces_def numeral_eq_Suc)
qed (use assms(2) prefix_transcript in \<open>auto simp: out_inv_def outp_read_state\<close>)

subsubsection \<open>What the server has read\<close>

datatype msg_kind = JsonMsg | StateMsg

fun client_msg :: "(bytes \<Rightarrow> 'v option) \<Rightarrow> msg_kind \<Rightarrow> bytes \<Rightarrow> bool" where
  "client_msg f JsonMsg b \<longleftrightarrow> (\<exists>d. b = frame d \<and> length d \<le> MAX_MESSAGE_SIZE \<and> f d \<noteq> None)"
| "client_msg f StateMsg b \<longleftrightarrow> (\<exists>st. b = [to_byte st])"

definition client_kinds :: "msg_kind list" where
  "client_kinds = [JsonMsg, StateMsg, JsonMsg, StateMsg]"

lemma client_kinds_nth [simp]:
  "client_kinds ! 0 = JsonMsg" "client_kinds ! Suc 0 = StateMsg" "client_kinds ! 2 = JsonMsg"
  "client_kinds ! 3 = StateMsg"
  by (simp_all add: client_kinds_def)

fun reads :: "'f pc \<Rightarrow> nat" where
  "reads AtParamExchange = 0"
| "reads AtReadParams = 0"
| "reads AtExchange = 2"
| "reads AtReadResults = 2"
| "reads AtWriteResults = 3"
| "reads (AtDisplay d) = 3"
| "reads (AtWaitDone d) = 3"
| "reads (AtTerminate d) = 4"
| "reads (Finished d) = 4"
| "reads _ = 1"

definition in_inv :: "('v, 'f) session_env \<Rightarrow> bytes \<Rightarrow> 'f conf \<Rightarrow> bool" where
  "in_inv env input cf \<longleftrightarrow> stopped (cf_pc cf) \<or>
     (\<exists>ms. list_all2 (client_msg (env_from_slice env)) (take (reads (cf_pc cf)) client_kinds) ms \<and>
        input = concat ms @ inp (cf_ctl cf))"

lemma read_exact_Inr: "read_exact n c = (Inr b, c') \<Longrightarrow> inp c = b @ inp c' \<and> length b = n"
  by (auto simp: read_exact_def split: if_splits)

lemma read_json_Inr:
  assumes "read_json_message f c = (Inr v, c')"
  shows "\<exists>b. client_msg f JsonMsg b \<and> inp c = b @ inp c'"
proof -
  from assms obtain lb c1 d where 1: "read_exact 4 c = (Inr lb, c1)" "be_nat lb \<le> MAX_MESSAGE_SIZE"
      "read_exact (be_nat lb) c1 = (Inr d, c')" "f d = Some v"
    by (auto simp: read_json_message_def Let_def split: prod.splits sum.splits if_splits option.splits)
  from read_exact_Inr [OF 1(1)] read_exact_Inr [OF 1(3)]
  have "inp c = lb @ d @ inp c'" "length lb = 4" "length d = be_nat lb" by auto
  then have "inp c = frame d @ inp c'" by (simp add: frame_def be_bytes_be_nat)
  with 1(2,4) \<open>length d = be_nat lb\<close> show ?thesis by (intro exI [of _ "frame d"]) auto
qed

lemma read_state_Inr:
  assumes "read_state c = (Inr st, c')"
  shows "inp c = [to_byte st] @ inp c'"
proof -
  from assms obtain b where 1: "read_exact 1 c = (Inr b, c')" "from_byte (b ! 0) = Some st"
    by (auto simp: read_state_def split: prod.splits sum.splits option.splits)
  then show ?thesis using read_exact_Inr [OF 1(1)] from_byte_eq_Some [OF 1(2)]
    by (cases b) auto
qed

lemma in_inv_same:
  assumes "in_inv env input cf" and "\<not> stopped (cf_pc cf)" and "stopped pc' \<or> reads pc' = reads (cf_pc cf)"
    and "inp c' = inp (cf_ctl cf)"
  shows "in_inv env input (cf\<lparr>cf_pc := pc', cf_sess := s', cf_ctl := c'\<rparr>)"
  using assms by (auto simp: in_inv_def)

lemma in_inv_advance:
  assumes "in_inv env input cf" and "\<not> stopped (cf_pc cf)"
    and "client_msg (env_from_slice env) (client_kinds ! reads (cf_pc cf)) b"
    and "inp (cf_ctl cf) = b @ inp c'" and "reads pc' = Suc (reads (cf_pc cf))"
    and "reads (cf_pc cf) < 4"
  shows "in_inv env input (cf\<lparr>cf_pc := pc', cf_sess := s', cf_ctl := c'\<rparr>)"
proof -
  from assms(1,2) obtain ms where ms:
    "list_all2 (client_msg (env_from_slice env)) (take (reads (cf_pc cf)) client_kinds) ms"
    "input = concat ms @ inp (cf_ctl cf)" by (auto simp: in_inv_def)
  have "take (reads pc') client_kinds = take (reads (cf_pc cf)) client_kinds @ [client_kinds ! reads (cf_pc cf)]"
    unfolding assms(5) by (rule take_Suc_conv_app_nth) (use assms(6) in \<open>simp add: client_kinds_def\<close>)
  with ms assms(3,4) show ?thesis
    unfolding in_inv_def by (intro disjI2 exI [of _ "ms @ [b]"]) (auto intro: list_all2_appendI)
qed

lemma reads_sends: "sends pc = Some (st, pc') \<Longrightarrow> reads pc' = reads pc \<and> \<not> stopped pc"
  by (cases pc) auto

lemma in_inv_step:
  assumes "session_step env c1 c2" and "in_inv env input c1"
  shows "in_inv env input c2"
  using assms
proof cases
  case (send st pc' s' c')
  moreover from send(3) have "inp c' = inp (cf_ctl c1)" by (auto simp: send_state_def)
  ultimately show ?thesis
    using reads_sends [OF send(2)] in_inv_same [OF assms(2), of pc' c' s'] by simp
next
  case (read_params r c')
  show ?thesis
  proof (cases "stopped (fst (after_params env r (cf_sess c1)))")
    case False
    then obtain v p where r: "r = Inr v" and p: "fst (after_params env r (cf_sess c1)) = AtCreateStreams p"
      by (auto simp: after_params_def Let_def split: sum.splits option.splits)
    from read_json_Inr [of "env_from_slice env" "cf_ctl c1" v c'] read_params(3) r
    obtain b where b: "client_msg (env_from_slice env) JsonMsg b" "inp (cf_ctl c1) = b @ inp c'" by auto
    show ?thesis
      unfolding read_params(1) p using read_params(2) b(1)
      by (intro in_inv_advance [OF assms(2) _ _ b(2)]) (simp_all del: client_msg.simps)
  qed (simp add: read_params in_inv_def)
next
  case (read_results r c')
  show ?thesis
  proof (cases r)
    case (Inr v)
    from read_json_Inr [of "env_from_slice env" "cf_ctl c1" v c'] read_results(3) Inr
    obtain b where b: "client_msg (env_from_slice env) JsonMsg b" "inp (cf_ctl c1) = b @ inp c'" by auto
    have "in_inv env input (c1\<lparr>cf_pc := AtWriteResults, cf_sess := cf_sess c1, cf_ctl := c'\<rparr>)"
      using read_results(2) b(1)
      by (intro in_inv_advance [OF assms(2) _ _ b(2)]) (simp_all del: client_msg.simps)
    with Inr read_results(1) show ?thesis by simp
  qed (simp add: read_results in_inv_def)
next
  case (test_end p st c')
  show ?thesis
    unfolding test_end(1) using test_end(2)
    by (intro in_inv_advance [OF assms(2) _ _ read_state_Inr [OF test_end(3)]]) auto
next
  case (client_done d st c')
  have "in_inv env input (c1\<lparr>cf_pc := AtTerminate d, cf_sess := cf_sess c1, cf_ctl := c'\<rparr>)"
    using client_done(2)
    by (intro in_inv_advance [OF assms(2) _ _ read_state_Inr [OF client_done(3)]]) auto
  with client_done(1) show ?thesis by simp
next
  case (begin_data p)
  with in_inv_same [OF assms(2), of "start_data (cf_time c1) p (cf_sess c1)" "cf_ctl c1" "cf_sess c1"]
  show ?thesis by (simp add: start_data_def)
next
  case (write_results d)
  with in_inv_same [OF assms(2), of "AtDisplay d" "write_json_message d (cf_ctl c1)" "cf_sess c1"]
  show ?thesis by (simp add: write_json_message_def)
next
  case (send_fails)
  with assms(2) show ?thesis by (simp add: in_inv_def)
next
  case (wait_begin p)
  with assms(2) show ?thesis by (simp add: in_inv_def)
next
  case (tcp_ready p t0)
  with assms(2) show ?thesis by (simp add: in_inv_def)
next
  case (tcp_timeout p t0)
  with assms(2) show ?thesis by (simp add: in_inv_def)
next
  case (udp_ready p t0 k)
  with assms(2) show ?thesis by (simp add: in_inv_def)
next
  case (udp_accept p t0 k)
  with assms(2) show ?thesis by (simp add: in_inv_def)
next
  case (udp_fails p t0 k msg)
  with assms(2) show ?thesis by (simp add: in_inv_def)
next
  case (begin_test p)
  with assms(2) show ?thesis by (simp add: in_inv_def)
next
  case (test_end_fails p e c')
  with assms(2) show ?thesis by (simp add: in_inv_def)
next
  case (write_results_fails e part)
  with assms(2) show ?thesis by (simp add: in_inv_def)
next
  case (client_done_fails d e c')
  with assms(2) show ?thesis by (simp add: in_inv_def)
next
  case (stream_connects)
  with assms(2) show ?thesis by (simp add: in_inv_def)
next
  case (bytes_in n)
  with assms(2) show ?thesis by (simp add: in_inv_def)
next
  case (bytes_out n)
  with assms(2) show ?thesis by (simp add: in_inv_def)
next
  case (time_passes d)
  with assms(2) show ?thesis by (simp add: in_inv_def)
qed

subsubsection \<open>Parameters, streams and flags\<close>

fun params_of :: "'f pc \<Rightarrow> 'f TestParameters option" where
  "params_of (AtCreateStreams p) = Some p"
| "params_of (AtWaitBegin p) = Some p"
| "params_of (AtWaitTcp p t) = Some p"
| "params_of (AtWaitUdp p t k) = Some p"
| "params_of (AtTestStart p) = Some p"
| "params_of (AtStartTest p) = Some p"
| "params_of (AtTestRunning p) = Some p"
| "params_of (AtStartData p) = Some p"
| "params_of (AtWaitEnd p) = Some p"
| "params_of _ = None"

definition within_limits :: "u64 \<Rightarrow> u64 \<Rightarrow> 'f TestParameters \<Rightarrow> bool" where
  "within_limits max_dur max_bw p \<longleftrightarrow>
     (0 < max_dur \<longrightarrow> tp_time p \<le> max_dur) \<and> (0 < max_bw \<longrightarrow> bandwidth p \<le> max_bw)"

lemma apply_limits_within: "within_limits max_dur max_bw (apply_limits max_dur max_bw p)"
  by (auto simp: within_limits_def apply_limits_def Let_def)

text \<open>The streams that a program point can count on.\<close>

fun ready_streams :: "'f pc \<Rightarrow> nat" where
  "ready_streams (AtWaitUdp p t k) = k"
| "ready_streams (AtTestStart p) = expected_streams p"
| "ready_streams (AtStartTest p) = expected_streams p"
| "ready_streams (AtTestRunning p) = expected_streams p"
| "ready_streams (AtStartData p) = expected_streams p"
| "ready_streams (AtWaitEnd p) = expected_streams p"
| "ready_streams _ = 0"

text \<open>The program points after the start of the test's clock.\<close>

fun timed :: "'f pc \<Rightarrow> bool" where
  "timed (AtTestRunning p) = True"
| "timed (AtStartData p) = True"
| "timed (AtWaitEnd p) = True"
| "timed (Failed e) = False"
| "timed Panicked = False"
| "timed pc = (4 \<le> phase pc)"

definition param_inv :: "('v, 'f) session_env \<Rightarrow> 'f conf \<Rightarrow> bool" where
  "param_inv env cf \<longleftrightarrow>
     (case params_of (cf_pc cf) of
        Some p \<Rightarrow> within_limits (env_max_duration env) (env_max_bandwidth env) p \<and>
          is_udp (cf_sess cf) = udp p \<and> ready_streams (cf_pc cf) \<le> stream_count (cf_sess cf)
      | None \<Rightarrow> True) \<and>
     (\<forall>p t k. cf_pc cf = AtWaitUdp p t k \<longrightarrow> udp p \<and> k \<le> expected_streams p) \<and>
     (cf_pc cf = Panicked \<longrightarrow> 0 < env_max_duration env \<longrightarrow>
        instant_max < cf_time cf + unat (env_max_duration env) * one_sec) \<and>
     (timed (cf_pc cf) \<longrightarrow> test_started_at (cf_sess cf) \<noteq> None) \<and>
     (2 \<le> reads (cf_pc cf) \<longrightarrow> cancelled (cf_sess cf)) \<and>
     (\<forall>d. cf_pc cf = Finished d \<longrightarrow> ts_state (cf_sess cf) = ServerTerminate)"

lemma stream_count_update [simp]:
  "stream_count (s\<lparr>ts_state := st\<rparr>) = stream_count s"
  "stream_count (s\<lparr>bytes_received := n\<rparr>) = stream_count s"
  "stream_count (s\<lparr>bytes_sent := n\<rparr>) = stream_count s"
  "stream_count (s\<lparr>cancelled := b\<rparr>) = stream_count s"
  "stream_count (s\<lparr>test_started_at := t\<rparr>) = stream_count s"
  by (simp_all add: stream_count_def)

lemma param_inv_step:
  assumes "session_step env c1 c2" and "param_inv env c1"
  shows "param_inv env c2"
  using assms
proof cases
  case (send st pc' s' c')
  with assms(2) show ?thesis
    by (cases "cf_pc c1") (auto simp: param_inv_def send_state_def)
next
  case (read_params r c')
  with assms(2) show ?thesis
    by (simp add: param_inv_def after_params_def Let_def set_udp_mode_def apply_limits_within
        split: sum.split option.split)
next
  case (begin_data p)
  then have p: "within_limits (env_max_duration env) (env_max_bandwidth env) p"
    using assms(2) by (simp add: param_inv_def)
  have late: "instant_max < cf_time c1 + unat (env_max_duration env) * one_sec"
    if "0 < env_max_duration env" "instant_max < cf_time c1 + unat (tp_time p) * one_sec"
  proof -
    have "unat (tp_time p) * one_sec \<le> unat (env_max_duration env) * one_sec"
      using p that by (intro mult_le_mono1) (simp add: within_limits_def word_le_nat_alt)
    with that(2) show ?thesis by linarith
  qed
  show ?thesis
  proof (cases "start_data (cf_time c1) p (cf_sess c1) = Panicked")
    case True
    then have "instant_max < cf_time c1 + unat (tp_time p) * one_sec"
      by (simp add: start_data_def split: if_splits)
    with True begin_data late show ?thesis by (simp add: param_inv_def)
  next
    case False
    then have "start_data (cf_time c1) p (cf_sess c1) = AtWaitEnd p"
      by (simp add: start_data_def split: if_splits)
    with begin_data assms(2) show ?thesis by (simp add: param_inv_def)
  qed
next
  case stream_connects
  moreover have "stream_count (cf_sess c1) \<le> stream_count (add_data_stream (cf_sess c1))"
    by (simp add: stream_count_def add_data_stream_def)
  moreover have "is_udp (add_data_stream s) = is_udp s" "cancelled (add_data_stream s) = cancelled s"
    "test_started_at (add_data_stream s) = test_started_at s" "ts_state (add_data_stream s) = ts_state s"
    for s :: "'b TestSession" by (simp_all add: add_data_stream_def)
  ultimately show ?thesis
    using assms(2) by (cases "params_of (cf_pc c1)") (auto simp: param_inv_def)
next
  case (bytes_in n)
  then show ?thesis
    using assms(2) by (cases "params_of (cf_pc c1)") (simp_all add: param_inv_def session_ops)
next
  case (bytes_out n)
  then show ?thesis
    using assms(2) by (cases "params_of (cf_pc c1)") (simp_all add: param_inv_def session_ops)
next
  case (time_passes d)
  then show ?thesis
    using assms(2) by (cases "params_of (cf_pc c1)") (auto simp: param_inv_def)
next
  case (read_results r c')
  then show ?thesis using assms(2) by (cases r) (simp_all add: param_inv_def)
next
  case (wait_begin p)
  then show ?thesis using assms(2) by (simp add: param_inv_def)
next
  case (udp_accept p t0 k)
  then show ?thesis using assms(2) by (auto simp: param_inv_def session_ops stream_count_def)
next
  case (send_fails)
  then show ?thesis using assms(2) by (simp add: param_inv_def session_ops)
next
  case (tcp_ready p t0)
  then show ?thesis using assms(2) by (simp add: param_inv_def session_ops)
next
  case (tcp_timeout p t0)
  then show ?thesis using assms(2) by (simp add: param_inv_def session_ops)
next
  case (udp_ready p t0 k)
  then show ?thesis using assms(2) by (simp add: param_inv_def session_ops)
next
  case (udp_fails p t0 k msg)
  then show ?thesis using assms(2) by (simp add: param_inv_def session_ops)
next
  case (begin_test p)
  then show ?thesis using assms(2) by (simp add: param_inv_def session_ops)
next
  case (test_end p st c')
  then show ?thesis using assms(2) by (simp add: param_inv_def session_ops)
next
  case (test_end_fails p e c')
  then show ?thesis using assms(2) by (simp add: param_inv_def session_ops)
next
  case (write_results d)
  then show ?thesis using assms(2) by (simp add: param_inv_def session_ops)
next
  case (write_results_fails e part)
  then show ?thesis using assms(2) by (simp add: param_inv_def session_ops)
next
  case (client_done d st c')
  then show ?thesis using assms(2) by (simp add: param_inv_def session_ops)
next
  case (client_done_fails d e c')
  then show ?thesis using assms(2) by (simp add: param_inv_def session_ops)
qed

lemma session_reach_invs:
  assumes "session_reach env (start_conf one ck addr input now) cf"
  shows "out_inv cf" and "in_inv env input cf" and "param_inv env cf"
proof -
  let ?c0 = "start_conf one ck addr input now"
  have start: "out_inv ?c0" "in_inv env input ?c0" "param_inv env ?c0"
    by (simp_all add: out_inv_def in_inv_def param_inv_def start_conf_def)
  show "out_inv cf"
    by (rule session_invariant [where I = out_inv, OF assms start(1) out_inv_step])
  show "in_inv env input cf"
    by (rule session_invariant [where I = "in_inv env input", OF assms start(2) in_inv_step])
  show "param_inv env cf"
    by (rule session_invariant [where I = "param_inv env", OF assms start(3) param_inv_step])
qed

subsection \<open>Correctness of the protocol\<close>

text \<open>
  C14. The server never leaves the protocol. In every reachable state of a session, whatever
  the client sends, whichever writes fail and however the data tasks interleave, what has been
  written on the control connection is a prefix of
  \<open>PARAM_EXCHANGE, CREATE_STREAMS, TEST_START, TEST_RUNNING, EXCHANGE_RESULTS,\<close> one result
  message, \<open>DISPLAY_RESULTS, SERVER_TERMINATE\<close>. A session that ends well has written all of it,
  has read exactly a parameter message, a state byte, a result message and a state byte, has
  cancelled its data tasks and is in the state \<open>SERVER_TERMINATE\<close>.
\<close>

theorem session_follows_protocol:
  assumes "session_reach env (start_conf one ck addr input now) cf"
  shows "(\<exists>d. prefix (outp (cf_ctl cf)) (transcript d)) \<and>
    (\<forall>d. cf_pc cf = Finished d \<longrightarrow>
       outp (cf_ctl cf) = transcript d \<and>
       (\<exists>ms. list_all2 (client_msg (env_from_slice env)) [JsonMsg, StateMsg, JsonMsg, StateMsg] ms \<and>
          input = concat ms @ inp (cf_ctl cf)) \<and>
       cancelled (cf_sess cf) \<and> ts_state (cf_sess cf) = ServerTerminate)"
proof -
  note inv = session_reach_invs [OF assms]
  have "length (pieces d) = 8" for d by (simp add: pieces_def)
  with inv show ?thesis
    using prefix_transcript
    by (auto simp: out_inv_def in_inv_def param_inv_def transcript_def client_kinds_def split: if_splits)
qed

lemma tcp_rate_capped:
  assumes "bw \<le> cap"
  shows "if bw = 0 then tcp_bytes_per_second bw = u64_max else tcp_bytes_per_second bw \<le> cap div 8"
  using assms by (simp add: tcp_bytes_per_second_def word_le_nat_alt unat_div div_le_mono word_gt_0)


subsubsection \<open>Progress\<close>

fun rank :: "'f pc \<Rightarrow> nat" where
  "rank AtParamExchange = 0"
| "rank AtReadParams = 1"
| "rank (AtCreateStreams p) = 2"
| "rank (AtWaitBegin p) = 3"
| "rank (AtWaitTcp p t) = 4"
| "rank (AtWaitUdp p t k) = 4 + k"
| "rank (AtTestStart p) = 2 ^ 32 + 5"
| "rank (AtStartTest p) = 2 ^ 32 + 6"
| "rank (AtTestRunning p) = 2 ^ 32 + 7"
| "rank (AtStartData p) = 2 ^ 32 + 8"
| "rank (AtWaitEnd p) = 2 ^ 32 + 9"
| "rank AtExchange = 2 ^ 32 + 10"
| "rank AtReadResults = 2 ^ 32 + 11"
| "rank AtWriteResults = 2 ^ 32 + 12"
| "rank (AtDisplay d) = 2 ^ 32 + 13"
| "rank (AtWaitDone d) = 2 ^ 32 + 14"
| "rank (AtTerminate d) = 2 ^ 32 + 15"
| "rank (Finished d) = 2 ^ 32 + 16"
| "rank (Failed e) = 2 ^ 32 + 17"
| "rank Panicked = 2 ^ 32 + 17"

definition final_pc :: "'f pc \<Rightarrow> bool" where
  "final_pc pc \<longleftrightarrow> stopped pc \<or> (\<exists>d. pc = Finished d)"

lemma expected_less: "expected_streams p < 2 ^ 32"
  using unsigned_less [of "tp_parallel p"] by (simp add: expected_streams_def)

lemma rank_step:
  assumes "session_step env c1 c2"
  shows "cf_pc c2 = cf_pc c1 \<or> rank (cf_pc c1) < rank (cf_pc c2)"
  using assms
proof cases
  case (send st pc' s' c')
  then show ?thesis by (cases "cf_pc c1") auto
next
  case send_fails
  then show ?thesis by (cases "cf_pc c1") auto
next
  case (udp_fails p t0 k msg)
  then show ?thesis using expected_less [of p] by simp
next
  case (udp_ready p t0 k)
  then show ?thesis using expected_less [of p] by simp
next
  case (read_params r c')
  then show ?thesis by (auto simp: after_params_def Let_def split: sum.splits option.splits)
next
  case (read_results r c')
  then show ?thesis by (cases r) auto
qed (auto simp: start_data_def)

lemma sends_changes: "sends pc = Some (st, pc') \<Longrightarrow> pc' \<noteq> pc"
  by (cases pc) auto

lemma session_can_move:
  assumes "\<not> final_pc (cf_pc cf)" and "param_inv env cf"
  shows "\<exists>d cf'. session_step env (cf\<lparr>cf_time := cf_time cf + d\<rparr>) cf' \<and> cf_pc cf' \<noteq> cf_pc cf"
proof -
  let ?later = "\<lambda>d. cf\<lparr>cf_time := cf_time cf + d\<rparr>"
  have move: "\<exists>d cf'. session_step env (?later d) cf' \<and> cf_pc cf' \<noteq> cf_pc cf"
    if "session_step env (?later d) cf'" "cf_pc cf' \<noteq> cf_pc cf" for d cf'
    using that by blast
  obtain r c' where j: "read_json_message (env_from_slice env) (cf_ctl cf) = (r, c')" by fastforce
  obtain rs c'' where s: "read_state (cf_ctl cf) = (rs, c'')" by fastforce
  show ?thesis
  proof (cases "sends (cf_pc cf)")
    case (Some x)
    obtain st pc' where x: "sends (cf_pc cf) = Some (st, pc')" using Some by (cases x) auto
    obtain s' c1 where "send_state st (cf_sess cf, cf_ctl cf) = (s', c1)" by fastforce
    with x have "session_step env (?later 0) ((?later 0)\<lparr>cf_pc := pc', cf_sess := s', cf_ctl := c1\<rparr>)"
      by (intro session_step.send) auto
    from move [OF this] sends_changes [OF x] show ?thesis by simp
  next
    case None
    show ?thesis
    proof (cases "cf_pc cf")
      case AtReadParams
      with j have "session_step env (?later 0) ((?later 0)\<lparr>cf_pc := fst (after_params env r (cf_sess cf)),
          cf_sess := snd (after_params env r (cf_sess cf)), cf_ctl := c'\<rparr>)"
        using session_step.read_params [of "?later 0" env r c'] by simp
      from move [OF this] AtReadParams show ?thesis
        by (auto simp: after_params_def Let_def split: sum.splits option.splits)
    next
      case (AtWaitBegin p)
      then show ?thesis
        by (intro move [OF session_step.wait_begin [of "?later 0" p env]]) auto
    next
      case (AtWaitTcp p t0)
      show ?thesis
      proof (cases "expected_streams p \<le> stream_count (cf_sess cf)")
        case True
        with AtWaitTcp show ?thesis
          by (intro move [OF session_step.tcp_ready [of "?later 0" p t0 env]]) auto
      next
        case False
        with AtWaitTcp show ?thesis
          by (intro move [OF session_step.tcp_timeout [of "?later (STREAM_CONNECT_TIMEOUT + t0 + 1)" p t0 env]]) auto
      qed
    next
      case (AtWaitUdp p t0 k)
      with assms(2) have "k \<le> expected_streams p" by (simp add: param_inv_def)
      show ?thesis
      proof (cases "k < expected_streams p")
        case True
        with AtWaitUdp show ?thesis
          by (intro move [OF session_step.udp_fails [of "?later 0" p t0 k env "[]"]]) auto
      next
        case False
        with AtWaitUdp \<open>k \<le> expected_streams p\<close> show ?thesis
          by (intro move [OF session_step.udp_ready [of "?later 0" p t0 k env]]) auto
      qed
    next
      case (AtStartTest p)
      then show ?thesis by (intro move [OF session_step.begin_test [of "?later 0" p env]]) auto
    next
      case (AtStartData p)
      then show ?thesis
        by (intro move [OF session_step.begin_data [of "?later 0" p env]]) (auto simp: start_data_def)
    next
      case (AtWaitEnd p)
      show ?thesis
      proof (cases rs)
        case (Inl e)
        with AtWaitEnd s show ?thesis
          by (intro move [OF session_step.test_end_fails [of "?later 0" p e c'' env]]) auto
      next
        case (Inr st)
        with AtWaitEnd s show ?thesis
          by (intro move [OF session_step.test_end [of "?later 0" p st c'' env]]) auto
      qed
    next
      case AtReadResults
      with j show ?thesis
        by (intro move [OF session_step.read_results [of "?later 0" env r c']]) (auto split: sum.splits)
    next
      case AtWriteResults
      show ?thesis
      proof (cases "exchange_results env (cf_time cf) (cf_sess cf)")
        case None
        with AtWriteResults show ?thesis
          by (intro move [OF session_step.write_results_fails [of "?later 0" env Json "[]"]]) auto
      next
        case (Some d)
        with AtWriteResults show ?thesis
          by (intro move [OF session_step.write_results [of "?later 0" env d]]) auto
      qed
    next
      case (AtWaitDone d)
      show ?thesis
      proof (cases rs)
        case (Inl e)
        with AtWaitDone s show ?thesis
          by (intro move [OF session_step.client_done_fails [of "?later 0" d e c'' env]]) auto
      next
        case (Inr st)
        with AtWaitDone s show ?thesis
          by (intro move [OF session_step.client_done [of "?later 0" d st c'' env]]) auto
      qed
    qed (use None assms in \<open>auto simp: final_pc_def\<close>)
  qed
qed


subsection \<open>An honest client is served\<close>

text \<open>\<open>gets\<close>: a TCP session can get to a program point with \<open>n\<close> streams and the input \<open>i\<close> left.\<close>

definition gets :: "('v, 'f) session_env \<Rightarrow> 'f conf \<Rightarrow> 'f pc \<Rightarrow> bytes \<Rightarrow> nat \<Rightarrow> nat \<Rightarrow> bool" where
  "gets env c0 pc i t n \<longleftrightarrow>
     (\<exists>s w. session_reach env c0 \<lparr>cf_pc = pc, cf_sess = s, cf_ctl = \<lparr>inp = i, outp = w\<rparr>, cf_time = t\<rparr> \<and>
        \<not> is_udp s \<and> n \<le> data_streams s)"

lemma getsI:
  assumes "session_reach env c0 c1" and "session_step env c1 c2"
    and "cf_pc c2 = pc" "inp (cf_ctl c2) = i" "cf_time c2 = t" "\<not> is_udp (cf_sess c2)"
      "n \<le> data_streams (cf_sess c2)"
  shows "gets env c0 pc i t n"
proof -
  have "c2 = \<lparr>cf_pc = pc, cf_sess = cf_sess c2, cf_ctl = \<lparr>inp = i, outp = outp (cf_ctl c2)\<rparr>, cf_time = t\<rparr>"
    using assms(3-5) by (cases c2; cases "cf_ctl c2") auto
  with reach_step [OF assms(1,2)] assms(6,7) show ?thesis unfolding gets_def by metis
qed

lemma getsE:
  assumes "gets env c0 pc i t n"
  obtains c where "session_reach env c0 c" "cf_pc c = pc" "inp (cf_ctl c) = i" "cf_time c = t"
    "\<not> is_udp (cf_sess c)" "n \<le> data_streams (cf_sess c)"
  using assms unfolding gets_def by force

lemma gets_send:
  assumes "gets env c0 pc i t n" and "sends pc = Some (st, pc')"
  shows "gets env c0 pc' i t n"
proof -
  from assms(1) obtain c where c: "session_reach env c0 c" "cf_pc c = pc" "inp (cf_ctl c) = i" "cf_time c = t"
    "\<not> is_udp (cf_sess c)" "n \<le> data_streams (cf_sess c)" by (rule getsE)
  obtain s' c' where sc: "send_state st (cf_sess c, cf_ctl c) = (s', c')" by fastforce
  show ?thesis
    by (rule getsI [OF c(1) session_step.send [OF _ sc, of pc']])
      (use c assms(2) sc in \<open>auto simp: send_state_def\<close>)
qed

lemma gets_params:
  assumes "gets env c0 AtReadParams (frame pj @ i) t n" and "length pj \<le> MAX_MESSAGE_SIZE"
    and "env_from_slice env pj = Some v" and "env_from_value env v = Some p0" and "\<not> udp p0"
  shows "gets env c0 (AtCreateStreams (apply_limits (env_max_duration env) (env_max_bandwidth env) p0)) i t n"
proof -
  from assms(1) obtain c where c: "session_reach env c0 c" "cf_pc c = AtReadParams"
    "inp (cf_ctl c) = frame pj @ i" "cf_time c = t"
    "\<not> is_udp (cf_sess c)" "n \<le> data_streams (cf_sess c)" by (rule getsE)
  have r: "read_json_message (env_from_slice env) (cf_ctl c) = (Inr v, (cf_ctl c)\<lparr>inp := i\<rparr>)"
    using read_frame [OF c(3) assms(2), of "env_from_slice env"] assms(3) by simp
  show ?thesis
    by (rule getsI [OF c(1) session_step.read_params [OF c(2) r]])
      (use c assms(4,5) in \<open>auto simp: after_params_def set_udp_mode_def apply_limits_def Let_def\<close>)
qed

lemma gets_streams: "gets env c0 pc i t n \<Longrightarrow> gets env c0 pc i t (n + k)"
proof (induction k)
  case (Suc k)
  then obtain c where c: "session_reach env c0 c" "cf_pc c = pc" "inp (cf_ctl c) = i" "cf_time c = t"
    "\<not> is_udp (cf_sess c)" "n + k \<le> data_streams (cf_sess c)" by (auto elim: getsE)
  show ?case
    by (rule getsI [OF c(1) session_step.stream_connects]) (use c in \<open>auto simp: add_data_stream_def\<close>)
qed simp

lemma gets_wait:
  assumes "gets env c0 (AtWaitBegin p) i t n" and "\<not> udp p"
  shows "gets env c0 (AtTestStart p) i t (n + expected_streams p)"
proof -
  from assms(1) obtain c where c: "session_reach env c0 c" "cf_pc c = AtWaitBegin p" "inp (cf_ctl c) = i"
    "cf_time c = t" "\<not> is_udp (cf_sess c)" "n \<le> data_streams (cf_sess c)" by (rule getsE)
  have "gets env c0 (AtWaitTcp p t) i t n"
    by (rule getsI [OF c(1) session_step.wait_begin [OF c(2)]]) (use c assms(2) in auto)
  from gets_streams [OF this, of "expected_streams p"]
  obtain d where d: "session_reach env c0 d" "cf_pc d = AtWaitTcp p t" "inp (cf_ctl d) = i"
    "cf_time d = t" "\<not> is_udp (cf_sess d)" "n + expected_streams p \<le> data_streams (cf_sess d)" by (rule getsE)
  then have "expected_streams p \<le> stream_count (cf_sess d)" by (simp add: stream_count_def)
  from getsI [OF d(1) session_step.tcp_ready [OF d(2) this]] d show ?thesis by simp
qed

lemma gets_test:
  assumes "gets env c0 (AtStartTest p) i t n" and "t + unat (tp_time p) * one_sec \<le> instant_max"
  shows "gets env c0 (AtWaitEnd p) i t n"
proof -
  from assms(1) obtain c where c: "session_reach env c0 c" "cf_pc c = AtStartTest p" "inp (cf_ctl c) = i"
    "cf_time c = t" "\<not> is_udp (cf_sess c)" "n \<le> data_streams (cf_sess c)" by (rule getsE)
  have "gets env c0 (AtTestRunning p) i t n"
    by (rule getsI [OF c(1) session_step.begin_test [OF c(2)]]) (use c in \<open>auto simp: start_test_def\<close>)
  from gets_send [OF this] have "gets env c0 (AtStartData p) i t n" by simp
  then obtain d where d: "session_reach env c0 d" "cf_pc d = AtStartData p" "inp (cf_ctl d) = i"
    "cf_time d = t" "\<not> is_udp (cf_sess d)" "n \<le> data_streams (cf_sess d)" by (rule getsE)
  show ?thesis
    by (rule getsI [OF d(1) session_step.begin_data [OF d(2)]]) (use d assms(2) in \<open>auto simp: start_data_def\<close>)
qed

lemma gets_end:
  assumes "gets env c0 (AtWaitEnd p) (to_byte st # i) t n"
  shows "gets env c0 AtReadResults i t n"
proof -
  from assms obtain c where c: "session_reach env c0 c" "cf_pc c = AtWaitEnd p" "inp (cf_ctl c) = to_byte st # i"
    "cf_time c = t" "\<not> is_udp (cf_sess c)" "n \<le> data_streams (cf_sess c)" by (rule getsE)
  have "gets env c0 AtExchange i t n"
    by (rule getsI [OF c(1) session_step.test_end [OF c(2) read_state_byte [OF c(3)]]])
      (use c in \<open>auto simp: cancel_def\<close>)
  then show ?thesis by (rule gets_send) simp
qed

lemma gets_results:
  assumes "gets env c0 AtReadResults (frame rj @ i) t n" and "length rj \<le> MAX_MESSAGE_SIZE"
    and "env_from_slice env rj \<noteq> None" and "\<And>r. env_to_vec env r \<noteq> None"
  shows "\<exists>d. gets env c0 (AtWaitDone d) i t n"
proof -
  from assms(1) obtain c where c: "session_reach env c0 c" "cf_pc c = AtReadResults"
    "inp (cf_ctl c) = frame rj @ i" "cf_time c = t"
    "\<not> is_udp (cf_sess c)" "n \<le> data_streams (cf_sess c)" by (rule getsE)
  obtain v where v: "env_from_slice env rj = Some v" using assms(3) by auto
  have r: "read_json_message (env_from_slice env) (cf_ctl c) = (Inr v, (cf_ctl c)\<lparr>inp := i\<rparr>)"
    using read_frame [OF c(3) assms(2), of "env_from_slice env"] v by simp
  have "gets env c0 AtWriteResults i t n"
    by (rule getsI [OF c(1) session_step.read_results [OF c(2) r]]) (use c in auto)
  then obtain e where e: "session_reach env c0 e" "cf_pc e = AtWriteResults" "inp (cf_ctl e) = i"
    "cf_time e = t" "\<not> is_udp (cf_sess e)" "n \<le> data_streams (cf_sess e)" by (rule getsE)
  obtain d where x: "exchange_results env (cf_time e) (cf_sess e) = Some d"
    using assms(4) by (auto simp: exchange_results_def)
  have "gets env c0 (AtDisplay d) i t n"
    by (rule getsI [OF e(1) session_step.write_results [OF e(2) x]])
      (use e in \<open>auto simp: write_json_message_def\<close>)
  then have "gets env c0 (AtWaitDone d) i t n" by (rule gets_send) simp
  then show ?thesis ..
qed

lemma gets_done:
  assumes "gets env c0 (AtWaitDone d) (to_byte st # i) t n"
  shows "gets env c0 (Finished d) i t n"
proof -
  from assms obtain c where c: "session_reach env c0 c" "cf_pc c = AtWaitDone d" "inp (cf_ctl c) = to_byte st # i"
    "cf_time c = t" "\<not> is_udp (cf_sess c)" "n \<le> data_streams (cf_sess c)" by (rule getsE)
  have "gets env c0 (AtTerminate d) i t n"
    by (rule getsI [OF c(1) session_step.client_done [OF c(2) read_state_byte [OF c(3)]]]) (use c in auto)
  then show ?thesis by (rule gets_send) simp
qed

definition honest_input :: "bytes \<Rightarrow> bytes \<Rightarrow> bytes" where
  "honest_input pj rj = frame pj @ [to_byte TestEnd] @ frame rj @ [to_byte IperfDone]"

lemma honest_test:
  fixes env :: "('v, 'f) session_env"
  defines "p' \<equiv> \<lambda>p. apply_limits (env_max_duration env) (env_max_bandwidth env) p"
  assumes "length pj \<le> MAX_MESSAGE_SIZE"
    and "env_from_slice env pj = Some v" and "env_from_value env v = Some p" and "\<not> udp p"
    and "now + unat (tp_time p) * one_sec \<le> instant_max"
  shows "gets env (start_conf one ck addr (frame pj @ i) now) (AtWaitEnd (p' p)) i now (expected_streams (p' p))"
proof -
  let ?c0 = "start_conf one ck addr (frame pj @ i) now"
  have p: "\<not> udp (p' p)" using assms(5) by (simp add: p'_def apply_limits_def Let_def)
  have "unat (tp_time (p' p)) * one_sec \<le> unat (tp_time p) * one_sec"
    by (intro mult_le_mono1) (auto simp: p'_def apply_limits_def Let_def word_less_nat_alt)
  with assms(6) have time: "now + unat (tp_time (p' p)) * one_sec \<le> instant_max" by linarith
  have "gets env ?c0 AtParamExchange (frame pj @ i) now 0"
    unfolding gets_def
    by (intro exI [of _ "new_test_session one ck addr"] exI [of _ "[]"])
      (auto simp: start_conf_def new_test_session_def intro: reach_start)
  then have "gets env ?c0 AtReadParams (frame pj @ i) now 0" by (rule gets_send) simp
  from gets_params [OF this assms(2-5)] have "gets env ?c0 (AtWaitBegin (p' p)) i now 0"
    unfolding p'_def by (rule gets_send) simp
  from gets_wait [OF this p] have "gets env ?c0 (AtStartTest (p' p)) i now (0 + expected_streams (p' p))"
    by (rule gets_send) simp
  from gets_test [OF this time] show ?thesis by simp
qed

lemma honest_run:
  assumes "length pj \<le> MAX_MESSAGE_SIZE" and "length rj \<le> MAX_MESSAGE_SIZE"
    and "env_from_slice env pj = Some v" and "env_from_value env v = Some p" and "\<not> udp p"
    and "env_from_slice env rj \<noteq> None" and "\<And>r. env_to_vec env r \<noteq> None"
    and "now + unat (tp_time p) * one_sec \<le> instant_max"
  shows "\<exists>d cf. session_reach env (start_conf one ck addr (honest_input pj rj) now) cf \<and> cf_pc cf = Finished d"
proof -
  let ?c0 = "start_conf one ck addr (honest_input pj rj) now"
  let ?i = "to_byte TestEnd # frame rj @ [to_byte IperfDone]"
  have "honest_input pj rj = frame pj @ ?i" by (simp add: honest_input_def)
  with gets_end [OF honest_test [OF assms(1,3,4,5,8), of one ck addr ?i]] obtain n where
    "gets env ?c0 AtReadResults (frame rj @ [to_byte IperfDone]) now n" by auto
  from gets_results [OF this assms(2,6,7)] obtain d where
    "gets env ?c0 (AtWaitDone d) [to_byte IperfDone] now n" by auto
  from gets_done [OF this] obtain cf where "session_reach env ?c0 cf" "cf_pc cf = Finished d"
    by (rule getsE)
  then show ?thesis by blast
qed

text \<open>
  C21. A client that follows the protocol is served: when it sends parameters for a TCP test,
  connects its streams, ends the test, sends its results and says it is done, the session can
  run to its successful end with the whole input read, provided the results can be encoded and
  the deadline of the test can be represented.
\<close>

theorem honest_client_served:
  assumes "length pj \<le> MAX_MESSAGE_SIZE" and "length rj \<le> MAX_MESSAGE_SIZE"
    and "env_from_slice env pj = Some v" and "env_from_value env v = Some p" and "\<not> udp p"
    and "env_from_slice env rj \<noteq> None" and "\<And>r. env_to_vec env r \<noteq> None"
    and "now + unat (tp_time p) * one_sec \<le> instant_max"
  shows "\<exists>d cf. session_reach env (start_conf one ck addr (honest_input pj rj) now) cf \<and>
    cf_pc cf = Finished d \<and> outp (cf_ctl cf) = transcript d \<and> cancelled (cf_sess cf)"
proof -
  obtain d cf where r: "session_reach env (start_conf one ck addr (honest_input pj rj) now) cf"
    and f: "cf_pc cf = Finished d" using honest_run [OF assms] by blast
  have "length (pieces d) = 8" by (simp add: pieces_def)
  with session_reach_invs [OF r] f have "outp (cf_ctl cf) = transcript d \<and> cancelled (cf_sess cf)"
    by (simp add: out_inv_def param_inv_def transcript_def)
  with r f show ?thesis by blast
qed

definition sample_env :: "(unit, nat) session_env" where
  "sample_env = \<lparr>env_max_duration = 5, env_max_bandwidth = 800, env_from_slice = (\<lambda>_. Some ()),
     env_from_value = (\<lambda>_. Some (default_params 1)), env_to_vec = (\<lambda>_. Some [123, 125]),
     env_zero = 0, env_secs = (\<lambda>n. n)\<rparr>"

definition sample_start :: "nat conf" where
  "sample_start = start_conf 1 ''c'' (SocketAddr (V4 1) 2) (honest_input [] []) 0"

lemma sample_env_simps:
  "env_from_slice sample_env x = Some ()" "env_from_value sample_env () = Some (default_params 1)"
  "env_to_vec sample_env r \<noteq> None" "\<not> udp (default_params (1 :: nat))"
  "0 + unat (tp_time (default_params (1 :: nat))) * one_sec \<le> instant_max"
  by (simp_all add: sample_env_def default_params_def one_sec_def instant_max_def)

lemma sample_session_run: "\<exists>d cf. session_reach sample_env sample_start cf \<and> cf_pc cf = Finished d"
  unfolding sample_start_def
  by (rule honest_run [where v = "()" and p = "default_params 1"])
    (simp_all add: sample_env_simps [simplified] MAX_MESSAGE_SIZE_def)

theorem honest_client_served_witness:
  "\<exists>d cf. session_reach sample_env sample_start cf \<and> outp (cf_ctl cf) = transcript d"
  using honest_client_served [where v = "()" and p = "default_params 1" and env = sample_env and pj = "[]"
      and rj = "[]" and now = 0 and one = 1 and ck = "''c''" and addr = "SocketAddr (V4 1) 2"]
  by (auto simp: sample_start_def sample_env_simps [simplified] MAX_MESSAGE_SIZE_def)

theorem session_follows_protocol_witness:
  "\<exists>d cf. session_reach sample_env sample_start cf \<and> outp (cf_ctl cf) = transcript d \<and>
     ts_state (cf_sess cf) = ServerTerminate"
proof -
  obtain d cf where r: "session_reach sample_env sample_start cf" and f: "cf_pc cf = Finished d"
    using sample_session_run by blast
  from session_follows_protocol [OF r [unfolded sample_start_def]] f r show ?thesis by blast
qed



end
