(* ===== verification/Iperf3_Server.thy ===== *)
theory Iperf3_Server
  imports Iperf3_Run Server_State
begin

text \<open>
  The server around the sessions: admission, the accept loop and the table of sessions of
  \<open>iperf3-server/src/server.rs\<close>, and the cache of authenticated addresses that
  \<open>server/src/main.rs\<close> connects to it. The accept loop and the tasks it spawns interleave: an
  event of the server is one section of a task between two await points that touch the table.
\<close>

subsection \<open>Admission\<close>

record Iperf3Server =
  sv_config :: Iperf3Config
  allowed_ips :: "ip_addr set"
  auth_callback :: "(ip_addr \<Rightarrow> bool) option"

definition new_iperf3_server :: "Iperf3Config \<Rightarrow> Iperf3Server" where
  "new_iperf3_server cfg = \<lparr>sv_config = cfg, allowed_ips = {}, auth_callback = None\<rparr>"

definition set_auth_callback :: "(ip_addr \<Rightarrow> bool) \<Rightarrow> Iperf3Server \<Rightarrow> Iperf3Server" where
  "set_auth_callback f sv = sv\<lparr>auth_callback := Some f\<rparr>"

definition add_allowed_ip :: "ip_addr \<Rightarrow> Iperf3Server \<Rightarrow> Iperf3Server" where
  "add_allowed_ip ip sv = sv\<lparr>allowed_ips := insert ip (allowed_ips sv)\<rparr>"

definition remove_allowed_ip :: "ip_addr \<Rightarrow> Iperf3Server \<Rightarrow> Iperf3Server" where
  "remove_allowed_ip ip sv = sv\<lparr>allowed_ips := allowed_ips sv - {ip}\<rparr>"

definition is_ip_allowed :: "Iperf3Server \<Rightarrow> ip_addr \<Rightarrow> bool" where
  "is_ip_allowed sv ip =
     (let normalized_ip = normalize_ip ip
      in if \<not> ic_require_auth (sv_config sv) then True
         else case auth_callback sv of
           Some callback \<Rightarrow> callback normalized_ip
         | None \<Rightarrow>
             if allowed_ips sv = {} then False else normalized_ip \<in> allowed_ips sv)"

subsection \<open>Connections and the session table\<close>

record conn =
  cn_id :: nat
  cn_peer :: socket_addr
  cn_bytes :: bytes

record table_session =
  ss_owner :: nat
  ss_streams :: nat

record server_world =
  w_server :: Iperf3Server
  w_sessions :: "(string \<times> table_session) list"
  w_pending :: "conn list"
  w_deciding :: "(conn \<times> string) list"
  w_running :: "(string \<times> nat) list"
  w_denied :: "nat list"

definition COOKIE_SIZE :: nat where
  "COOKIE_SIZE = 37"

definition cookie_of :: "bytes \<Rightarrow> string" where
  "cookie_of b = trim_end_matches (char_of (0 :: nat)) (from_utf8_lossy (take COOKIE_SIZE b))"

fun peer_ip :: "socket_addr \<Rightarrow> ip_addr" where
  "peer_ip (SocketAddr ip p) = ip"

definition session_count :: "server_world \<Rightarrow> nat" where
  "session_count w = length (w_sessions w)"

text \<open>
  The accept loop: an unauthorised peer and a peer beyond the limit get the access-denied byte,
  the others a task of their own.
\<close>

definition accept_connection :: "conn \<Rightarrow> server_world \<Rightarrow> server_world" where
  "accept_connection c w =
     (if \<not> is_ip_allowed (w_server w) (peer_ip (cn_peer c)) then w\<lparr>w_denied := w_denied w @ [cn_id c]\<rparr>
      else if max_sessions (sv_config (w_server w)) \<le> session_count w
      then w\<lparr>w_denied := w_denied w @ [cn_id c]\<rparr>
      else w\<lparr>w_pending := w_pending w @ [c]\<rparr>)"

text \<open>
  \<open>handle_session\<close>, up to the release of the read lock: the cookie is read and looked up; a
  known cookie makes the connection a data stream of its session.
\<close>

definition read_cookie :: "conn \<Rightarrow> server_world \<Rightarrow> server_world option" where
  "read_cookie c w =
     (if c \<notin> set (w_pending w) then None
      else let w1 = w\<lparr>w_pending := remove1 c (w_pending w)\<rparr>;
               cookie = cookie_of (cn_bytes c)
      in if length (cn_bytes c) < COOKIE_SIZE then Some w1
         else case map_of (w_sessions w) cookie of
           Some s \<Rightarrow> Some (w1\<lparr>w_sessions := al_put cookie (s\<lparr>ss_streams := ss_streams s + 1\<rparr>) (w_sessions w)\<rparr>)
         | None \<Rightarrow> Some (w1\<lparr>w_deciding := w_deciding w @ [(c, cookie)]\<rparr>))"

text \<open>Under the write lock: a new session is stored under the cookie and starts to run.\<close>

definition store_session :: "conn \<times> string \<Rightarrow> server_world \<Rightarrow> server_world option" where
  "store_session ck w =
     (if ck \<notin> set (w_deciding w) then None
      else Some (w\<lparr>w_deciding := remove1 ck (w_deciding w),
        w_sessions := al_put (snd ck) \<lparr>ss_owner = cn_id (fst ck), ss_streams = 0\<rparr> (w_sessions w),
        w_running := w_running w @ [(snd ck, cn_id (fst ck))]\<rparr>))"

text \<open>After the protocol has returned, the cookie is removed.\<close>

definition finish_session :: "string \<times> nat \<Rightarrow> server_world \<Rightarrow> server_world option" where
  "finish_session r w =
     (if r \<notin> set (w_running w) then None
      else Some (w\<lparr>w_running := remove1 r (w_running w), w_sessions := al_remove (fst r) (w_sessions w)\<rparr>))"

datatype server_event =
    Accept conn
  | Cookie conn
  | Store "conn \<times> string"
  | Finish "string \<times> nat"

fun server_turn :: "server_event \<Rightarrow> server_world \<Rightarrow> server_world option" where
  "server_turn (Accept c) w = Some (accept_connection c w)"
| "server_turn (Cookie c) w = read_cookie c w"
| "server_turn (Store ck) w = store_session ck w"
| "server_turn (Finish r) w = finish_session r w"

abbreviation run_server :: "server_event list \<Rightarrow> server_world \<Rightarrow> server_world option" where
  "run_server \<equiv> run_ticks server_turn"

fun_cases server_turn_AcceptE: "server_turn (Accept c) w = Some w'"

definition new_world :: "Iperf3Server \<Rightarrow> server_world" where
  "new_world sv = \<lparr>w_server = sv, w_sessions = [], w_pending = [], w_deciding = [], w_running = [],
     w_denied = []\<rparr>"

lemmas server_defs =
  accept_connection_def read_cookie_def store_session_def finish_session_def session_count_def

subsection \<open>The address cache\<close>

text \<open>One round of the task that records the WebRTC clients and sweeps the cache.\<close>

definition record_client :: "nat \<Rightarrow> AuthAddressCache \<Rightarrow> string \<times> ClientSession \<Rightarrow> AuthAddressCache" where
  "record_client now cache sc =
     (case cs_peer_address (snd sc) of
        None \<Rightarrow> cache
      | Some (addr_str, _) \<Rightarrow>
          (case parse_ip addr_str of
             None \<Rightarrow> cache
           | Some ip \<Rightarrow> record_auth now ip (''webrtc:'' @ fst sc) None ''webrtc'' cache))"

definition cache_sync :: "nat \<Rightarrow> ServerState \<Rightarrow> AuthAddressCache \<Rightarrow> AuthAddressCache" where
  "cache_sync now st cache = auth_cleanup_expired now (foldl (record_client now) cache (clients st))"

text \<open>The callback that \<open>main\<close> installs, at the time of the connection.\<close>

definition cache_callback :: "nat \<Rightarrow> AuthAddressCache \<Rightarrow> ip_addr \<Rightarrow> bool" where
  "cache_callback now cache ip = (check_auth now ip cache \<noteq> None)"

subsection \<open>Admission follows the cache\<close>

lemma to_ipv4_mapped_idem: "normalize_ip (normalize_ip ip) = normalize_ip ip"
  by (cases ip) (auto split: option.splits)

definition client_hit :: "ip_addr \<Rightarrow> string \<times> ClientSession \<Rightarrow> bool" where
  "client_hit ip sc \<longleftrightarrow>
     (case cs_peer_address (snd sc) of
        Some (a, _) \<Rightarrow> (case parse_ip a of Some x \<Rightarrow> normalize_ip x = normalize_ip ip | None \<Rightarrow> False)
      | None \<Rightarrow> False)"

definition client_at :: "ServerState \<Rightarrow> ip_addr \<Rightarrow> bool" where
  "client_at st ip \<longleftrightarrow> list_ex (client_hit ip) (clients st)"

lemma record_client_laws:
  shows "auth_timeout (record_client now c sc) = auth_timeout c"
    and "cache_ok c \<Longrightarrow> cache_ok (record_client now c sc)"
    and "is_authenticated later ip (record_client now c sc) =
      (if client_hit ip sc then later - now < auth_timeout c else is_authenticated later ip c)"
proof -
  have put: "record_auth now x u d src c = put_auth now x (u, d, src) c" for x u d src
    by (simp add: put_auth_def)
  show "auth_timeout (record_client now c sc) = auth_timeout c"
    by (auto simp: record_client_def put auth.lifetime_put split: option.splits)
  show "cache_ok c \<Longrightarrow> cache_ok (record_client now c sc)"
    by (auto simp: record_client_def put auth.ok_put split: option.splits)
  show "is_authenticated later ip (record_client now c sc) =
      (if client_hit ip sc then later - now < auth_timeout c else is_authenticated later ip c)"
    by (auto simp: record_client_def client_hit_def put auth.get_put is_authenticated_def split: option.splits)
qed

lemma record_clients_laws:
  assumes "cache_ok c"
  shows "cache_ok (foldl (record_client now) c scs) \<and>
    auth_timeout (foldl (record_client now) c scs) = auth_timeout c \<and>
    is_authenticated later ip (foldl (record_client now) c scs) =
      (if list_ex (client_hit ip) scs then later - now < auth_timeout c else is_authenticated later ip c)"
  using assms
proof (induction scs arbitrary: c)
  case (Cons sc scs)
  from Cons.IH [OF record_client_laws(2) [OF Cons.prems]]
  show ?case by (simp add: record_client_laws(1,3))
qed simp

text \<open>
  C23. With authentication required, the iperf3 server admits exactly the addresses that the
  cache holds, in IPv4 or mapped form. After a round of the synchronisation task these are the
  addresses of the connected WebRTC clients, for the configured time after the round, and for
  the other addresses whatever was valid before: recording and sweeping in one round never
  expels or admits anybody else.
\<close>

theorem iperf3_admission_follows_cache:
  assumes "ic_require_auth (sv_config sv)" and "cache_ok cache" and "now \<le> later"
  shows "is_ip_allowed (set_auth_callback (cache_callback later (cache_sync now st cache)) sv) ip =
    (if client_at st ip then later - now < auth_timeout cache else is_authenticated later ip cache)"
proof -
  let ?c = "foldl (record_client now) cache (clients st)"
  note rc = record_clients_laws [OF assms(2), of now "clients st" later ip]
  have "check_auth later j (cache_sync now st cache) = check_auth later j ?c" for j
    unfolding cache_sync_def using rc assms(3) by (intro auth.get_sweep) auto
  moreover have "check_auth later (normalize_ip ip) ?c = check_auth later ip ?c"
    by (simp add: check_auth_def to_ipv4_mapped_idem)
  ultimately have "is_ip_allowed (set_auth_callback (cache_callback later (cache_sync now st cache)) sv) ip =
      is_authenticated later ip ?c"
    using assms(1)
    by (simp add: is_ip_allowed_def set_auth_callback_def cache_callback_def is_authenticated_def Let_def)
  with rc show ?thesis by (simp add: client_at_def)
qed

definition sample_client :: ClientSession where
  "sample_client = \<lparr>cs_id = ''a'', cs_parent_id = None, cs_ip_version = None, cs_mode = None, cs_conn_id = [],
     cs_ice_candidates = [], cs_peer_address = None, cs_icmp_error_count = 0, cs_last_icmp_error = None\<rparr>"

theorem iperf3_admission_follows_cache_witness:
  "is_ip_allowed (set_auth_callback (cache_callback 7 (cache_sync 5 \<lparr>clients = [(''a'', sample_client)],
      closed_peers = []\<rparr> (record_auth 3 (V4 9) ''u'' None ''s'' (new_auth_cache 60))))
    (new_iperf3_server (default_iperf3_config\<lparr>ic_require_auth := True\<rparr>))) (V4 9)"
proof -
  let ?c = "record_auth 3 (V4 9) ''u'' None ''s'' (new_auth_cache 60)"
  have ok: "cache_ok ?c"
    by (simp add: cache_ok_def record_auth_def new_auth_cache_def al_keys_put al_keys_def [of "[]"])
  have "is_authenticated 7 (V4 9) ?c"
    by (simp add: is_authenticated_def check_auth_def record_auth_def new_auth_cache_def seconds_def)
  then show ?thesis
    using iperf3_admission_follows_cache [of "new_iperf3_server (default_iperf3_config\<lparr>ic_require_auth := True\<rparr>)"
        ?c 5 7 "\<lparr>clients = [(''a'', sample_client)], closed_peers = []\<rparr>" "V4 9"] ok
    by (simp add: new_iperf3_server_def client_at_def client_hit_def sample_client_def)
qed

subsection \<open>The session limit\<close>

fun accepted :: "server_event list \<Rightarrow> conn list" where
  "accepted [] = []"
| "accepted (Accept c # evs) = c # accepted evs"
| "accepted (_ # evs) = accepted evs"

fun no_finish :: "server_event \<Rightarrow> bool" where
  "no_finish (Finish r) = False"
| "no_finish _ = True"

text \<open>A full table with no connection still being sorted denies every connection until a session ends.\<close>

lemma full_table_denies:
  assumes "run_server evs w = Some w'" and "list_all no_finish evs"
    and "max_sessions (sv_config (w_server w)) \<le> session_count w"
    and "w_pending w = []" and "w_deciding w = []"
  shows "w_sessions w' = w_sessions w \<and> w_denied w' = w_denied w @ map cn_id (accepted evs)"
  using assms
proof (induction evs arbitrary: w)
  case (Cons ev evs)
  then obtain w1 where w1: "server_turn ev w = Some w1" "run_server evs w1 = Some w'"
    by (auto simp: bind_eq_Some_conv)
  from Cons.prems(2) w1(1) Cons.prems(4,5) obtain c where ev: "ev = Accept c"
    by (cases ev) (auto simp: server_defs)
  with w1(1) Cons.prems(3) have eq: "w1 = w\<lparr>w_denied := w_denied w @ [cn_id c]\<rparr>"
    by (auto simp: accept_connection_def)
  from Cons.IH [OF w1(2)] Cons.prems eq ev show ?case by (simp add: session_count_def)
qed simp

definition sample_conn :: "nat \<Rightarrow> u8 \<Rightarrow> conn" where
  "sample_conn i b = \<lparr>cn_id = i, cn_peer = SocketAddr (V4 1) 2, cn_bytes = replicate 37 b\<rparr>"

definition one_session_server :: Iperf3Server where
  "one_session_server = new_iperf3_server (default_iperf3_config\<lparr>max_sessions := 1\<rparr>)"

definition one_session_world :: server_world where
  "one_session_world = (new_world one_session_server)\<lparr>
     w_sessions := [(''c'', \<lparr>ss_owner = 0, ss_streams = 0\<rparr>)], w_running := [(''c'', 0)]\<rparr>"

lemma run_accepts:
  assumes "\<forall>c \<in> set cs. is_ip_allowed (w_server w) (peer_ip (cn_peer c))"
    and "session_count w < max_sessions (sv_config (w_server w))"
  shows "run_server (map Accept cs) w = Some (w\<lparr>w_pending := w_pending w @ cs\<rparr>)"
  using assms
proof (induction cs arbitrary: w)
  case (Cons c cs)
  then have "accept_connection c w = w\<lparr>w_pending := w_pending w @ [c]\<rparr>"
    by (simp add: accept_connection_def)
  with Cons show ?case by (simp add: session_count_def)
qed simp

lemma run_cookies:
  assumes "w_pending w = cs" and "w_sessions w = []" and "\<forall>c \<in> set cs. COOKIE_SIZE \<le> length (cn_bytes c)"
  shows "run_server (map Cookie cs) w =
    Some (w\<lparr>w_pending := [], w_deciding := w_deciding w @ map (\<lambda>c. (c, cookie_of (cn_bytes c))) cs\<rparr>)"
  using assms
proof (induction cs arbitrary: w)
  case (Cons c cs)
  then have "read_cookie c w =
      Some (w\<lparr>w_pending := cs, w_deciding := w_deciding w @ [(c, cookie_of (cn_bytes c))]\<rparr>)"
    by (simp add: read_cookie_def Let_def)
  with Cons show ?case by simp
qed simp

lemma run_stores:
  assumes "w_deciding w = ds" and "distinct (map snd ds)"
    and "set (map snd ds) \<inter> set (al_keys (w_sessions w)) = {}"
  shows "\<exists>w'. run_server (map Store ds) w = Some w' \<and> session_count w' = session_count w + length ds"
  using assms
proof (induction ds arbitrary: w)
  case (Cons d ds)
  let ?w1 = "w\<lparr>w_deciding := ds,
      w_sessions := al_put (snd d) \<lparr>ss_owner = cn_id (fst d), ss_streams = 0\<rparr> (w_sessions w),
      w_running := w_running w @ [(snd d, cn_id (fst d))]\<rparr>"
  have new: "snd d \<notin> set (al_keys (w_sessions w))" using Cons.prems(3) by auto
  then have keys: "al_keys (w_sessions ?w1) = al_keys (w_sessions w) @ [snd d]" by (simp add: al_keys_put)
  then have "session_count ?w1 = session_count w + 1"
    using new by (simp add: session_count_def al_put_def map_of_keys_iff)
  moreover have "store_session d w = Some ?w1" using Cons.prems(1) by (simp add: store_session_def)
  moreover have "set (map snd ds) \<inter> set (al_keys (w_sessions ?w1)) = {}"
    unfolding keys using Cons.prems(2,3) by auto
  ultimately show ?case using Cons.IH [of ?w1] Cons.prems(2) by simp
qed simp

text \<open>Clients that connect before the first cookie is read all become sessions.\<close>

lemma early_clients_all_stored:
  fixes cs :: "conn list"
  assumes "0 < max_sessions (sv_config sv)"
    and "\<forall>c \<in> set cs. is_ip_allowed sv (peer_ip (cn_peer c)) \<and> COOKIE_SIZE \<le> length (cn_bytes c)"
    and "distinct (map (\<lambda>c. cookie_of (cn_bytes c)) cs)"
  shows "\<exists>evs w. run_server evs (new_world sv) = Some w \<and> session_count w = length cs"
proof -
  let ?ds = "map (\<lambda>c. (c, cookie_of (cn_bytes c))) cs"
  let ?w1 = "(new_world sv)\<lparr>w_pending := cs\<rparr>"
  let ?w2 = "(new_world sv)\<lparr>w_deciding := ?ds\<rparr>"
  have 1: "run_server (map Accept cs) (new_world sv) = Some ?w1"
    using run_accepts [of cs "new_world sv"] assms by (simp add: new_world_def session_count_def)
  have 2: "run_server (map Cookie cs) ?w1 = Some ?w2"
    using run_cookies [of ?w1 cs] assms(2) by (simp add: new_world_def)
  from run_stores [of ?w2 ?ds] assms(3) obtain w where
    3: "run_server (map Store ?ds) ?w2 = Some w" "session_count w = length cs"
    by (auto simp: new_world_def session_count_def al_keys_def comp_def)
  have "run_server (map Accept cs @ map Cookie cs @ map Store ?ds) (new_world sv) = Some w"
    using 1 2 3(1) by (simp add: run_ticks_append)
  with 3(2) show ?thesis by blast
qed

lemma sample_cookies: "cookie_of (replicate 37 97) \<noteq> cookie_of (replicate 37 98)"
proof -
  have "cookie_of (replicate 37 b) = replicate 37 (char_of (unat b))" if "b < 0x80" "b \<noteq> 0" for b :: u8
  proof -
    have "from_utf8_lossy (replicate 37 b) = replicate 37 (char_of (unat b))"
      using that by (simp add: from_utf8_lossy_def utf8_lossy_ascii str_of_bytes_def)
    moreover have "char_of (unat b) \<noteq> char_of (0 :: nat)"
      using that(2) unsigned_less [of b] by (simp add: char_of_eq_iff take_bit_nat_eq_self unat_gt_0)
    ultimately show ?thesis by (simp add: cookie_of_def COOKIE_SIZE_def dropWhile_replicate)
  qed
  from this [of 97] this [of 98] show ?thesis by (simp add: char_of_eq_iff)
qed

text \<open>
  C25. The session limit is checked at the wrong place, with two consequences. Once the number
  of sessions has reached the limit and no connection is still being sorted, every further
  connection is answered with access denied until a session ends, and that includes the data
  streams of the sessions in the table: no session gets another stream, so a server with a limit
  of one never serves a TCP test. And the limit is not enforced: a session enters the table only
  when its task has read the cookie, so any number of allowed clients with different cookies
  that connect before the first cookie is read all become sessions, whatever (positive) limit
  is configured.
\<close>

theorem session_limit_misplaced:
  fixes cs :: "conn list"
  shows "(run_server evs w = Some w' \<and> list_all no_finish evs \<and>
      max_sessions (sv_config (w_server w)) \<le> session_count w \<and> w_pending w = [] \<and> w_deciding w = [] \<longrightarrow>
      w_sessions w' = w_sessions w \<and> w_denied w' = w_denied w @ map cn_id (accepted evs)) \<and>
    (0 < max_sessions (sv_config sv) \<and>
      (\<forall>c \<in> set cs. is_ip_allowed sv (peer_ip (cn_peer c)) \<and> COOKIE_SIZE \<le> length (cn_bytes c)) \<and>
      distinct (map (\<lambda>c. cookie_of (cn_bytes c)) cs) \<longrightarrow>
      (\<exists>evs w. run_server evs (new_world sv) = Some w \<and> session_count w = length cs))"
proof (intro conjI impI)
  assume "run_server evs w = Some w' \<and> list_all no_finish evs \<and>
      max_sessions (sv_config (w_server w)) \<le> session_count w \<and> w_pending w = [] \<and> w_deciding w = []"
  then show "w_sessions w' = w_sessions w" "w_denied w' = w_denied w @ map cn_id (accepted evs)"
    using full_table_denies by blast+
qed (use early_clients_all_stored in blast)

theorem session_limit_misplaced_witness:
  "(\<exists>w'. run_server [Accept (sample_conn 1 99), Accept (sample_conn 2 99)] one_session_world = Some w' \<and>
      ss_streams (snd (hd (w_sessions w'))) = 0 \<and> w_denied w' = [1, 2]) \<and>
   (\<exists>evs w. run_server evs (new_world one_session_server) = Some w \<and> session_count w = 2)"
proof
  let ?evs = "[Accept (sample_conn 1 99), Accept (sample_conn 2 99)]"
  obtain w' where r: "run_server ?evs one_session_world = Some w'" by simp
  with session_limit_misplaced [of ?evs one_session_world w']
  show "\<exists>w'. run_server ?evs one_session_world = Some w' \<and>
      ss_streams (snd (hd (w_sessions w'))) = 0 \<and> w_denied w' = [1, 2]"
    by (simp add: one_session_world_def one_session_server_def new_world_def new_iperf3_server_def
        session_count_def sample_conn_def)
next
  show "\<exists>evs w. run_server evs (new_world one_session_server) = Some w \<and> session_count w = 2"
    using session_limit_misplaced [where sv = one_session_server and cs = "[sample_conn 1 97, sample_conn 2 98]"]
      sample_cookies
    by (simp add: one_session_server_def new_iperf3_server_def sample_conn_def COOKIE_SIZE_def
        is_ip_allowed_def default_iperf3_config_def numeral_2_eq_2)
qed

end
