(* ===== verification/Measurement_State.thy ===== *)
theory Measurement_State
  imports Server_State Auth_Service
begin

text \<open>
  The data of a measurement: the probe packets and control messages of
  \<open>common/src/protocol.rs\<close>, \<open>common/src/metrics.rs\<close>, and the measurement state of a session
  in \<open>server/src/state.rs\<close>. Floating point numbers are of a type \<open>'f\<close> whose operations are
  given by a record, so that the definitions hold for every arithmetic; the message structs
  that consist of a connection and a survey identifier share one record.
\<close>

subsection \<open>Floating point operations\<close>

record 'f f64 =
  f_of_u64 :: "u64 \<Rightarrow> 'f"
  f_of_i64 :: "i64 \<Rightarrow> 'f"
  f_add :: "'f \<Rightarrow> 'f \<Rightarrow> 'f"
  f_sub :: "'f \<Rightarrow> 'f \<Rightarrow> 'f"
  f_mul :: "'f \<Rightarrow> 'f \<Rightarrow> 'f"
  f_div :: "'f \<Rightarrow> 'f \<Rightarrow> 'f"
  f_abs :: "'f \<Rightarrow> 'f"
  f_sqrt :: "'f \<Rightarrow> 'f"
  f_max :: "'f \<Rightarrow> 'f \<Rightarrow> 'f"
  f_less :: "'f \<Rightarrow> 'f \<Rightarrow> bool"
  f_secs :: "nat \<Rightarrow> 'f"  \<comment> \<open>\<open>Duration::as_secs_f64\<close> of nanoseconds\<close>
  f_fixed2 :: "'f \<Rightarrow> string"  \<comment> \<open>the format \<open>{:.2}\<close>\<close>

definition f_nat :: "'f f64 \<Rightarrow> nat \<Rightarrow> 'f" where
  "f_nat F n = f_of_u64 F (of_nat n)"

definition f_sum :: "'f f64 \<Rightarrow> 'f list \<Rightarrow> 'f" where
  "f_sum F = foldl (f_add F) (f_nat F 0)"

text \<open>\<open>a as i64 - b as i64\<close>, checked, for unsigned operands.\<close>

definition i64_diff :: "u64 \<Rightarrow> u64 \<Rightarrow> i64 option" where
  "i64_diff a b =
     (let d = sint a - sint b
      in if - (2 ^ 63) \<le> d \<and> d < 2 ^ 63 then Some (a - b) else None)"

subsection \<open>Packets and control messages\<close>

record ProbePacket =
  pp_seq :: u64
  pp_timestamp_ms :: u64
  pp_direction :: Direction
  pp_send_options :: "SendOptions option"
  pp_conn_id :: string

record TestProbePacket =
  tpp_test_seq :: u64
  tpp_timestamp_ms :: u64
  tpp_direction :: Direction
  tpp_send_options :: "SendOptions option"
  tpp_conn_id :: string

record BulkPacket =
  bk_data :: bytes
  bk_send_options :: "SendOptions option"

definition new_bulk_packet :: "nat \<Rightarrow> BulkPacket" where
  "new_bulk_packet n = \<lparr>bk_data = replicate n 0, bk_send_options = None\<rparr>"

record ProbeFeedback =
  highest_seq :: u64
  highest_seq_received_at_ms :: u64
  recent_count :: u32
  recent_reorders :: u32

definition default_feedback :: ProbeFeedback where
  "default_feedback = \<lparr>highest_seq = 0, highest_seq_received_at_ms = 0, recent_count = 0,
     recent_reorders = 0\<rparr>"

record MeasurementProbePacket =
  mp_seq :: u64
  mp_sent_at_ms :: u64
  mp_direction :: Direction
  mp_conn_id :: string
  mp_feedback :: ProbeFeedback

record 'f DirectionStats =
  delay_deviation_ms :: "'f list"
  rtt_ms :: "'f list"
  jitter_ms :: "'f list"
  loss_rate :: 'f
  reorder_rate :: 'f
  probe_count :: u32
  baseline_delay_ms :: 'f

definition default_stats :: "'f f64 \<Rightarrow> 'f DirectionStats" where
  "default_stats F = (let z = f_nat F 0
     in \<lparr>delay_deviation_ms = replicate 4 z, rtt_ms = replicate 4 z, jitter_ms = replicate 4 z,
         loss_rate = z, reorder_rate = z, probe_count = 0, baseline_delay_ms = z\<rparr>)"

record SessionMessage =
  sm_conn_id :: string
  sm_survey_session_id :: string

type_synonym StopTracerouteMessage = SessionMessage
type_synonym StartTracerouteMessage = SessionMessage
type_synonym TracerouteCompletedMessage = SessionMessage
type_synonym ServerSideReadyMessage = SessionMessage
type_synonym GetMeasuringTimeMessage = SessionMessage
type_synonym StartServerTrafficMessage = SessionMessage
type_synonym StopServerTrafficMessage = SessionMessage
type_synonym StartProbeStreamsMessage = SessionMessage
type_synonym StopProbeStreamsMessage = SessionMessage

record StartSurveySessionMessage = SessionMessage +
  sv_magic_key :: "string option"

record StartMtuTracerouteMessage = SessionMessage +
  mt_packet_size :: u32
  mt_path_ttl :: i32
  mt_collect_timeout_ms :: nat

record MtuTracerouteCompletedMessage = SessionMessage +
  mc_packet_size :: u32

record 'f TraceHopMessage = SessionMessage +
  th_hop :: u8
  th_ip_address :: "string option"
  th_rtt_ms :: 'f
  th_message :: string
  th_original_src_port :: u16
  th_original_dest_addr :: string

record 'f MtuHopMessage = SessionMessage +
  mh_hop :: u8
  mh_ip_address :: "string option"
  mh_rtt_ms :: 'f
  mh_mtu :: "u16 option"
  mh_message :: string
  mh_packet_size :: u32

record MeasuringTimeResponseMessage = SessionMessage +
  mr_max_duration_ms :: u64

record 'f ProbeStatsReport = SessionMessage +
  ps_timestamp_ms :: u64
  ps_c2s_stats :: "'f DirectionStats"
  ps_s2c_stats :: "'f DirectionStats"

datatype 'f ControlMessage =
    StartTraceroute StartTracerouteMessage
  | StopTraceroute StopTracerouteMessage
  | TracerouteCompleted TracerouteCompletedMessage
  | StartSurveySession StartSurveySessionMessage
  | ServerSideReady ServerSideReadyMessage
  | StartMtuTraceroute StartMtuTracerouteMessage
  | MtuTracerouteCompleted MtuTracerouteCompletedMessage
  | TraceHop "'f TraceHopMessage"
  | MtuHop "'f MtuHopMessage"
  | GetMeasuringTime GetMeasuringTimeMessage
  | MeasuringTimeResponse MeasuringTimeResponseMessage
  | StartServerTraffic StartServerTrafficMessage
  | StopServerTraffic StopServerTrafficMessage
  | TestProbeMessageEcho TestProbePacket
  | StartProbeStreams StartProbeStreamsMessage
  | StopProbeStreams StopProbeStreamsMessage
  | ProbeStats "'f ProbeStatsReport"

subsection \<open>Client metrics\<close>

record 'f ClientMetrics =
  c2s_throughput :: "'f list"
  s2c_throughput :: "'f list"
  c2s_delay_avg :: "'f list"
  s2c_delay_avg :: "'f list"
  c2s_jitter :: "'f list"
  s2c_jitter :: "'f list"
  c2s_loss_rate :: "'f list"
  s2c_loss_rate :: "'f list"
  c2s_reorder_rate :: "'f list"
  s2c_reorder_rate :: "'f list"

definition default_metrics :: "'f f64 \<Rightarrow> 'f ClientMetrics" where
  "default_metrics F = (let z = replicate 3 (f_nat F 0)
     in \<lparr>c2s_throughput = z, s2c_throughput = z, c2s_delay_avg = z, s2c_delay_avg = z,
         c2s_jitter = z, s2c_jitter = z, c2s_loss_rate = z, s2c_loss_rate = z,
         c2s_reorder_rate = z, s2c_reorder_rate = z\<rparr>)"

subsection \<open>The measurement state of a session\<close>

record ReceivedProbe =
  rp_seq :: u64
  rp_sent_at_ms :: u64
  rp_received_at_ms :: u64

record ReceivedBulk =
  rb_bytes :: u64
  rb_received_at_ms :: u64

record SentBulk =
  sb_bytes :: u64
  sb_sent_at_ms :: u64

record SentProbe =
  sp_seq :: u64
  sp_sent_at_ms :: u64

record EchoedProbe =
  ep_seq :: u64
  ep_sent_at_ms :: u64
  ep_echoed_at_ms :: u64

record ReceivedMeasurementProbe =
  rm_seq :: u64
  rm_sent_at_ms :: u64
  rm_received_at_ms :: u64
  rm_feedback :: ProbeFeedback

record 'f MeasurementState =
  probe_seq :: u64
  testprobe_seq :: u64
  current_ttl :: u8
  path_ttl :: "u8 option"
  stop_traceroute :: bool
  traceroute_started_at :: "nat option"
  traffic_active :: bool
  bulk_bytes_sent :: u64
  received_probes :: "ReceivedProbe list"
  received_bulk_bytes :: "ReceivedBulk list"
  sent_bulk_packets :: "SentBulk list"
  sent_probes :: "SentProbe list"
  sent_probes_map :: "u64 \<rightharpoonup> SentProbe"
  echoed_probes :: "EchoedProbe list"
  sent_testprobes :: "SentProbe list"
  sent_testprobes_map :: "u64 \<rightharpoonup> SentProbe"
  echoed_testprobes :: "EchoedProbe list"
  last_received_seq :: "u64 option"
  probe_streams_active :: bool
  probe_streams_started_at :: "nat option"
  max_measuring_duration :: "nat option"
  measurement_probe_seq :: u64
  received_measurement_probes :: "ReceivedMeasurementProbe list"
  probe_stats :: "'f DirectionStats list"
  client_reported_s2c_stats :: "'f DirectionStats option"
  baseline_delay_sum :: 'f
  baseline_delay_count :: u64
  last_feedback :: ProbeFeedback

definition new_measurement_state :: "'f f64 \<Rightarrow> 'f MeasurementState" where
  "new_measurement_state F =
     \<lparr>probe_seq = 0, testprobe_seq = 0, current_ttl = 1, path_ttl = None, stop_traceroute = False,
      traceroute_started_at = None, traffic_active = False, bulk_bytes_sent = 0,
      received_probes = [], received_bulk_bytes = [], sent_bulk_packets = [], sent_probes = [],
      sent_probes_map = Map.empty, echoed_probes = [], sent_testprobes = [],
      sent_testprobes_map = Map.empty, echoed_testprobes = [], last_received_seq = None,
      probe_streams_active = False, probe_streams_started_at = None,
      max_measuring_duration = None, measurement_probe_seq = 0, received_measurement_probes = [],
      probe_stats = [], client_reported_s2c_stats = None, baseline_delay_sum = f_nat F 0,
      baseline_delay_count = 0, last_feedback = default_feedback\<rparr>"

text \<open>A data channel is known by the state that the WebRTC stack reports for it.\<close>

datatype channel_state = Connecting | Opened | Closing | Shut

record DataChannels =
  dc_probe :: "channel_state option"
  dc_bulk :: "channel_state option"
  dc_control :: "channel_state option"
  dc_testprobe :: "channel_state option"

definition new_data_channels :: DataChannels where
  "new_data_channels = \<lparr>dc_probe = None, dc_bulk = None, dc_control = None, dc_testprobe = None\<rparr>"

definition all_ready :: "DataChannels \<Rightarrow> bool" where
  "all_ready d \<longleftrightarrow> dc_probe d \<noteq> None \<and> dc_bulk d \<noteq> None \<and> dc_control d \<noteq> None \<and> dc_testprobe d \<noteq> None"

text \<open>The rest of \<open>ClientSession\<close>, which the measurements use.\<close>

record 'f MeasuredSession = ClientSession +
  ms_survey_session_id :: string
  ms_data_channels :: DataChannels
  ms_metrics :: "'f ClientMetrics"
  ms_state :: "'f MeasurementState"
  ms_magic_key :: "string option"
  ms_magic_key_config :: "MagicKeyConfig option"
  ms_session_manager :: bool  \<comment> \<open>whether the optional service is there\<close>
  ms_metrics_recorder :: bool

abbreviation in_state ::
  "('f MeasurementState \<Rightarrow> 'f MeasurementState) \<Rightarrow> 'f MeasuredSession \<Rightarrow> 'f MeasuredSession" where
  "in_state f c \<equiv> c\<lparr>ms_state := f (ms_state c)\<rparr>"

subsection \<open>A fresh session\<close>

text \<open>The arithmetic of a type with one value, and a session that has just been set up, for examples.\<close>

definition unit_f64 :: "unit f64" where
  "unit_f64 = \<lparr>f_of_u64 = (\<lambda>_. ()), f_of_i64 = (\<lambda>_. ()), f_add = (\<lambda>_ _. ()), f_sub = (\<lambda>_ _. ()),
     f_mul = (\<lambda>_ _. ()), f_div = (\<lambda>_ _. ()), f_abs = (\<lambda>_. ()), f_sqrt = (\<lambda>_. ()), f_max = (\<lambda>_ _. ()),
     f_less = (\<lambda>_ _. False), f_secs = (\<lambda>_. ()), f_fixed2 = (\<lambda>_. [])\<rparr>"

definition sample_measured :: "'f f64 \<Rightarrow> 'f MeasuredSession" where
  "sample_measured F = \<lparr>cs_id = ''s1'', cs_parent_id = None, cs_ip_version = Some ''ipv4'', cs_mode = None,
     cs_conn_id = ''conn-a'', cs_ice_candidates = [], cs_peer_address = None, cs_icmp_error_count = 0,
     cs_last_icmp_error = None, ms_survey_session_id = [], ms_data_channels = new_data_channels,
     ms_metrics = default_metrics F, ms_state = new_measurement_state F, ms_magic_key = None,
     ms_magic_key_config = None, ms_session_manager = False, ms_metrics_recorder = False\<rparr>"

end
