(* ===== verification/Udp_Options.thy ===== *)
theory Udp_Options
  imports Netpoke_Prelude
begin

text \<open>
  The per-message socket options of the patched UDP layer
  (\<open>vendored/webrtc-util/src/conn/conn_udp.rs\<close>); they travel from the measurement loops through
  the SCTP stream down to the socket.
\<close>

record UdpSendOptions =
  uso_ttl :: "u8 option"
  uso_tos :: "u8 option"
  uso_df_bit :: "bool option"
  uso_conn_id :: string
  uso_bypass_dtls :: bool
  uso_bypass_sctp_fragmentation :: bool

end
