(* ===== verification/Measurements.thy ===== *)
theory Measurements
  imports Measurement_State Udp_Options
begin

text \<open>
  \<open>server/src/measurements.rs\<close>: the tasks that send probes, the handlers of received probes,
  the metrics, and the two traceroute rounds. A task is a function for one turn of its loop,
  from one timer to the next; it takes the clock and the outcome of the send as arguments and
  returns whether the loop goes on, the session and what went out. JSON encodings are
  arguments.
\<close>

text \<open>What leaves a session: packets on its data channels and calls of the database services.\<close>

datatype 'f out =
    OutControl "'f ControlMessage"
  | OutProbe ProbePacket
  | OutBulk BulkPacket
  | OutTestProbe bytes UdpSendOptions
  | OutMeasurement MeasurementProbePacket
  | DbCreateSession string string
  | DbRecordStats string string u64 "'f DirectionStats" "'f DirectionStats"
  | DbUpdateTimestamp string

subsection \<open>Senders\<close>

text \<open>The loop that drops old entries at the front of a queue, and the same with the map beside it.\<close>

definition prune :: "('a \<Rightarrow> u64) \<Rightarrow> u64 \<Rightarrow> 'a list \<Rightarrow> 'a list" where
  "prune time cutoff = dropWhile (\<lambda>x. time x < cutoff)"

fun prune_sent ::
  "u64 \<Rightarrow> SentProbe list \<Rightarrow> (u64 \<rightharpoonup> SentProbe) \<Rightarrow> SentProbe list \<times> (u64 \<rightharpoonup> SentProbe)" where
  "prune_sent cutoff [] m = ([], m)"
| "prune_sent cutoff (p # ps) m =
     (if sp_sent_at_ms p < cutoff then prune_sent cutoff ps (m(sp_seq p := None)) else (p # ps, m))"

definition start_probe_sender ::
  "u64 \<Rightarrow> bool \<Rightarrow> 'f MeasuredSession \<Rightarrow> (bool \<times> 'f MeasuredSession \<times> 'f out list) option" where
  "start_probe_sender now_ms send_ok c =
     (let st = ms_state c
      in if \<not> traffic_active st then Some (False, c, [])
         else if dc_probe (ms_data_channels c) \<noteq> Some Opened then Some (True, c, [])
         else do {
           let seq = probe_seq st;
           next_seq \<leftarrow> add_checked seq 1;
           let p = \<lparr>sp_seq = seq, sp_sent_at_ms = now_ms\<rparr>;
           cutoff \<leftarrow> sub_checked now_ms 60000;
           let (q, m) = prune_sent cutoff (sent_probes st @ [p]) ((sent_probes_map st)(seq \<mapsto> p));
           Some (send_ok,
             c\<lparr>ms_state := st\<lparr>probe_seq := next_seq, sent_probes := q, sent_probes_map := m\<rparr>\<rparr>,
             if send_ok
             then [OutProbe \<lparr>pp_seq = seq, pp_timestamp_ms = now_ms, pp_direction = ServerToClient,
                             pp_send_options = None, pp_conn_id = cs_conn_id c\<rparr>]
             else [])
         })"

definition start_bulk_sender ::
  "(BulkPacket \<Rightarrow> bytes) \<Rightarrow> u64 \<Rightarrow> bool \<Rightarrow> 'f MeasuredSession \<Rightarrow>
   (bool \<times> 'f MeasuredSession \<times> 'f out list) option" where
  "start_bulk_sender enc_bulk now_ms send_ok c =
     (let st = ms_state c
      in if \<not> traffic_active st then Some (False, c, [])
         else if dc_bulk (ms_data_channels c) \<noteq> Some Opened then Some (True, c, [])
         else let bulk = new_bulk_packet 1024; bytes_sent = of_nat (length (enc_bulk bulk))
         in if \<not> send_ok then Some (False, c, [])
         else do {
           total \<leftarrow> add_checked (bulk_bytes_sent st) bytes_sent;
           cutoff \<leftarrow> sub_checked now_ms 60000;
           Some (True,
             c\<lparr>ms_state := st\<lparr>bulk_bytes_sent := total,
                 sent_bulk_packets := prune sb_sent_at_ms cutoff
                   (sent_bulk_packets st @ [\<lparr>sb_bytes = bytes_sent, sb_sent_at_ms = now_ms\<rparr>])\<rparr>\<rparr>,
             [OutBulk bulk])
         })"

subsection \<open>Metrics\<close>

text \<open>
  Both directions are computed from triples of sequence number, time sent and time received
  (or echoed): average delay, its standard deviation, the loss rate when there are two probes
  or more, and the share of probes that come after one with a larger number.
\<close>

definition f_avg :: "'f f64 \<Rightarrow> 'f list \<Rightarrow> 'f" where
  "f_avg F ds = f_div F (f_sum F ds) (f_nat F (length ds))"

definition f_std_dev :: "'f f64 \<Rightarrow> 'f list \<Rightarrow> 'f" where
  "f_std_dev F ds =
     f_sqrt F (f_div F (f_sum F (map (\<lambda>d. let e = f_sub F d (f_avg F ds) in f_mul F e e) ds))
                       (f_nat F (length ds)))"

definition delays_of :: "'f f64 \<Rightarrow> (u64 \<times> u64 \<times> u64) list \<Rightarrow> 'f list option" where
  "delays_of F = map_checked (\<lambda>(_, sent, got). map_option (f_of_i64 F) (i64_diff got sent))"

definition loss_percent :: "'f f64 \<Rightarrow> u64 \<Rightarrow> nat \<Rightarrow> 'f" where
  "loss_percent F expected received =
     f_max F (f_mul F (f_div F (f_sub F (f_of_u64 F expected) (f_nat F received))
                               (f_of_u64 F expected)) (f_nat F 100))
             (f_nat F 0)"

definition expected_count :: "u64 list \<Rightarrow> u64 option" where
  "expected_count seqs =
     do { d \<leftarrow> sub_checked (Max (set seqs)) (Min (set seqs)); add_checked d 1 }"

fun count_reorders :: "u64 \<Rightarrow> u64 list \<Rightarrow> nat" where
  "count_reorders max_seq_seen [] = 0"
| "count_reorders max_seq_seen (s # ss) =
     (if s < max_seq_seen then 1 else 0) + count_reorders (max max_seq_seen s) ss"

definition reorder_percent :: "'f f64 \<Rightarrow> u64 list \<Rightarrow> 'f" where
  "reorder_percent F seqs =
     f_mul F (f_div F (f_nat F (count_reorders 0 seqs)) (f_nat F (length seqs))) (f_nat F 100)"

definition direction_metrics ::
  "'f f64 \<Rightarrow> (u64 \<times> u64 \<times> u64) list \<Rightarrow> ('f \<times> 'f \<times> 'f option \<times> 'f) option" where
  "direction_metrics F ps =
     do {
       delays \<leftarrow> delays_of F ps;
       loss \<leftarrow> (if 2 \<le> length ps
                then do { e \<leftarrow> expected_count (map fst ps); Some (Some (loss_percent F e (length ps))) }
                else Some None);
       Some (f_avg F delays, f_std_dev F delays, loss, reorder_percent F (map fst ps))
     }"

definition throughput :: "'f f64 \<Rightarrow> u64 \<Rightarrow> u64 list \<Rightarrow> 'f option" where
  "throughput F window_ms sizes =
     do {
       total \<leftarrow> sum_checked 0 sizes;
       Some (f_div F (f_of_u64 F total) (f_div F (f_of_u64 F window_ms) (f_nat F 1000)))
     }"

text \<open>The four parts of a window: probes, bulk received, bulk sent, echoed probes.\<close>

definition recent_probes :: "u64 \<Rightarrow> 'f MeasurementState \<Rightarrow> (u64 \<times> u64 \<times> u64) list" where
  "recent_probes cutoff st =
     map (\<lambda>p. (rp_seq p, rp_sent_at_ms p, rp_received_at_ms p))
       (filter (\<lambda>p. cutoff \<le> rp_received_at_ms p) (received_probes st))"

definition recent_bulk :: "u64 \<Rightarrow> 'f MeasurementState \<Rightarrow> u64 list" where
  "recent_bulk cutoff st =
     map rb_bytes (filter (\<lambda>b. cutoff \<le> rb_received_at_ms b) (received_bulk_bytes st))"

definition recent_sent_bulk :: "u64 \<Rightarrow> 'f MeasurementState \<Rightarrow> u64 list" where
  "recent_sent_bulk cutoff st =
     map sb_bytes (filter (\<lambda>b. cutoff \<le> sb_sent_at_ms b) (sent_bulk_packets st))"

definition recent_echoed_probes :: "u64 \<Rightarrow> 'f MeasurementState \<Rightarrow> (u64 \<times> u64 \<times> u64) list" where
  "recent_echoed_probes cutoff st =
     map (\<lambda>p. (ep_seq p, ep_sent_at_ms p, ep_echoed_at_ms p))
       (filter (\<lambda>p. cutoff \<le> ep_echoed_at_ms p) (echoed_probes st))"

definition c2s_metrics ::
  "'f f64 \<Rightarrow> nat \<Rightarrow> (u64 \<times> u64 \<times> u64) list \<Rightarrow> 'f ClientMetrics \<Rightarrow> 'f ClientMetrics option" where
  "c2s_metrics F i ps m =
     (if ps = [] then Some m
      else do {
        (avg, jitter, loss, reorder) \<leftarrow> direction_metrics F ps;
        Some (m\<lparr>c2s_delay_avg := (c2s_delay_avg m)[i := avg],
                c2s_jitter := (c2s_jitter m)[i := jitter],
                c2s_loss_rate := (case loss of None \<Rightarrow> c2s_loss_rate m
                                  | Some l \<Rightarrow> (c2s_loss_rate m)[i := l]),
                c2s_reorder_rate := (c2s_reorder_rate m)[i := reorder]\<rparr>)
      })"

definition c2s_bulk_metrics ::
  "'f f64 \<Rightarrow> nat \<Rightarrow> u64 \<Rightarrow> u64 list \<Rightarrow> 'f ClientMetrics \<Rightarrow> 'f ClientMetrics option" where
  "c2s_bulk_metrics F i window_ms sizes m =
     (if sizes = [] then Some m
      else do {
        t \<leftarrow> throughput F window_ms sizes;
        Some (m\<lparr>c2s_throughput := (c2s_throughput m)[i := t]\<rparr>)
      })"

definition s2c_bulk_metrics ::
  "'f f64 \<Rightarrow> nat \<Rightarrow> u64 \<Rightarrow> u64 list \<Rightarrow> 'f ClientMetrics \<Rightarrow> 'f ClientMetrics option" where
  "s2c_bulk_metrics F i window_ms sizes m =
     (if sizes = [] then Some m
      else do {
        t \<leftarrow> throughput F window_ms sizes;
        Some (m\<lparr>s2c_throughput := (s2c_throughput m)[i := t]\<rparr>)
      })"

definition s2c_metrics ::
  "'f f64 \<Rightarrow> nat \<Rightarrow> (u64 \<times> u64 \<times> u64) list \<Rightarrow> 'f ClientMetrics \<Rightarrow> 'f ClientMetrics option" where
  "s2c_metrics F i ps m =
     (if ps = [] then Some m
      else do {
        (avg, jitter, loss, reorder) \<leftarrow> direction_metrics F ps;
        Some (m\<lparr>s2c_delay_avg := (s2c_delay_avg m)[i := avg],
                s2c_jitter := (s2c_jitter m)[i := jitter],
                s2c_loss_rate := (case loss of None \<Rightarrow> s2c_loss_rate m
                                  | Some l \<Rightarrow> (s2c_loss_rate m)[i := l]),
                s2c_reorder_rate := (s2c_reorder_rate m)[i := reorder]\<rparr>)
      })"

definition window_metrics ::
  "'f f64 \<Rightarrow> u64 \<Rightarrow> 'f MeasurementState \<Rightarrow> nat \<times> u64 \<Rightarrow> 'f ClientMetrics \<Rightarrow> 'f ClientMetrics option" where
  "window_metrics F now_ms st = (\<lambda>(i, window_ms) m.
     let cutoff = saturating_sub now_ms window_ms
     in do {
       m \<leftarrow> c2s_metrics F i (recent_probes cutoff st) m;
       m \<leftarrow> c2s_bulk_metrics F i window_ms (recent_bulk cutoff st) m;
       m \<leftarrow> s2c_bulk_metrics F i window_ms (recent_sent_bulk cutoff st) m;
       s2c_metrics F i (recent_echoed_probes cutoff st) m
     })"

definition calculate_metrics ::
  "'f f64 \<Rightarrow> u64 \<Rightarrow> 'f MeasuredSession \<Rightarrow> 'f MeasuredSession option" where
  "calculate_metrics F now_ms c =
     do {
       m \<leftarrow> run_ticks (window_metrics F now_ms (ms_state c)) [(0, 1000), (1, 10000), (2, 60000)]
              (default_metrics F);
       Some (c\<lparr>ms_metrics := m\<rparr>)
     }"

subsection \<open>Handlers of received probes\<close>

text \<open>A handler reads the clock once for itself and once for the metrics.\<close>

definition probe_received ::
  "u64 \<Rightarrow> ProbePacket \<Rightarrow> 'f MeasurementState \<Rightarrow> 'f MeasurementState option" where
  "probe_received now_ms probe st =
     (if pp_direction probe = ServerToClient
      then (case sent_probes_map st (pp_seq probe) of
              Some sent \<Rightarrow>
                do {
                  cutoff \<leftarrow> sub_checked now_ms 60000;
                  Some (st\<lparr>echoed_probes := prune ep_echoed_at_ms cutoff (echoed_probes st @
                    [\<lparr>ep_seq = pp_seq probe, ep_sent_at_ms = sp_sent_at_ms sent,
                      ep_echoed_at_ms = pp_timestamp_ms probe\<rparr>])\<rparr>)
                }
            | None \<Rightarrow> Some st)
      else do {
        cutoff \<leftarrow> sub_checked now_ms 60000;
        Some (st\<lparr>received_probes := prune rp_received_at_ms cutoff (received_probes st @
          [\<lparr>rp_seq = pp_seq probe, rp_sent_at_ms = pp_timestamp_ms probe,
            rp_received_at_ms = now_ms\<rparr>])\<rparr>)
      })"

definition handle_probe_packet ::
  "'f f64 \<Rightarrow> (bytes \<Rightarrow> ProbePacket option) \<Rightarrow> u64 \<Rightarrow> u64 \<Rightarrow> bytes \<Rightarrow> 'f MeasuredSession \<Rightarrow>
   'f MeasuredSession option" where
  "handle_probe_packet F parse_probe now_ms metrics_ms msg c =
     (case parse_probe msg of
        None \<Rightarrow> Some c
      | Some probe \<Rightarrow>
          if pp_conn_id probe \<noteq> cs_conn_id c then Some c
          else do {
            st \<leftarrow> probe_received now_ms probe (ms_state c);
            calculate_metrics F metrics_ms (c\<lparr>ms_state := st\<rparr>)
          })"

definition handle_bulk_packet ::
  "'f f64 \<Rightarrow> u64 \<Rightarrow> u64 \<Rightarrow> bytes \<Rightarrow> 'f MeasuredSession \<Rightarrow> 'f MeasuredSession option" where
  "handle_bulk_packet F now_ms metrics_ms msg c =
     do {
       cutoff \<leftarrow> sub_checked now_ms 60000;
       let st = ms_state c;
       calculate_metrics F metrics_ms (c\<lparr>ms_state := st\<lparr>received_bulk_bytes :=
         prune rb_received_at_ms cutoff (received_bulk_bytes st @
           [\<lparr>rb_bytes = of_nat (length msg), rb_received_at_ms = now_ms\<rparr>])\<rparr>\<rparr>)
     }"

definition handle_testprobe_echo_packet ::
  "u64 \<Rightarrow> TestProbePacket \<Rightarrow> 'f MeasuredSession \<Rightarrow> 'f MeasuredSession option" where
  "handle_testprobe_echo_packet now_ms testprobe c =
     (let st = ms_state c
      in if tpp_conn_id testprobe \<noteq> cs_conn_id c then Some c
         else if tpp_direction testprobe \<noteq> ServerToClient then Some c
         else case Option.bind (tpp_send_options testprobe) ttl of
           Some hops \<Rightarrow>
             Some (if path_ttl st = None then c\<lparr>ms_state := st\<lparr>path_ttl := Some hops\<rparr>\<rparr> else c)
         | None \<Rightarrow>
             (case sent_testprobes_map st (tpp_test_seq testprobe) of
                Some sent \<Rightarrow>
                  do {
                    cutoff \<leftarrow> sub_checked now_ms 60000;
                    Some (c\<lparr>ms_state := st\<lparr>echoed_testprobes := prune ep_echoed_at_ms cutoff
                      (echoed_testprobes st @
                        [\<lparr>ep_seq = tpp_test_seq testprobe, ep_sent_at_ms = sp_sent_at_ms sent,
                          ep_echoed_at_ms = tpp_timestamp_ms testprobe\<rparr>])\<rparr>\<rparr>)
                  }
              | None \<Rightarrow> Some c))"

definition handle_testprobe_packet ::
  "(bytes \<Rightarrow> TestProbePacket option) \<Rightarrow> u64 \<Rightarrow> bytes \<Rightarrow> 'f MeasuredSession \<Rightarrow> 'f MeasuredSession option" where
  "handle_testprobe_packet parse_testprobe now_ms msg c =
     (case parse_testprobe msg of
        Some testprobe \<Rightarrow> handle_testprobe_echo_packet now_ms testprobe c
      | None \<Rightarrow> Some c)"

subsection \<open>Measurement probe streams\<close>

definition measuring_time_over :: "nat \<Rightarrow> 'f MeasurementState \<Rightarrow> bool" where
  "measuring_time_over now st \<longleftrightarrow>
     (case (probe_streams_started_at st, max_measuring_duration st) of
        (Some started_at, Some max_duration) \<Rightarrow> max_duration \<le> now - started_at
      | _ \<Rightarrow> False)"

definition start_measurement_probe_sender ::
  "nat \<Rightarrow> u64 \<Rightarrow> bool \<Rightarrow> 'f MeasuredSession \<Rightarrow> (bool \<times> 'f MeasuredSession \<times> 'f out list) option" where
  "start_measurement_probe_sender now now_ms send_ok c =
     (let st = ms_state c
      in if \<not> probe_streams_active st then Some (False, c, [])
         else if measuring_time_over now st
         then Some (False, c\<lparr>ms_state := st\<lparr>probe_streams_active := False\<rparr>\<rparr>, [])
         else do {
           let seq = measurement_probe_seq st;
           next_seq \<leftarrow> add_checked seq 1;
           let c = c\<lparr>ms_state := st\<lparr>measurement_probe_seq := next_seq\<rparr>\<rparr>;
           if dc_probe (ms_data_channels c) \<noteq> Some Opened then Some (True, c, [])
           else Some (send_ok, c,
             if send_ok
             then [OutMeasurement \<lparr>mp_seq = seq, mp_sent_at_ms = now_ms, mp_direction = ServerToClient,
                     mp_conn_id = cs_conn_id c, mp_feedback = last_feedback st\<rparr>]
             else [])
         })"

definition PROBE_STATS_WINDOW_MS :: u64 where
  "PROBE_STATS_WINDOW_MS = 2000"

definition PROBE_FEEDBACK_WINDOW_MS :: u64 where
  "PROBE_FEEDBACK_WINDOW_MS = 1000"

definition BASELINE_MIN_SAMPLES :: u64 where
  "BASELINE_MIN_SAMPLES = 10"

definition baseline_of :: "'f f64 \<Rightarrow> 'f MeasurementState \<Rightarrow> 'f \<Rightarrow> 'f" where
  "baseline_of F st otherwise =
     (if 0 < baseline_delay_count st
      then f_div F (baseline_delay_sum st) (f_of_u64 F (baseline_delay_count st)) else otherwise)"

definition update_baseline :: "'f f64 \<Rightarrow> 'f \<Rightarrow> 'f MeasurementState \<Rightarrow> 'f MeasurementState option" where
  "update_baseline F delay st =
     (let baseline = baseline_of F st delay;
          deviation = f_abs F (f_sub F delay baseline);
          threshold = f_mul F (f_abs F baseline) (f_nat F 3)
      in if baseline_delay_count st < BASELINE_MIN_SAMPLES \<or>
            f_less F deviation (f_max F threshold (f_nat F 100))
         then do {
           n \<leftarrow> add_checked (baseline_delay_count st) 1;
           Some (st\<lparr>baseline_delay_sum := f_add F (baseline_delay_sum st) delay, baseline_delay_count := n\<rparr>)
         }
         else Some st)"

text \<open>The loop that counts recent probes and reorders in \<open>u32\<close> counters.\<close>

fun feedback_counts :: "u64 \<Rightarrow> u64 \<Rightarrow> u32 \<Rightarrow> u32 \<Rightarrow> ReceivedMeasurementProbe list \<Rightarrow> (u32 \<times> u32) option" where
  "feedback_counts cutoff last_seq n r [] = Some (n, r)"
| "feedback_counts cutoff last_seq n r (p # ps) =
     (if cutoff \<le> rm_received_at_ms p
      then do {
        n' \<leftarrow> add_checked n 1;
        r' \<leftarrow> (if rm_seq p < last_seq then add_checked r 1 else Some r);
        feedback_counts cutoff (max last_seq (rm_seq p)) n' r' ps
      }
      else feedback_counts cutoff last_seq n r ps)"

definition handle_measurement_probe_packet ::
  "'f f64 \<Rightarrow> (bytes \<Rightarrow> MeasurementProbePacket option) \<Rightarrow> u64 \<Rightarrow> bytes \<Rightarrow> 'f MeasuredSession \<Rightarrow>
   'f MeasuredSession option" where
  "handle_measurement_probe_packet F parse_measurement now_ms msg c =
     (case parse_measurement msg of
        None \<Rightarrow> Some c
      | Some probe \<Rightarrow>
          if mp_conn_id probe \<noteq> cs_conn_id c then Some c
          else do {
            d \<leftarrow> i64_diff now_ms (mp_sent_at_ms probe);
            let st = ms_state c;
            if \<not> probe_streams_active st then Some c
            else do {
              let st = st\<lparr>received_measurement_probes := received_measurement_probes st @
                [\<lparr>rm_seq = mp_seq probe, rm_sent_at_ms = mp_sent_at_ms probe,
                  rm_received_at_ms = now_ms, rm_feedback = mp_feedback probe\<rparr>]\<rparr>;
              st \<leftarrow> update_baseline F (f_of_i64 F d) st;
              let kept = prune rm_received_at_ms (saturating_sub now_ms PROBE_STATS_WINDOW_MS)
                (received_measurement_probes st);
              (n, r) \<leftarrow> feedback_counts (saturating_sub now_ms PROBE_FEEDBACK_WINDOW_MS) 0 0 0 kept;
              Some (c\<lparr>ms_state := st\<lparr>received_measurement_probes := kept,
                last_feedback := (last_feedback st)
                  \<lparr>highest_seq := max (highest_seq (last_feedback st)) (mp_seq probe),
                   highest_seq_received_at_ms := now_ms, recent_count := n,
                   recent_reorders := r\<rparr>\<rparr>\<rparr>)
            }
          })"

text \<open>\<open>sort_by\<close> is a stable sort.\<close>

fun f_insert :: "'f f64 \<Rightarrow> 'f \<Rightarrow> 'f list \<Rightarrow> 'f list" where
  "f_insert F x [] = [x]"
| "f_insert F x (y # ys) = (if f_less F x y then x # y # ys else y # f_insert F x ys)"

definition f_sort :: "'f f64 \<Rightarrow> 'f list \<Rightarrow> 'f list" where
  "f_sort F = foldl (\<lambda>ys x. f_insert F x ys) []"

definition percentiles :: "'f list \<Rightarrow> 'f list option" where
  "percentiles sorted_values =
     (let n = length sorted_values
      in do {
        p50 \<leftarrow> idx sorted_values (n div 2);
        p99 \<leftarrow> idx sorted_values (min (n * 99 div 100) (n - 1));
        Some [p50, p99, hd sorted_values, last sorted_values]
      })"

fun jitters_of :: "'f f64 \<Rightarrow> 'f list \<Rightarrow> 'f list" where
  "jitters_of F (a # b # ds) = f_abs F (f_sub F b a) # jitters_of F (b # ds)"
| "jitters_of F _ = []"

definition calculate_probe_stream_stats ::
  "'f f64 \<Rightarrow> u64 \<Rightarrow> 'f MeasurementState \<Rightarrow> 'f DirectionStats option" where
  "calculate_probe_stream_stats F now_ms st =
     (let cutoff = saturating_sub now_ms PROBE_FEEDBACK_WINDOW_MS;
          recent = filter (\<lambda>p. cutoff \<le> rm_received_at_ms p) (received_measurement_probes st)
      in if recent = [] then Some (default_stats F)
         else do {
           let baseline = baseline_of F st (f_nat F 0);
           delays \<leftarrow> delays_of F (map (\<lambda>p. (rm_seq p, rm_sent_at_ms p, rm_received_at_ms p)) recent);
           deviation \<leftarrow> percentiles (f_sort F (map (\<lambda>d. f_sub F d baseline) delays));
           let jitters = f_sort F (jitters_of F delays);
           jitter \<leftarrow> (if jitters = [] then Some (replicate 4 (f_nat F 0)) else percentiles jitters);
           let seqs = map rm_seq recent;
           expected \<leftarrow> expected_count seqs;
           Some \<lparr>delay_deviation_ms = deviation, rtt_ms = replicate 4 (f_nat F 0), jitter_ms = jitter,
             loss_rate = (if f_less F (f_nat F 0) (f_of_u64 F expected)
                          then loss_percent F expected (length recent) else f_nat F 0),
             reorder_rate = reorder_percent F seqs, probe_count = of_nat (length recent),
             baseline_delay_ms = baseline\<rparr>
         })"

definition start_probe_stats_reporter ::
  "'f f64 \<Rightarrow> nat \<Rightarrow> u64 \<Rightarrow> u64 \<Rightarrow> 'f MeasuredSession \<Rightarrow> (bool \<times> 'f MeasuredSession \<times> 'f out list) option" where
  "start_probe_stats_reporter F now stats_ms now_ms c =
     (let st = ms_state c; stopped = c\<lparr>ms_state := st\<lparr>probe_streams_active := False\<rparr>\<rparr>
      in if \<not> probe_streams_active st then Some (False, c, [])
         else if dc_control (ms_data_channels c) \<noteq> Some Opened then Some (False, stopped, [])
         else if measuring_time_over now st then Some (False, stopped, [])
         else do {
           c2s \<leftarrow> calculate_probe_stream_stats F stats_ms st;
           let survey = ms_survey_session_id c;
           let s2c = (case client_reported_s2c_stats st of Some x \<Rightarrow> x | None \<Rightarrow> default_stats F);
           Some (True, c,
             (if ms_metrics_recorder c \<and> survey \<noteq> []
              then DbRecordStats survey (cs_conn_id c) now_ms c2s s2c #
                   (if ms_session_manager c then [DbUpdateTimestamp survey] else [])
              else []) @
             [OutControl (ProbeStats \<lparr>sm_conn_id = cs_conn_id c, sm_survey_session_id = survey,
                ps_timestamp_ms = now_ms, ps_c2s_stats = c2s, ps_s2c_stats = s2c\<rparr>)])
         })"

subsection \<open>Traceroute rounds\<close>

definition format_traceroute_message :: "'f f64 \<Rightarrow> u8 \<Rightarrow> string option \<Rightarrow> 'f \<Rightarrow> string" where
  "format_traceroute_message F hop router_ip rtt =
     (case router_ip of
        Some ip \<Rightarrow> ''Hop '' @ dec (unat hop) @ '' via '' @ ip @ '' ('' @ f_fixed2 F rtt @ ''ms)''
      | None \<Rightarrow> ''Hop '' @ dec (unat hop) @ '' received ('' @ f_fixed2 F rtt @ ''ms)'')"

definition rtt_of :: "'f f64 \<Rightarrow> TrackedPacketEvent \<Rightarrow> 'f" where
  "rtt_of F ev = f_mul F (f_secs F (ev_icmp_received_at ev - ev_sent_at ev)) (f_nat F 1000)"

definition trace_hop :: "'f f64 \<Rightarrow> string \<Rightarrow> TrackedPacketEvent \<Rightarrow> 'f out option" where
  "trace_hop F survey ev =
     do {
       hop \<leftarrow> ttl (ev_send_options ev);
       Some (OutControl (TraceHop
         \<lparr>sm_conn_id = ev_conn_id ev, sm_survey_session_id = survey, th_hop = hop,
          th_ip_address = ev_router_ip ev, th_rtt_ms = rtt_of F ev,
          th_message = format_traceroute_message F hop (ev_router_ip ev) (rtt_of F ev),
          th_original_src_port = ev_original_src_port ev,
          th_original_dest_addr = ev_original_dest_addr ev\<rparr>))
     }"

definition drain_traceroute_events ::
  "'f f64 \<Rightarrow> string \<Rightarrow> string \<Rightarrow> 's PacketTracker \<Rightarrow> (int \<times> 's PacketTracker \<times> 'f out list) option" where
  "drain_traceroute_events F conn_id survey t =
     (let (events, t) = drain_events_for_conn_id conn_id t
      in do { outs \<leftarrow> map_checked (trace_hop F survey) events; Some (int (length events), t, outs) })"

definition extract_mtu_from_icmp :: "bytes \<Rightarrow> u16 option option" where
  "extract_mtu_from_icmp packet =
     (if length packet < 28 then Some None
      else do {
        icmp_type \<leftarrow> idx packet 20;
        icmp_code \<leftarrow> idx packet 21;
        if icmp_type \<noteq> 3 \<or> icmp_code \<noteq> 4 then Some None
        else do {
          a \<leftarrow> idx packet 26;
          b \<leftarrow> idx packet 27;
          Some (if 0 < u16_be a b then Some (u16_be a b) else None)
        }
      })"

definition mtu_hop :: "'f f64 \<Rightarrow> string \<Rightarrow> TrackedPacketEvent \<Rightarrow> 'f out option" where
  "mtu_hop F survey ev =
     do {
       hop \<leftarrow> ttl (ev_send_options ev);
       mtu \<leftarrow> extract_mtu_from_icmp (ev_icmp_packet ev);
       let n = ev_tracked_ip_length ev;
       if 2 ^ 32 \<le> n then None
       else Some (OutControl (MtuHop
         \<lparr>sm_conn_id = ev_conn_id ev, sm_survey_session_id = survey, mh_hop = hop,
          mh_ip_address = ev_router_ip ev, mh_rtt_ms = rtt_of F ev, mh_mtu = mtu,
          mh_message = ''MTU probe hop '' @ dec (unat hop) @ '' (size '' @ dec n @ '')'',
          mh_packet_size = of_nat n\<rparr>))
     }"

definition drain_mtu_events ::
  "'f f64 \<Rightarrow> string \<Rightarrow> string \<Rightarrow> 's PacketTracker \<Rightarrow> ('s PacketTracker \<times> 'f out list) option" where
  "drain_mtu_events F conn_id survey t =
     (let (events, t) = drain_events_for_conn_id conn_id t
      in do { outs \<leftarrow> map_checked (mtu_hop F survey) events; Some (t, outs) })"

text \<open>The bookkeeping that both rounds do for a test probe: its number and the updated state.\<close>

definition track_testprobe :: "u64 \<Rightarrow> 'f MeasurementState \<Rightarrow> (u64 \<times> 'f MeasurementState) option" where
  "track_testprobe now_ms st =
     do {
       let seq = testprobe_seq st;
       next_seq \<leftarrow> add_checked seq 1;
       let p = \<lparr>sp_seq = seq, sp_sent_at_ms = now_ms\<rparr>;
       cutoff \<leftarrow> sub_checked now_ms 60000;
       let (q, m) = prune_sent cutoff (sent_testprobes st @ [p]) ((sent_testprobes_map st)(seq \<mapsto> p));
       Some (seq, st\<lparr>testprobe_seq := next_seq, sent_testprobes := q, sent_testprobes_map := m\<rparr>)
     }"

definition testprobe_packet :: "bool \<Rightarrow> u8 \<Rightarrow> u64 \<Rightarrow> u64 \<Rightarrow> string \<Rightarrow> TestProbePacket" where
  "testprobe_packet bypass hop seq now_ms conn_id =
     \<lparr>tpp_test_seq = seq, tpp_timestamp_ms = now_ms, tpp_direction = ServerToClient,
      tpp_send_options = Some \<lparr>ttl = Some hop, df_bit = Some True, tos = None, flow_label = None,
        track_for_ms = 5000, bypass_dtls = bypass, bypass_sctp_fragmentation = bypass\<rparr>,
      tpp_conn_id = conn_id\<rparr>"

definition testprobe_options :: "bool \<Rightarrow> u8 \<Rightarrow> string \<Rightarrow> UdpSendOptions" where
  "testprobe_options bypass hop conn_id =
     \<lparr>uso_ttl = Some hop, uso_tos = None, uso_df_bit = Some True, uso_conn_id = conn_id,
      uso_bypass_dtls = bypass, uso_bypass_sctp_fragmentation = bypass\<rparr>"

text \<open>
  A round is a task whose program points are its await points: before a send, asleep after a
  send, before a drain, asleep after a drain. A turn goes from one to the next; \<open>None\<close> as the
  next point is the end. The survey identifier is read once, at the start.
\<close>

datatype trace_pc =
    TraceStart
  | TraceSend string nat int
  | TraceSlept string nat int
  | TraceDrain string nat int
  | TraceWait string nat int

definition run_single_traceroute_round ::
  "'f f64 \<Rightarrow> (TestProbePacket \<Rightarrow> bytes) \<Rightarrow> u64 \<Rightarrow> bool \<Rightarrow> trace_pc \<Rightarrow> 'f MeasuredSession \<times> 's PacketTracker \<Rightarrow>
   (trace_pc option \<times> ('f MeasuredSession \<times> 's PacketTracker) \<times> 'f out list) option" where
  "run_single_traceroute_round F enc_testprobe now_ms send_ok pc = (\<lambda>(c, t).
     case pc of
       TraceStart \<Rightarrow>
         if dc_control (ms_data_channels c) \<noteq> Some Opened then Some (None, (c, t), [])
         else Some (Some (TraceSend (ms_survey_session_id c) 1 0), (c, t), [])
     | TraceSend survey hop n \<Rightarrow>
         if 16 < hop then Some (Some (TraceDrain survey 4 n), (c, t), [])
         else if dc_testprobe (ms_data_channels c) \<noteq> Some Opened
         then Some (Some (TraceSend survey (hop + 1) n), (c, t), [])
         else do {
           (seq, st) \<leftarrow> track_testprobe now_ms (ms_state c);
           let c = c\<lparr>ms_state := st\<rparr>;
           if send_ok
           then Some (Some (TraceSlept survey hop (n + 1)), (c, t),
             [OutTestProbe (enc_testprobe (testprobe_packet False (of_nat hop) seq now_ms (cs_conn_id c)))
                (testprobe_options False (of_nat hop) (cs_conn_id c))])
           else Some (Some (TraceSend survey (hop + 1) n), (c, t), [])
         }
     | TraceSlept survey hop n \<Rightarrow>
         do {
           (k, t, outs) \<leftarrow> drain_traceroute_events F (cs_conn_id c) survey t;
           Some (Some (TraceSend survey (hop + 1) (n - k)), (c, t), outs)
         }
     | TraceDrain survey rounds n \<Rightarrow>
         do {
           (k, t, outs) \<leftarrow> drain_traceroute_events F (cs_conn_id c) survey t;
           Some (Some (TraceWait survey rounds (n - k)), (c, t), outs)
         }
     | TraceWait survey rounds n \<Rightarrow>
         if path_ttl (ms_state c) \<noteq> None \<or> rounds = 0 \<or> n = 0
         then Some (None, (c, t), [OutControl (TracerouteCompleted
           \<lparr>sm_conn_id = cs_conn_id c, sm_survey_session_id = survey\<rparr>)])
         else Some (Some (TraceDrain survey (rounds - 1) n), (c, t), []))"

datatype mtu_pc =
    MtuStart
  | MtuSend string int
  | MtuSlept string int
  | MtuDrain string nat
  | MtuWait string nat

definition mtu_target_len :: "u32 \<Rightarrow> string option \<Rightarrow> nat option" where
  "mtu_target_len packet_size version =
     (case version of
        None \<Rightarrow> Some (unat packet_size)
      | Some v \<Rightarrow> usub_checked (unat packet_size) (if v = ''ipv4'' then 20 + 8 + 28 else 40 + 8 + 28))"

definition pad_to :: "nat \<Rightarrow> bytes \<Rightarrow> bytes" where
  "pad_to n json = (if length json < n then json @ replicate (n - length json) 0x23 else json)"

definition run_mtu_traceroute_round ::
  "'f f64 \<Rightarrow> (TestProbePacket \<Rightarrow> bytes) \<Rightarrow> u32 \<Rightarrow> i32 \<Rightarrow> nat \<Rightarrow> u64 \<Rightarrow> bool \<Rightarrow> mtu_pc \<Rightarrow>
   'f MeasuredSession \<times> 's PacketTracker \<Rightarrow>
   (mtu_pc option \<times> ('f MeasuredSession \<times> 's PacketTracker) \<times> 'f out list) option" where
  "run_mtu_traceroute_round F enc_testprobe packet_size max_ttl collect_timeout_ms now_ms send_ok pc = (\<lambda>(c, t).
     case pc of
       MtuStart \<Rightarrow>
         if dc_control (ms_data_channels c) \<noteq> Some Opened then Some (None, (c, t), [])
         else Some (Some (MtuSend (ms_survey_session_id c) 1), (c, t), [])
     | MtuSend survey hop \<Rightarrow>
         if sint max_ttl \<le> hop then Some (Some (MtuDrain survey (collect_timeout_ms div 500)), (c, t), [])
         else if dc_testprobe (ms_data_channels c) \<noteq> Some Opened
         then Some (Some (MtuSend survey (hop + 1)), (c, t), [])
         else do {
           (seq, st) \<leftarrow> track_testprobe now_ms (ms_state c);
           let c = c\<lparr>ms_state := st\<rparr>;
           let json = enc_testprobe (testprobe_packet True (of_int hop) seq now_ms (cs_conn_id c));
           target_len \<leftarrow> mtu_target_len packet_size (cs_ip_version c);
           if send_ok
           then Some (Some (MtuSlept survey hop), (c, t),
             [OutTestProbe (pad_to target_len json) (testprobe_options True (of_int hop) (cs_conn_id c))])
           else Some (Some (MtuSend survey (hop + 1)), (c, t), [])
         }
     | MtuSlept survey hop \<Rightarrow>
         do {
           (t, outs) \<leftarrow> drain_mtu_events F (cs_conn_id c) survey t;
           Some (Some (MtuSend survey (hop + 1)), (c, t), outs)
         }
     | MtuDrain survey rounds \<Rightarrow>
         do {
           (t, outs) \<leftarrow> drain_mtu_events F (cs_conn_id c) survey t;
           if rounds = 0
           then Some (None, (c, t), outs @ [OutControl (MtuTracerouteCompleted
             \<lparr>sm_conn_id = cs_conn_id c, sm_survey_session_id = survey, mc_packet_size = packet_size\<rparr>)])
           else Some (Some (MtuWait survey (rounds - 1)), (c, t), outs)
         }
     | MtuWait survey rounds \<Rightarrow> Some (Some (MtuDrain survey rounds), (c, t), []))"

end
