(* ===== verification/Traceroute_Rounds.thy ===== *)
theory Traceroute_Rounds
  imports Measurements
begin

text \<open>
  The two traceroute rounds of \<open>server/src/measurements.rs\<close> as tasks among others. Between two
  turns of a round anything may happen to the session and to the tracker, so a round is run
  against a list of worlds, one for each turn, and the theorems hold for every list.
\<close>

subsection \<open>Rounds among other tasks\<close>

fun task_log ::
  "('e \<Rightarrow> 'pc \<Rightarrow> 'w \<Rightarrow> ('pc option \<times> 'w \<times> 'o list) option) \<Rightarrow> ('e \<times> 'w) list \<Rightarrow> 'pc \<Rightarrow>
   ('pc option \<times> 'o list) option" where
  "task_log turn [] pc = Some (Some pc, [])"
| "task_log turn ((e, w) # xs) pc =
     do {
       (next_pc, _, outs) \<leftarrow> turn e pc w;
       (case next_pc of
          None \<Rightarrow> Some (None, outs)
        | Some pc' \<Rightarrow> do { (r, outs2) \<leftarrow> task_log turn xs pc'; Some (r, outs @ outs2) })
     }"

lemma task_log_end:
  "turn e pc w = Some (None, w', outs) \<Longrightarrow> task_log turn ((e, w) # xs) pc = Some (None, outs)"
  by simp

lemma task_log_step:
  "turn e pc w = Some (Some pc', w', outs) \<Longrightarrow> task_log turn xs pc' = Some (r, outs2) \<Longrightarrow>
   task_log turn ((e, w) # xs) pc = Some (r, outs @ outs2)"
  by simp

text \<open>
  What a round needs of a world: the clock is past the first minute of the epoch, probe numbers
  are not used up, the connection is the round's own, and the queued events come from probes
  with a TTL and a length of a datagram.
\<close>

type_synonym ('f, 's) world = "(u64 \<times> bool) \<times> 'f MeasuredSession \<times> 's PacketTracker"

definition round_ready :: "string \<Rightarrow> ('f, 's) world \<Rightarrow> bool" where
  "round_ready conn = (\<lambda>((now_ms, send_ok), c, t).
     60000 \<le> now_ms \<and> testprobe_seq (ms_state c) \<noteq> - 1 \<and> cs_conn_id c = conn \<and>
     (\<forall>ev \<in> set (event_queue t). ttl (ev_send_options ev) \<noteq> None \<and> ev_tracked_ip_length ev < 2 ^ 32))"

definition probe_goes_out :: "('f, 's) world \<Rightarrow> bool" where
  "probe_goes_out = (\<lambda>((now_ms, send_ok), c, t). send_ok \<and> dc_testprobe (ms_data_channels c) = Some Opened)"

fun sent_ttl :: "'f out \<Rightarrow> nat option" where
  "sent_ttl (OutTestProbe _ opts) = map_option unat (uso_ttl opts)"
| "sent_ttl _ = None"

definition ttls :: "'f out list \<Rightarrow> nat list" where
  "ttls outs = List.map_filter sent_ttl outs"

fun is_hop :: "'f out \<Rightarrow> bool" where
  "is_hop (OutControl (TraceHop _)) = True"
| "is_hop (OutControl (MtuHop _)) = True"
| "is_hop _ = False"

fun is_completion :: "'f out \<Rightarrow> bool" where
  "is_completion (OutControl (TracerouteCompleted _)) = True"
| "is_completion (OutControl (MtuTracerouteCompleted _)) = True"
| "is_completion _ = False"

lemma ttls_simps [simp]:
  "ttls [] = []" "ttls (xs @ ys) = ttls xs @ ttls ys"
  "ttls (x # xs) = (case sent_ttl x of None \<Rightarrow> ttls xs | Some n \<Rightarrow> n # ttls xs)"
  by (simp_all add: ttls_def List.map_filter_def split: option.splits)

lemma ttls_hops: "list_all is_hop outs \<Longrightarrow> ttls outs = []"
proof (induction outs)
  case (Cons x outs)
  then show ?case by (cases x rule: is_hop.cases) simp_all
qed simp

lemma hops_not_completion: "list_all is_hop outs \<Longrightarrow> \<not> list_ex is_completion outs"
proof (induction outs)
  case (Cons x outs)
  then show ?case by (cases x rule: is_hop.cases) simp_all
qed simp

lemma map_checked_all:
  assumes "\<And>x. x \<in> set xs \<Longrightarrow> \<exists>y. f x = Some y \<and> P y"
  shows "\<exists>ys. map_checked f xs = Some ys \<and> list_all P ys"
  using assms
proof (induction xs)
  case (Cons x xs)
  obtain y ys where "f x = Some y" "P y" "map_checked f xs = Some ys" "list_all P ys"
    using Cons.IH Cons.prems by (metis list.set_intros)
  then show ?case by simp
qed simp

lemma drain_ready:
  assumes "\<forall>ev \<in> set (event_queue t). ttl (ev_send_options ev) \<noteq> None \<and> ev_tracked_ip_length ev < 2 ^ 32"
  shows "\<exists>k t' outs. drain_traceroute_events F conn survey t = Some (k, t', outs) \<and> list_all is_hop outs"
    and "\<exists>t' outs. drain_mtu_events F conn survey t = Some (t', outs) \<and> list_all is_hop outs"
proof -
  have sub: "set (queued_for conn (event_queue t)) \<subseteq> set (event_queue t)" by (auto simp: queued_for_def)
  have "\<exists>out. trace_hop F survey ev = Some out \<and> is_hop out" if "ev \<in> set (queued_for conn (event_queue t))" for ev
    using assms sub that by (force simp: trace_hop_def)
  from map_checked_all [of "queued_for conn (event_queue t)" "trace_hop F survey" is_hop, OF this]
  show "\<exists>k t' outs. drain_traceroute_events F conn survey t = Some (k, t', outs) \<and> list_all is_hop outs"
    by (auto simp: drain_traceroute_events_def drain_events_for_conn_id_eq)
  have mtu: "\<exists>m. extract_mtu_from_icmp p = Some m" for p
    by (simp add: extract_mtu_from_icmp_def)
  have "\<exists>out. mtu_hop F survey ev = Some out \<and> is_hop out" if ev: "ev \<in> set (queued_for conn (event_queue t))" for ev
  proof -
    obtain hop where "ttl (ev_send_options ev) = Some hop" using assms sub ev by blast
    moreover have "ev_tracked_ip_length ev < 2 ^ 32" using assms sub ev by blast
    moreover obtain m where "extract_mtu_from_icmp (ev_icmp_packet ev) = Some m" using mtu by blast
    ultimately show ?thesis by (simp add: mtu_hop_def Let_def)
  qed
  from map_checked_all [of "queued_for conn (event_queue t)" "mtu_hop F survey" is_hop, OF this]
  show "\<exists>t' outs. drain_mtu_events F conn survey t = Some (t', outs) \<and> list_all is_hop outs"
    by (auto simp: drain_mtu_events_def drain_events_for_conn_id_eq)
qed

lemma track_ready:
  assumes "60000 \<le> now_ms" and "testprobe_seq st \<noteq> - 1"
  shows "\<exists>seq st'. track_testprobe now_ms st = Some (seq, st')"
proof -
  have "add_checked (testprobe_seq st) 1 \<noteq> None"
    using assms(2) by (simp only: add_checked_one_None_iff) simp
  with assms(1) show ?thesis
    by (auto simp: track_testprobe_def sub_checked_def Let_def split: prod.splits)
qed

subsection \<open>The traceroute round\<close>

abbreviation trace_turn ::
  "'f f64 \<Rightarrow> (TestProbePacket \<Rightarrow> bytes) \<Rightarrow> u64 \<times> bool \<Rightarrow> trace_pc \<Rightarrow> 'f MeasuredSession \<times> 's PacketTracker \<Rightarrow>
   (trace_pc option \<times> ('f MeasuredSession \<times> 's PacketTracker) \<times> 'f out list) option" where
  "trace_turn F enc e \<equiv> run_single_traceroute_round F enc (fst e) (snd e)"

fun trace_rank :: "trace_pc \<Rightarrow> nat" where
  "trace_rank TraceStart = 44"
| "trace_rank (TraceSend _ hop _) = 2 * (17 - hop) + 11"
| "trace_rank (TraceSlept _ hop _) = 2 * (17 - hop) + 10"
| "trace_rank (TraceDrain _ rounds _) = 2 * rounds + 2"
| "trace_rank (TraceWait _ rounds _) = 2 * rounds + 1"

fun trace_survey :: "trace_pc \<Rightarrow> string \<Rightarrow> bool" where
  "trace_survey TraceStart sv = False"
| "trace_survey (TraceSend s _ _) sv = (s = sv)"
| "trace_survey (TraceSlept s _ _) sv = (s = sv)"
| "trace_survey (TraceDrain s _ _) sv = (s = sv)"
| "trace_survey (TraceWait s _ _) sv = (s = sv)"

text \<open>The first TTL that is still to be tried.\<close>

fun next_hop :: "trace_pc \<Rightarrow> nat" where
  "next_hop TraceStart = 1"
| "next_hop (TraceSend _ hop _) = min hop 17"
| "next_hop (TraceSlept _ hop _) = min (hop + 1) 17"
| "next_hop _ = 17"

fun hop_ok :: "trace_pc \<Rightarrow> bool" where
  "hop_ok (TraceSend _ hop _) = (1 \<le> hop \<and> hop \<le> 17)"
| "hop_ok (TraceSlept _ hop _) = (1 \<le> hop \<and> hop \<le> 16)"
| "hop_ok _ = True"

definition completed :: "string \<Rightarrow> string \<Rightarrow> 'f out" where
  "completed conn sv = OutControl (TracerouteCompleted \<lparr>sm_conn_id = conn, sm_survey_session_id = sv\<rparr>)"

definition good_body :: "nat \<Rightarrow> bool \<Rightarrow> 'f out list \<Rightarrow> bool" where
  "good_body hop all_out body \<longleftrightarrow>
     \<not> list_ex is_completion body \<and> sorted_wrt (<) (ttls body) \<and> set (ttls body) \<subseteq> {hop..16} \<and>
     (all_out \<longrightarrow> ttls body = [hop..<17])"

lemma good_body_hops:
  "list_all is_hop outs \<Longrightarrow> good_body hop a body \<Longrightarrow> good_body hop a (outs @ body)"
  using hops_not_completion [of outs] by (simp add: good_body_def ttls_hops)

lemma good_body_skip:
  "good_body (Suc hop) a body \<Longrightarrow> \<not> a \<Longrightarrow> good_body hop a body"
  by (auto simp: good_body_def)

lemma good_body_probe:
  assumes "good_body (Suc hop) a body" and "1 \<le> hop" and "hop \<le> 16"
  shows "good_body hop a (OutTestProbe json (testprobe_options b (of_nat hop) conn) # body)"
proof -
  have "unat (of_nat hop :: u8) = hop" using assms(3) by (intro unat_of_nat_small) simp
  then show ?thesis
    using assms by (auto simp: good_body_def testprobe_options_def upt_rec [of hop 17])
qed

text \<open>One turn: it does not panic, moves on and sends what the next program point allows.\<close>

lemma trace_turn_ready:
  assumes "round_ready conn ((now, ok), c, t)" and "trace_survey pc sv" and "hop_ok pc"
  shows "(\<exists>w. trace_turn F enc (now, ok) pc (c, t) = Some (None, w, [completed conn sv]) \<and> next_hop pc = 17) \<or>
    (\<exists>pc' w outs. trace_turn F enc (now, ok) pc (c, t) = Some (Some pc', w, outs) \<and>
      trace_survey pc' sv \<and> hop_ok pc' \<and> trace_rank pc' < trace_rank pc \<and>
      (\<forall>a body. (a \<longrightarrow> probe_goes_out ((now, ok), c, t)) \<longrightarrow> good_body (next_hop pc') a body \<longrightarrow>
         good_body (next_hop pc) a (outs @ body)))"
proof -
  have now: "60000 \<le> now" and seq: "testprobe_seq (ms_state c) \<noteq> - 1" and conn: "cs_conn_id c = conn"
    and evs: "\<forall>ev \<in> set (event_queue t). ttl (ev_send_options ev) \<noteq> None \<and> ev_tracked_ip_length ev < 2 ^ 32"
    using assms(1) by (auto simp: round_ready_def)
  obtain k t' outs where dr: "drain_traceroute_events F conn sv t = Some (k, t', outs)" "list_all is_hop outs"
    using drain_ready(1) [OF evs] by blast
  obtain q st' where tr: "track_testprobe now (ms_state c) = Some (q, st')"
    using track_ready [OF now seq] by blast
  show ?thesis
  proof (cases pc)
    case (TraceSend s hop n)
    consider "16 < hop" | "hop \<le> 16" "dc_testprobe (ms_data_channels c) \<noteq> Some Opened"
      | "hop \<le> 16" "dc_testprobe (ms_data_channels c) = Some Opened" "ok"
      | "hop \<le> 16" "dc_testprobe (ms_data_channels c) = Some Opened" "\<not> ok" by fastforce
    then show ?thesis
    proof cases
      case 1
      then have "hop = 17" using TraceSend assms(3) by simp
      then show ?thesis using TraceSend assms(2,3)
        by (auto simp: run_single_traceroute_round_def)
    next
      case 2
      then show ?thesis using TraceSend assms(2,3)
        by (auto simp: run_single_traceroute_round_def probe_goes_out_def intro: good_body_skip)
    next
      case 3
      then show ?thesis using TraceSend assms(2,3) tr
        by (auto simp: run_single_traceroute_round_def conn intro: good_body_probe)
    next
      case 4
      then show ?thesis using TraceSend assms(2,3) tr
        by (auto simp: run_single_traceroute_round_def probe_goes_out_def intro: good_body_skip)
    qed
  next
    case (TraceSlept s hop n)
    then show ?thesis using assms(2,3) dr
      by (auto simp: run_single_traceroute_round_def conn intro: good_body_hops)
  next
    case (TraceDrain s rounds n)
    then show ?thesis using assms(2,3) dr
      by (auto simp: run_single_traceroute_round_def conn intro: good_body_hops)
  next
    case (TraceWait s rounds n)
    then show ?thesis using assms(2,3)
      by (cases "path_ttl (ms_state c) \<noteq> None \<or> rounds = 0 \<or> n = 0")
        (auto simp: run_single_traceroute_round_def conn completed_def)
  qed (use assms(2) in simp)
qed

lemma trace_log_shape:
  assumes "\<forall>x \<in> set xs. round_ready conn x" and "trace_survey pc sv" and "hop_ok pc" and "trace_rank pc \<le> length xs"
  shows "\<exists>body. task_log (trace_turn F enc) xs pc = Some (None, body @ [completed conn sv]) \<and>
    good_body (next_hop pc) (\<forall>x \<in> set xs. probe_goes_out x) body"
  using assms
proof (induction xs arbitrary: pc)
  case Nil
  then show ?case by (cases pc) auto
next
  case (Cons x xs)
  obtain now ok c t where x: "x = ((now, ok), c, t)" by (cases x) auto
  have ready: "round_ready conn ((now, ok), c, t)" using Cons.prems(1) x by simp
  from trace_turn_ready [OF this Cons.prems(2,3), of F enc] show ?case
  proof (elim disjE exE conjE)
    fix w
    assume "trace_turn F enc (now, ok) pc (c, t) = Some (None, w, [completed conn sv])" "next_hop pc = 17"
    then show ?thesis by (intro exI [of _ "[]"]) (simp add: x good_body_def)
  next
    fix pc' w outs
    assume step: "trace_turn F enc (now, ok) pc (c, t) = Some (Some pc', w, outs)"
      and pc': "trace_survey pc' sv" "hop_ok pc'" "trace_rank pc' < trace_rank pc"
      and body: "\<forall>a body. (a \<longrightarrow> probe_goes_out ((now, ok), c, t)) \<longrightarrow> good_body (next_hop pc') a body \<longrightarrow>
         good_body (next_hop pc) a (outs @ body)"
    have "trace_rank pc' \<le> length xs" using pc'(3) Cons.prems(4) by simp
    then obtain b where b: "task_log (trace_turn F enc) xs pc' = Some (None, b @ [completed conn sv])"
        "good_body (next_hop pc') (\<forall>x \<in> set xs. probe_goes_out x) b"
      using Cons.IH [of pc'] Cons.prems(1) pc'(1,2) by auto
    have weak: "good_body h a b" if "good_body h a' b" "a \<longrightarrow> a'" for h a a'
      using that by (auto simp: good_body_def)
    have "good_body (next_hop pc) (\<forall>y \<in> set (x # xs). probe_goes_out y) (outs @ b)"
      using body weak [OF b(2), of "\<forall>y \<in> set (x # xs). probe_goes_out y"] x by simp
    moreover have "task_log (trace_turn F enc) (x # xs) pc = Some (None, (outs @ b) @ [completed conn sv])"
      using step b(1) by (simp add: x)
    ultimately show ?thesis by blast
  qed
qed

text \<open>
  C30. A traceroute round ends after at most 44 turns whatever the other tasks do in between. It
  sends one probe for each TTL at most, in the order of the TTLs from 1 to 16, and all sixteen
  when the test channel is open and sends succeed; it reports hops in between, and it announces
  its completion once, as its last message, under the survey identifier it started with.
\<close>

theorem traceroute_round_completes:
  assumes "\<forall>x \<in> set xs. round_ready conn x" and "44 \<le> length xs"
    and "dc_control (ms_data_channels (fst (snd (hd xs)))) = Some Opened"
  shows "\<exists>body. task_log (trace_turn F enc) xs TraceStart =
      Some (None, body @ [completed conn (ms_survey_session_id (fst (snd (hd xs))))]) \<and>
    \<not> list_ex is_completion body \<and> sorted_wrt (<) (ttls body) \<and> set (ttls body) \<subseteq> {1..16} \<and>
    ((\<forall>x \<in> set xs. probe_goes_out x) \<longrightarrow> ttls body = [1..<17])"
proof -
  obtain now ok c t ys where xs: "xs = ((now, ok), c, t) # ys"
    using assms(2) by (cases xs) auto
  let ?sv = "ms_survey_session_id c"
  have step: "trace_turn F enc (now, ok) TraceStart (c, t) = Some (Some (TraceSend ?sv 1 0), (c, t), [])"
    using assms(3) by (simp add: xs run_single_traceroute_round_def)
  obtain body where body: "task_log (trace_turn F enc) ys (TraceSend ?sv 1 0) = Some (None, body @ [completed conn ?sv])"
      "good_body 1 (\<forall>x \<in> set ys. probe_goes_out x) body"
    using trace_log_shape [of ys conn "TraceSend ?sv 1 0" ?sv F enc] assms(1,2) xs by auto
  then show ?thesis
    using step by (intro exI [of _ body]) (auto simp: xs good_body_def)
qed

definition sample_world :: "(unit, unit) world" where
  "sample_world = ((70000, True),
     (sample_measured unit_f64)\<lparr>ms_data_channels := \<lparr>dc_probe = Some Opened, dc_bulk = Some Opened,
        dc_control = Some Opened, dc_testprobe = Some Opened\<rparr>\<rparr>,
     new_tracker)"

theorem traceroute_round_completes_witness:
  "\<exists>body. task_log (trace_turn unit_f64 (\<lambda>_. [])) (replicate 44 sample_world) TraceStart =
     Some (None, body @ [completed ''conn-a'' []]) \<and> ttls body = [1..<17]"
proof -
  have ready: "round_ready ''conn-a'' sample_world" and out: "probe_goes_out sample_world"
    and ctl: "dc_control (ms_data_channels (fst (snd sample_world))) = Some Opened"
    and sv: "ms_survey_session_id (fst (snd sample_world)) = []"
    by (simp_all add: round_ready_def probe_goes_out_def sample_world_def sample_measured_def
        new_measurement_state_def new_tracker_def)
  have hd: "hd (replicate 44 sample_world) = sample_world" by simp
  show ?thesis
    using traceroute_round_completes [of "replicate 44 sample_world" "''conn-a''" unit_f64 "\<lambda>_. []"] ready out
    unfolding hd sv by (auto simp: ctl)
qed

subsection \<open>The MTU round\<close>

abbreviation mtu_turn ::
  "'f f64 \<Rightarrow> (TestProbePacket \<Rightarrow> bytes) \<Rightarrow> u32 \<Rightarrow> i32 \<Rightarrow> nat \<Rightarrow> u64 \<times> bool \<Rightarrow> mtu_pc \<Rightarrow>
   'f MeasuredSession \<times> 's PacketTracker \<Rightarrow>
   (mtu_pc option \<times> ('f MeasuredSession \<times> 's PacketTracker) \<times> 'f out list) option" where
  "mtu_turn F enc psize max_ttl collect e \<equiv> run_mtu_traceroute_round F enc psize max_ttl collect (fst e) (snd e)"

fun mtu_rank :: "i32 \<Rightarrow> nat \<Rightarrow> mtu_pc \<Rightarrow> nat" where
  "mtu_rank max_ttl collect MtuStart = 2 * nat (sint max_ttl - 1) + 2 * (collect div 500) + 3"
| "mtu_rank max_ttl collect (MtuSend _ hop) = 2 * nat (sint max_ttl - hop) + 2 * (collect div 500) + 2"
| "mtu_rank max_ttl collect (MtuSlept _ hop) = 2 * nat (sint max_ttl - hop) + 2 * (collect div 500) + 1"
| "mtu_rank max_ttl collect (MtuDrain _ rounds) = 2 * rounds + 1"
| "mtu_rank max_ttl collect (MtuWait _ rounds) = 2 * rounds + 2"

fun mtu_survey :: "mtu_pc \<Rightarrow> string \<Rightarrow> bool" where
  "mtu_survey MtuStart sv = False"
| "mtu_survey (MtuSend s _) sv = (s = sv)"
| "mtu_survey (MtuSlept s _) sv = (s = sv)"
| "mtu_survey (MtuDrain s _) sv = (s = sv)"
| "mtu_survey (MtuWait s _) sv = (s = sv)"

fun mtu_hop_ok :: "i32 \<Rightarrow> mtu_pc \<Rightarrow> bool" where
  "mtu_hop_ok max_ttl (MtuSlept _ hop) = (hop < sint max_ttl)"
| "mtu_hop_ok max_ttl _ = True"

definition mtu_completed :: "u32 \<Rightarrow> string \<Rightarrow> string \<Rightarrow> 'f out" where
  "mtu_completed psize conn sv = OutControl (MtuTracerouteCompleted
     \<lparr>sm_conn_id = conn, sm_survey_session_id = sv, mc_packet_size = psize\<rparr>)"

text \<open>Headers below the payload of a test probe: IP, UDP, and the SCTP header and chunk header.\<close>

definition mtu_overhead :: "string \<Rightarrow> nat" where
  "mtu_overhead version = (if version = ''ipv4'' then 20 else 40) + 8 + 28"

fun right_size :: "u32 \<Rightarrow> string \<Rightarrow> 'f out \<Rightarrow> bool" where
  "right_size psize version (OutTestProbe payload opts) =
     (mtu_overhead version + length payload = unat psize \<and> uso_df_bit opts = Some True \<and>
      uso_bypass_dtls opts \<and> uso_bypass_sctp_fragmentation opts)"
| "right_size psize version _ = True"

definition mtu_body :: "u32 \<Rightarrow> string \<Rightarrow> 'f out list \<Rightarrow> bool" where
  "mtu_body psize version body \<longleftrightarrow> \<not> list_ex is_completion body \<and> list_all (right_size psize version) body"

lemma mtu_body_hops: "list_all is_hop outs \<Longrightarrow> mtu_body psize v outs"
  unfolding mtu_body_def
proof (intro conjI hops_not_completion)
  assume "list_all is_hop outs"
  then show "list_all (right_size psize v) outs"
  proof (induction outs)
    case (Cons x outs)
    then show ?case by (cases x rule: is_hop.cases) simp_all
  qed simp
qed

lemma mtu_body_append: "mtu_body psize v (xs @ ys) \<longleftrightarrow> mtu_body psize v xs \<and> mtu_body psize v ys"
  by (auto simp: mtu_body_def)

lemma mtu_turn_ready:
  assumes "round_ready conn ((now, ok), c, t)" and "mtu_survey pc sv" and "mtu_hop_ok max_ttl pc"
    and "cs_ip_version c = Some v" and "mtu_overhead v \<le> unat psize"
    and "\<forall>p. length (enc p) \<le> unat psize - mtu_overhead v"
  shows "(\<exists>w outs. mtu_turn F enc psize max_ttl collect (now, ok) pc (c, t) = Some (None, w, outs @ [mtu_completed psize conn sv]) \<and>
      mtu_body psize v outs) \<or>
    (\<exists>pc' w outs. mtu_turn F enc psize max_ttl collect (now, ok) pc (c, t) = Some (Some pc', w, outs) \<and>
      mtu_survey pc' sv \<and> mtu_hop_ok max_ttl pc' \<and> mtu_rank max_ttl collect pc' < mtu_rank max_ttl collect pc \<and>
      mtu_body psize v outs)"
proof -
  have now: "60000 \<le> now" and seq: "testprobe_seq (ms_state c) \<noteq> - 1" and conn: "cs_conn_id c = conn"
    and evs: "\<forall>ev \<in> set (event_queue t). ttl (ev_send_options ev) \<noteq> None \<and> ev_tracked_ip_length ev < 2 ^ 32"
    using assms(1) by (auto simp: round_ready_def)
  obtain t' outs where dr: "drain_mtu_events F conn sv t = Some (t', outs)" "mtu_body psize v outs"
    using drain_ready(2) [OF evs] mtu_body_hops by blast
  obtain q st' where tr: "track_testprobe now (ms_state c) = Some (q, st')"
    using track_ready [OF now seq] by blast
  have target: "mtu_target_len psize (cs_ip_version c) = Some (unat psize - mtu_overhead v)"
    using assms(4,5) by (auto simp: mtu_target_len_def mtu_overhead_def usub_checked_def split: if_splits)
  have pad: "mtu_overhead v + length (pad_to (unat psize - mtu_overhead v) (enc p)) = unat psize" for p
    using assms(5) assms(6) [rule_format, of p] by (simp add: pad_to_def)
  show ?thesis
  proof (cases pc)
    case (MtuSend s hop)
    consider "sint max_ttl \<le> hop" | "hop < sint max_ttl" "dc_testprobe (ms_data_channels c) \<noteq> Some Opened"
      | "hop < sint max_ttl" "dc_testprobe (ms_data_channels c) = Some Opened" "ok"
      | "hop < sint max_ttl" "dc_testprobe (ms_data_channels c) = Some Opened" "\<not> ok" by fastforce
    then show ?thesis
    proof cases
      case 3
      then show ?thesis using MtuSend assms(2,3) tr target pad
        by (simp add: run_mtu_traceroute_round_def conn mtu_body_def testprobe_options_def Let_def)
    qed (use MtuSend assms(2,3) tr target in \<open>simp add: run_mtu_traceroute_round_def mtu_body_def Let_def\<close>)+
  next
    case (MtuSlept s hop)
    then show ?thesis using assms(2,3) dr by (simp add: run_mtu_traceroute_round_def conn)
  next
    case (MtuDrain s rounds)
    then show ?thesis using assms(2,3) dr
      by (cases "rounds = 0") (auto simp: run_mtu_traceroute_round_def conn mtu_completed_def)
  next
    case (MtuWait s rounds)
    then show ?thesis using assms(2,3) by (simp add: run_mtu_traceroute_round_def mtu_body_def)
  qed (use assms(2) in simp)
qed

lemma mtu_log_shape:
  assumes "\<forall>x \<in> set xs. round_ready conn x \<and> cs_ip_version (fst (snd x)) = Some v"
    and "mtu_survey pc sv" and "mtu_hop_ok max_ttl pc" and "mtu_rank max_ttl collect pc \<le> length xs"
    and "mtu_overhead v \<le> unat psize" and "\<forall>p. length (enc p) \<le> unat psize - mtu_overhead v"
  shows "\<exists>body. task_log (mtu_turn F enc psize max_ttl collect) xs pc =
      Some (None, body @ [mtu_completed psize conn sv]) \<and> mtu_body psize v body"
  using assms(1-4)
proof (induction xs arbitrary: pc)
  case Nil
  then show ?case by (cases pc) auto
next
  case (Cons x xs)
  obtain now ok c t where x: "x = ((now, ok), c, t)" by (cases x) auto
  have ready: "round_ready conn ((now, ok), c, t)" "cs_ip_version c = Some v" using Cons.prems(1) x by simp_all
  from mtu_turn_ready [OF ready(1) Cons.prems(2,3) ready(2) assms(5,6), of F collect] show ?case
  proof (elim disjE exE conjE)
    fix w outs
    assume "mtu_turn F enc psize max_ttl collect (now, ok) pc (c, t) = Some (None, w, outs @ [mtu_completed psize conn sv])"
      "mtu_body psize v outs"
    then show ?thesis by (auto simp: x)
  next
    fix pc' w outs
    assume step: "mtu_turn F enc psize max_ttl collect (now, ok) pc (c, t) = Some (Some pc', w, outs)"
      and pc': "mtu_survey pc' sv" "mtu_hop_ok max_ttl pc'" "mtu_rank max_ttl collect pc' < mtu_rank max_ttl collect pc"
      and outs: "mtu_body psize v outs"
    have "mtu_rank max_ttl collect pc' \<le> length xs" using pc'(3) Cons.prems(4) by simp
    then obtain b where b: "task_log (mtu_turn F enc psize max_ttl collect) xs pc' = Some (None, b @ [mtu_completed psize conn sv])"
        "mtu_body psize v b"
      using Cons.IH [of pc'] Cons.prems(1) pc'(1,2) by auto
    have "task_log (mtu_turn F enc psize max_ttl collect) (x # xs) pc = Some (None, (outs @ b) @ [mtu_completed psize conn sv])"
      using step b(1) by (simp add: x)
    moreover have "mtu_body psize v (outs @ b)" using outs b(2) by (simp add: mtu_body_append)
    ultimately show ?thesis by blast
  qed
qed



end
