(* ===== verification/Data_Channels.thy ===== *)
theory Data_Channels
  imports Measurements Packet_Capture Dtls_Keylog Survey_Session
begin

text \<open>
  \<open>server/src/data_channels.rs\<close>: a session as its peer drives it. The host of a session holds
  the session, the services it shares with others, the tasks it has spawned and all that it
  has sent. Its events are the data channels that the peer opens, the messages on them and the
  turns of the tasks, in any order. JSON decoding and the DTLS keys come from libraries and
  are arguments.
\<close>

subsection \<open>The host of a session\<close>

datatype task =
    ProbeSenderTask
  | BulkSenderTask
  | MeasurementSenderTask
  | StatsReporterTask
  | TracerouteTask trace_pc
  | MtuTask u32 i32 nat mtu_pc

record ('f, 's) host =
  h_session :: "'f MeasuredSession"
  h_tracker :: "'s PacketTracker"
  h_capture :: "PacketCaptureService option"
  h_keylog :: "DtlsKeylogService option"
  h_tasks :: "task list"
  h_out :: "'f out list"

text \<open>The clocks and the outcome of sends that an event meets.\<close>

record clock =
  ck_now :: nat  \<comment> \<open>\<open>Instant::now()\<close>, nanoseconds\<close>
  ck_epoch :: nat  \<comment> \<open>seconds since the epoch, of a key log entry\<close>
  ck_ms :: u64  \<comment> \<open>\<open>current_time_ms()\<close>, first and second call\<close>
  ck_ms2 :: u64
  ck_send_ok :: bool
  ck_warn :: bool  \<comment> \<open>whether warnings are logged\<close>
  ck_dtls_keys :: "(bytes \<times> bytes) option"

record 'f codec =
  parse_control :: "bytes \<Rightarrow> 'f ControlMessage option"
  parse_probe :: "bytes \<Rightarrow> ProbePacket option"
  parse_testprobe :: "bytes \<Rightarrow> TestProbePacket option"
  parse_measurement :: "bytes \<Rightarrow> MeasurementProbePacket option"
  enc_bulk :: "BulkPacket \<Rightarrow> bytes"
  enc_testprobe :: "TestProbePacket \<Rightarrow> bytes"

definition emit :: "'f out list \<Rightarrow> ('f, 's) host \<Rightarrow> ('f, 's) host" where
  "emit outs h = h\<lparr>h_out := h_out h @ outs\<rparr>"

definition spawn :: "task list \<Rightarrow> ('f, 's) host \<Rightarrow> ('f, 's) host" where
  "spawn ts h = h\<lparr>h_tasks := h_tasks h @ ts\<rparr>"

definition on_session ::
  "('f MeasuredSession \<Rightarrow> 'f MeasuredSession) \<Rightarrow> ('f, 's) host \<Rightarrow> ('f, 's) host" where
  "on_session f h = h\<lparr>h_session := f (h_session h)\<rparr>"

subsection \<open>Opening data channels\<close>

definition server_side_ready :: "'f MeasuredSession \<Rightarrow> 'f out" where
  "server_side_ready c = OutControl (ServerSideReady
     \<lparr>sm_conn_id = cs_conn_id c, sm_survey_session_id = ms_survey_session_id c\<rparr>)"

definition store_channel :: "string \<Rightarrow> channel_state \<Rightarrow> DataChannels \<Rightarrow> DataChannels" where
  "store_channel label st chans =
     (if label = ''probe'' then chans\<lparr>dc_probe := Some st\<rparr>
      else if label = ''bulk'' then chans\<lparr>dc_bulk := Some st\<rparr>
      else if label = ''control'' then chans\<lparr>dc_control := Some st\<rparr>
      else if label = ''testprobe'' then chans\<lparr>dc_testprobe := Some st\<rparr>
      else chans)"

definition announce_ready :: "('f, 's) host \<Rightarrow> ('f, 's) host" where
  "announce_ready h =
     (if dc_control (ms_data_channels (h_session h)) \<noteq> None \<and> all_ready (ms_data_channels (h_session h))
      then emit [server_side_ready (h_session h)] h else h)"

definition setup_data_channel_handlers ::
  "string \<Rightarrow> channel_state \<Rightarrow> ('f, 's) host \<Rightarrow> ('f, 's) host" where
  "setup_data_channel_handlers label st h =
     announce_ready (on_session (\<lambda>c. c\<lparr>ms_data_channels := store_channel label st (ms_data_channels c)\<rparr>) h)"

subsection \<open>Control messages\<close>

text \<open>
  The message text is cut for the log at a byte offset, which panics inside a character; the
  cut is made only of valid UTF-8 that is longer.
\<close>

definition cut_for_log :: "nat \<Rightarrow> bytes \<Rightarrow> unit option" where
  "cut_for_log n msg = (if utf8_valid msg \<and> n < length msg \<and> cont (msg ! n) then None else Some ())"

definition set_survey :: "string \<Rightarrow> 'f MeasuredSession \<Rightarrow> 'f MeasuredSession" where
  "set_survey survey c = (if survey = [] then c else c\<lparr>ms_survey_session_id := survey\<rparr>)"

definition clear_measurements :: "'f MeasurementState \<Rightarrow> 'f MeasurementState" where
  "clear_measurements st = st\<lparr>received_probes := [], received_bulk_bytes := [], sent_bulk_packets := [],
     sent_probes := [], sent_probes_map := Map.empty, echoed_probes := []\<rparr>"

definition message_key :: "StartSurveySessionMessage \<Rightarrow> string option" where
  "message_key m = (case sv_magic_key m of
     Some k \<Rightarrow> Some k | None \<Rightarrow> extract_magic_key_from_session_id (sm_survey_session_id m))"

definition store_survey :: "StartSurveySessionMessage \<Rightarrow> 'f MeasuredSession \<Rightarrow> 'f MeasuredSession" where
  "store_survey m c =
     (let c = c\<lparr>ms_survey_session_id := sm_survey_session_id m\<rparr>
      in case message_key m of Some k \<Rightarrow> c\<lparr>ms_magic_key := Some k\<rparr> | None \<Rightarrow> c)"

definition record_survey :: "StartSurveySessionMessage \<Rightarrow> ('f, 's) host \<Rightarrow> ('f, 's) host" where
  "record_survey m h =
     (if ms_session_manager (h_session h)
      then emit [DbCreateSession (sm_survey_session_id m)
             (case message_key m of Some k \<Rightarrow> k | None \<Rightarrow> ''unknown'')] h
      else h)"

definition register_capture :: "string \<Rightarrow> ('f, 's) host \<Rightarrow> ('f, 's) host" where
  "register_capture survey h =
     (case (h_capture h, cs_peer_address (h_session h)) of
        (Some capture, Some (ip_str, port)) \<Rightarrow>
          (case parse_ip ip_str of
             Some ip \<Rightarrow> h\<lparr>h_capture := Some (register_session (SocketAddr ip port) 0 survey capture)\<rparr>
           | None \<Rightarrow> h)
      | _ \<Rightarrow> h)"

definition capture_keys :: "clock \<Rightarrow> string \<Rightarrow> ('f, 's) host \<Rightarrow> ('f, 's) host" where
  "capture_keys ck survey h =
     (case (h_keylog h, ck_dtls_keys ck) of
        (Some keylog, Some (random, secret)) \<Rightarrow>
          h\<lparr>h_keylog := Some (add_keylog (ck_epoch ck) survey random secret keylog)\<rparr>
      | _ \<Rightarrow> h)"

definition start_survey_session ::
  "clock \<Rightarrow> StartSurveySessionMessage \<Rightarrow> ('f, 's) host \<Rightarrow> ('f, 's) host" where
  "start_survey_session ck m h =
     announce_ready
       (capture_keys ck (sm_survey_session_id m)
         (register_capture (sm_survey_session_id m)
           (record_survey m (on_session (store_survey m) h))))"

definition DEFAULT_MEASURING_TIME_MS :: u64 where
  "DEFAULT_MEASURING_TIME_MS = 10000000"

definition max_measuring_seconds :: "'f MeasuredSession \<Rightarrow> u64 option" where
  "max_measuring_seconds c =
     (case (ms_magic_key_config c, ms_magic_key c) of
        (Some cfg, Some key) \<Rightarrow> Some (get_max_measuring_time_seconds cfg key)
      | _ \<Rightarrow> None)"

definition get_measuring_time :: "('f, 's) host \<Rightarrow> ('f, 's) host option" where
  "get_measuring_time h =
     (let c = h_session h
      in do {
        max_duration_ms \<leftarrow> (case max_measuring_seconds c of
                              Some secs \<Rightarrow> mul_checked secs 1000
                            | None \<Rightarrow> Some DEFAULT_MEASURING_TIME_MS);
        Some (if dc_control (ms_data_channels c) = Some Opened
              then emit [OutControl (MeasuringTimeResponse
                     \<lparr>sm_conn_id = cs_conn_id c, sm_survey_session_id = ms_survey_session_id c,
                      mr_max_duration_ms = max_duration_ms\<rparr>)] h
              else h)
      })"

definition start_server_traffic :: "'f f64 \<Rightarrow> string \<Rightarrow> ('f, 's) host \<Rightarrow> ('f, 's) host" where
  "start_server_traffic F survey h =
     spawn [ProbeSenderTask, BulkSenderTask]
       (on_session (\<lambda>c. let c = set_survey survey c
          in c\<lparr>ms_state := clear_measurements ((ms_state c)\<lparr>traffic_active := True\<rparr>),
               ms_metrics := default_metrics F\<rparr>) h)"

definition start_probe_streams :: "'f f64 \<Rightarrow> clock \<Rightarrow> string \<Rightarrow> ('f, 's) host \<Rightarrow> ('f, 's) host" where
  "start_probe_streams F ck survey h =
     spawn [MeasurementSenderTask, StatsReporterTask]
       (on_session (\<lambda>c. let c = set_survey survey c
          in c\<lparr>ms_state := (ms_state c)
               \<lparr>probe_streams_active := True, probe_streams_started_at := Some (ck_now ck),
                max_measuring_duration :=
                  map_option (\<lambda>s. unat s * 10 ^ 9) (max_measuring_seconds c),
                measurement_probe_seq := 0, received_measurement_probes := [], probe_stats := [],
                baseline_delay_sum := f_nat F 0, baseline_delay_count := 0,
                last_feedback := default_feedback, client_reported_s2c_stats := None\<rparr>\<rparr>) h)"

fun conn_of :: "'f ControlMessage \<Rightarrow> string option" where
  "conn_of (StartTraceroute m) = Some (sm_conn_id m)"
| "conn_of (StopTraceroute m) = Some (sm_conn_id m)"
| "conn_of (StartSurveySession m) = Some (sm_conn_id m)"
| "conn_of (StartMtuTraceroute m) = Some (sm_conn_id m)"
| "conn_of (GetMeasuringTime m) = Some (sm_conn_id m)"
| "conn_of (StartServerTraffic m) = Some (sm_conn_id m)"
| "conn_of (StopServerTraffic m) = Some (sm_conn_id m)"
| "conn_of (TestProbeMessageEcho p) = Some (tpp_conn_id p)"
| "conn_of (StartProbeStreams m) = Some (sm_conn_id m)"
| "conn_of (StopProbeStreams m) = Some (sm_conn_id m)"
| "conn_of (ProbeStats m) = Some (sm_conn_id m)"
| "conn_of _ = None"

fun control_action ::
  "'f f64 \<Rightarrow> clock \<Rightarrow> 'f ControlMessage \<Rightarrow> ('f, 's) host \<Rightarrow> ('f, 's) host option" where
  "control_action F ck (TestProbeMessageEcho p) h =
     do { c \<leftarrow> handle_testprobe_echo_packet (ck_ms ck) p (h_session h); Some (h\<lparr>h_session := c\<rparr>) }"
| "control_action F ck (StartSurveySession m) h = Some (start_survey_session ck m h)"
| "control_action F ck (StartTraceroute m) h =
     Some (spawn [TracerouteTask TraceStart] (on_session (set_survey (sm_survey_session_id m)) h))"
| "control_action F ck (StartMtuTraceroute m) h =
     Some (spawn [MtuTask (mt_packet_size m) (mt_path_ttl m) (mt_collect_timeout_ms m) MtuStart]
       (on_session (set_survey (sm_survey_session_id m)) h))"
| "control_action F ck (GetMeasuringTime m) h = get_measuring_time h"
| "control_action F ck (StartServerTraffic m) h = Some (start_server_traffic F (sm_survey_session_id m) h)"
| "control_action F ck (StopServerTraffic m) h =
     Some (on_session (in_state (\<lambda>st. st\<lparr>traffic_active := False\<rparr>)) h)"
| "control_action F ck (StartProbeStreams m) h = Some (start_probe_streams F ck (sm_survey_session_id m) h)"
| "control_action F ck (StopProbeStreams m) h =
     Some (on_session (in_state (\<lambda>st. st\<lparr>probe_streams_active := False\<rparr>)) h)"
| "control_action F ck (ProbeStats m) h =
     Some (on_session (in_state (\<lambda>st. st\<lparr>client_reported_s2c_stats := Some (ps_s2c_stats m)\<rparr>)) h)"
| "control_action F ck (StopTraceroute m) h =
     Some (on_session (\<lambda>c. c\<lparr>ms_state := clear_measurements ((ms_state c)\<lparr>stop_traceroute := True\<rparr>),
       ms_metrics := default_metrics F\<rparr>) h)"
| "control_action F ck _ h = Some h"

definition handle_control_message ::
  "'f f64 \<Rightarrow> 'f codec \<Rightarrow> clock \<Rightarrow> bytes \<Rightarrow> ('f, 's) host \<Rightarrow> ('f, 's) host option" where
  "handle_control_message F W ck msg h =
     do {
       _ \<leftarrow> cut_for_log 200 msg;
       (case parse_control W msg of
          None \<Rightarrow> do { _ \<leftarrow> (if ck_warn ck then cut_for_log 100 msg else Some ()); Some h }
        | Some m \<Rightarrow>
            (case conn_of m of
               Some conn_id \<Rightarrow>
                 if conn_id \<noteq> cs_conn_id (h_session h) then Some h else control_action F ck m h
             | None \<Rightarrow> Some h))
     }"

subsection \<open>Messages on the data channels\<close>

definition handle_probe_message ::
  "'f f64 \<Rightarrow> 'f codec \<Rightarrow> clock \<Rightarrow> bytes \<Rightarrow> 'f MeasuredSession \<Rightarrow> 'f MeasuredSession option" where
  "handle_probe_message F W ck msg c =
     (if probe_streams_active (ms_state c) \<and> parse_measurement W msg \<noteq> None
      then handle_measurement_probe_packet F (parse_measurement W) (ck_ms ck) msg c
      else handle_probe_packet F (parse_probe W) (ck_ms ck) (ck_ms2 ck) msg c)"

definition handle_message ::
  "'f f64 \<Rightarrow> 'f codec \<Rightarrow> clock \<Rightarrow> string \<Rightarrow> bytes \<Rightarrow> ('f, 's) host \<Rightarrow> ('f, 's) host option" where
  "handle_message F W ck channel msg h =
     (let on_c = (\<lambda>f. do { c \<leftarrow> f (h_session h); Some (h\<lparr>h_session := c\<rparr>) })
      in if channel = ''probe'' then on_c (handle_probe_message F W ck msg)
         else if channel = ''bulk'' then on_c (handle_bulk_packet F (ck_ms ck) (ck_ms2 ck) msg)
         else if channel = ''control'' then handle_control_message F W ck msg h
         else if channel = ''testprobe'' then on_c (handle_testprobe_packet (parse_testprobe W) (ck_ms ck) msg)
         else Some h)"

subsection \<open>Runs of a host\<close>

text \<open>
  The turn of a task, whose loop ends when the turn says so, and the events of a host. The
  packet tracker also changes by the turns of its own tasks, which see any shared state.
\<close>

definition session_task ::
  "('f MeasuredSession \<Rightarrow> (bool \<times> 'f MeasuredSession \<times> 'f out list) option) \<Rightarrow> task \<Rightarrow> ('f, 's) host \<Rightarrow>
   (task option \<times> ('f, 's) host) option" where
  "session_task turn tk h =
     do {
       (go_on, c, outs) \<leftarrow> turn (h_session h);
       Some (if go_on then Some tk else None, emit outs (h\<lparr>h_session := c\<rparr>))
     }"

definition tracker_task ::
  "('pc \<Rightarrow> 'f MeasuredSession \<times> 's PacketTracker \<Rightarrow>
     ('pc option \<times> ('f MeasuredSession \<times> 's PacketTracker) \<times> 'f out list) option) \<Rightarrow>
   'pc \<Rightarrow> ('pc \<Rightarrow> task) \<Rightarrow> ('f, 's) host \<Rightarrow> (task option \<times> ('f, 's) host) option" where
  "tracker_task turn pc mk h =
     do {
       (next_pc, (c, t), outs) \<leftarrow> turn pc (h_session h, h_tracker h);
       Some (map_option mk next_pc, emit outs (h\<lparr>h_session := c, h_tracker := t\<rparr>))
     }"

fun task_turn ::
  "'f f64 \<Rightarrow> 'f codec \<Rightarrow> clock \<Rightarrow> task \<Rightarrow> ('f, 's) host \<Rightarrow> (task option \<times> ('f, 's) host) option" where
  "task_turn F W ck ProbeSenderTask h =
     session_task (start_probe_sender (ck_ms ck) (ck_send_ok ck)) ProbeSenderTask h"
| "task_turn F W ck BulkSenderTask h =
     session_task (start_bulk_sender (enc_bulk W) (ck_ms ck) (ck_send_ok ck)) BulkSenderTask h"
| "task_turn F W ck MeasurementSenderTask h =
     session_task (start_measurement_probe_sender (ck_now ck) (ck_ms ck) (ck_send_ok ck)) MeasurementSenderTask h"
| "task_turn F W ck StatsReporterTask h =
     session_task (start_probe_stats_reporter F (ck_now ck) (ck_ms ck) (ck_ms2 ck)) StatsReporterTask h"
| "task_turn F W ck (TracerouteTask pc) h =
     tracker_task (run_single_traceroute_round F (enc_testprobe W) (ck_ms ck) (ck_send_ok ck)) pc TracerouteTask h"
| "task_turn F W ck (MtuTask psize max_ttl collect pc) h =
     tracker_task (run_mtu_traceroute_round F (enc_testprobe W) psize max_ttl collect (ck_ms ck) (ck_send_ok ck))
       pc (MtuTask psize max_ttl collect) h"

datatype 's host_event =
    OpenChannel string channel_state
  | ChannelState string channel_state
  | Message clock string bytes
  | TaskTurn clock nat
  | TrackerStep tracker_op 's

text \<open>The stack reports a new state of a channel that the session has stored.\<close>

definition report_channel :: "string \<Rightarrow> channel_state \<Rightarrow> DataChannels \<Rightarrow> DataChannels" where
  "report_channel label st chans =
     (let known = (\<lambda>x. if x = None then None else Some st)
      in if label = ''probe'' then chans\<lparr>dc_probe := known (dc_probe chans)\<rparr>
         else if label = ''bulk'' then chans\<lparr>dc_bulk := known (dc_bulk chans)\<rparr>
         else if label = ''control'' then chans\<lparr>dc_control := known (dc_control chans)\<rparr>
         else if label = ''testprobe'' then chans\<lparr>dc_testprobe := known (dc_testprobe chans)\<rparr>
         else chans)"

fun host_turn ::
  "'f f64 \<Rightarrow> 'f codec \<Rightarrow> 's host_event \<Rightarrow> ('f, 's) host \<Rightarrow> ('f, 's) host option" where
  "host_turn F W (OpenChannel label st) h = Some (setup_data_channel_handlers label st h)"
| "host_turn F W (ChannelState label st) h =
     Some (on_session (\<lambda>c. c\<lparr>ms_data_channels := report_channel label st (ms_data_channels c)\<rparr>) h)"
| "host_turn F W (Message ck channel msg) h = handle_message F W ck channel msg h"
| "host_turn F W (TaskTurn ck i) h =
     (if i < length (h_tasks h)
      then do {
        (tk, h') \<leftarrow> task_turn F W ck (h_tasks h ! i) h;
        Some (h'\<lparr>h_tasks := (case tk of
                  Some tk \<Rightarrow> (h_tasks h')[i := tk]
                | None \<Rightarrow> take i (h_tasks h') @ drop (Suc i) (h_tasks h'))\<rparr>)
      }
      else Some h)"
| "host_turn F W (TrackerStep op s) h =
     do { (_, t, _) \<leftarrow> tracker_turn op (h_tracker h, s); Some (h\<lparr>h_tracker := t\<rparr>) }"

abbreviation run_host ::
  "'f f64 \<Rightarrow> 'f codec \<Rightarrow> 's host_event list \<Rightarrow> ('f, 's) host \<Rightarrow> ('f, 's) host option" where
  "run_host F W \<equiv> run_ticks (host_turn F W)"

end
