(* ===== verification/Measurement_Metrics.thy ===== *)
theory Measurement_Metrics
  imports Complex_Main Measurements
begin

text \<open>
  What the metrics of \<open>server/src/measurements.rs\<close> say about the probes of a window: exact
  values under ideal arithmetic, and when the integer arithmetic panics.
\<close>

subsection \<open>When the metrics panic\<close>

lemma i64_diff_None_iff:
  "i64_diff a b = None \<longleftrightarrow> \<not> (- (2 ^ 63) \<le> sint a - sint b \<and> sint a - sint b < 2 ^ 63)"
  by (simp add: i64_diff_def Let_def)

lemma delays_None_iff:
  "delays_of F ps = None \<longleftrightarrow> (\<exists>(s, sent, got) \<in> set ps. i64_diff got sent = None)"
  by (auto simp: delays_of_def map_checked_None_iff split: prod.splits)

lemma expected_count_None_iff:
  assumes "seqs \<noteq> []"
  shows "expected_count seqs = None \<longleftrightarrow> 0 \<in> set seqs \<and> - 1 \<in> set seqs"
proof -
  let ?lo = "Min (set seqs)" and ?hi = "Max (set seqs)"
  have mem: "?lo \<in> set seqs" "?hi \<in> set seqs" using assms by simp_all
  have le: "?lo \<le> ?hi" using mem by simp
  have zero: "0 \<in> set seqs \<longleftrightarrow> ?lo = 0"
    using mem(1) by (metis List.finite_set Min_le word_le_0_iff)
  have top: "- 1 \<in> set seqs \<longleftrightarrow> ?hi = - 1"
    using mem(2) by (metis List.finite_set Max_ge word_order.extremum_uniqueI)
  have m1: "unat (- 1 :: u64) = 2 ^ 64 - 1"
    by (simp add: unsigned_minus_1_eq_mask mask_eq_exp_minus_1)
  have "expected_count seqs = None \<longleftrightarrow> 2 ^ 64 \<le> unat ?hi - unat ?lo + 1"
    using le by (simp add: expected_count_def sub_checked_def add_checked_eq_None_iff unat_sub)
  also have "\<dots> \<longleftrightarrow> unat ?hi = 2 ^ 64 - 1 \<and> unat ?lo = 0"
    using unat_bound [of ?hi] by simp arith
  also have "\<dots> \<longleftrightarrow> ?hi = - 1 \<and> ?lo = 0"
    by (metis m1 unat_0 word_unat_eq_iff)
  finally show ?thesis using zero top by blast
qed

lemma two_extremes:
  assumes "(0 :: u64) \<in> set xs" and "- 1 \<in> set xs"
  shows "2 \<le> length xs"
proof -
  have "(0 :: u64) \<noteq> - 1" by simp
  then have "card {0 :: u64, - 1} = 2" by (simp only: card_2_iff) blast
  moreover have "card {0 :: u64, - 1} \<le> card (set xs)" using assms by (intro card_mono) auto
  ultimately show ?thesis using card_length [of xs] by linarith
qed

lemma direction_metrics_None_iff:
  assumes "ps \<noteq> []"
  shows "direction_metrics F ps = None \<longleftrightarrow>
    (\<exists>(s, sent, got) \<in> set ps. i64_diff got sent = None) \<or>
    (0 \<in> set (map fst ps) \<and> - 1 \<in> set (map fst ps))"
proof -
  have "expected_count (map fst ps) = None \<longleftrightarrow> 0 \<in> set (map fst ps) \<and> - 1 \<in> set (map fst ps)"
    using assms by (intro expected_count_None_iff) simp
  moreover have "2 \<le> length ps" if "0 \<in> set (map fst ps) \<and> - 1 \<in> set (map fst ps)"
    using that two_extremes [of "map fst ps"] by (simp only: length_map)
  moreover have "direction_metrics F ps = None \<longleftrightarrow>
      delays_of F ps = None \<or> (2 \<le> length ps \<and> expected_count (map fst ps) = None)"
    by (cases "delays_of F ps"; cases "expected_count (map fst ps)") (simp_all add: direction_metrics_def)
  ultimately show ?thesis
    using delays_None_iff [of F ps] by argo
qed

text \<open>
  The data of a window that no integer computation survives: a clock difference outside
  \<open>i64\<close>, probes with the smallest and the largest number, or more bytes than \<open>u64\<close> holds.
\<close>

definition skewed :: "(u64 \<times> u64 \<times> u64) list \<Rightarrow> bool" where
  "skewed ps \<longleftrightarrow> (\<exists>(s, sent, got) \<in> set ps. \<not> (- (2 ^ 63) \<le> sint got - sint sent \<and> sint got - sint sent < 2 ^ 63)) \<or>
     (0 \<in> set (map fst ps) \<and> - 1 \<in> set (map fst ps))"

definition window_overflow :: "u64 \<Rightarrow> u64 \<Rightarrow> 'f MeasurementState \<Rightarrow> bool" where
  "window_overflow now_ms window_ms st \<longleftrightarrow>
     (let cutoff = saturating_sub now_ms window_ms
      in skewed (recent_probes cutoff st) \<or> skewed (recent_echoed_probes cutoff st) \<or>
         2 ^ 64 \<le> sum_list (map unat (recent_bulk cutoff st)) \<or>
         2 ^ 64 \<le> sum_list (map unat (recent_sent_bulk cutoff st)))"

lemma direction_skewed: "ps \<noteq> [] \<Longrightarrow> direction_metrics F ps = None \<longleftrightarrow> skewed ps"
  unfolding skewed_def i64_diff_None_iff [symmetric] by (rule direction_metrics_None_iff)

lemma not_skewed_Nil [simp]: "\<not> skewed []"
  by (simp add: skewed_def)

lemma throughput_None_iff:
  "throughput F w xs = None \<longleftrightarrow> 2 ^ 64 \<le> sum_list (map unat xs)"
  by (simp add: throughput_def bind_eq_None_conv sum_checked_None_iff)

lemma c2s_metrics_None_iff: "c2s_metrics F i ps m = None \<longleftrightarrow> skewed ps"
  by (cases "ps = []") (simp_all add: c2s_metrics_def bind_eq_None_conv direction_skewed split: prod.splits)

lemma s2c_metrics_None_iff: "s2c_metrics F i ps m = None \<longleftrightarrow> skewed ps"
  by (cases "ps = []") (simp_all add: s2c_metrics_def bind_eq_None_conv direction_skewed split: prod.splits)

lemma bulk_metrics_None_iff:
  "c2s_bulk_metrics F i w xs m = None \<longleftrightarrow> 2 ^ 64 \<le> sum_list (map unat xs)"
  "s2c_bulk_metrics F i w xs m = None \<longleftrightarrow> 2 ^ 64 \<le> sum_list (map unat xs)"
  by (cases "xs = []"; simp add: c2s_bulk_metrics_def s2c_bulk_metrics_def bind_eq_None_conv throughput_None_iff)+

lemma window_metrics_None_iff: "window_metrics F now st (i, w) m = None \<longleftrightarrow> window_overflow now w st"
  unfolding window_metrics_def window_overflow_def
  by (auto simp: Let_def bind_eq_None_conv c2s_metrics_None_iff s2c_metrics_None_iff bulk_metrics_None_iff)

text \<open>A longer window holds more, so only the longest matters.\<close>

lemma skewed_mono: "set ps \<subseteq> set qs \<Longrightarrow> skewed ps \<Longrightarrow> skewed qs"
  unfolding skewed_def set_map by blast

lemma sum_filter_mono:
  "(\<And>x. P x \<Longrightarrow> Q x) \<Longrightarrow>
     sum_list (map (g :: _ \<Rightarrow> nat) (filter P xs)) \<le> sum_list (map g (filter Q xs))"
  by (induction xs) (auto intro: le_trans add_mono)

lemma window_overflow_mono:
  assumes "w \<le> w'" and "window_overflow now w st"
  shows "window_overflow now w' st"
proof -
  let ?a = "saturating_sub now w" and ?b = "saturating_sub now w'"
  have le: "?b \<le> ?a"
    using assms(1) by (simp add: word_le_nat_alt unat_saturating_sub diff_le_mono2)
  have "set (recent_probes ?a st) \<subseteq> set (recent_probes ?b st)"
    "set (recent_echoed_probes ?a st) \<subseteq> set (recent_echoed_probes ?b st)"
    using le by (auto simp: recent_probes_def recent_echoed_probes_def)
  moreover have "sum_list (map unat (recent_bulk ?a st)) \<le> sum_list (map unat (recent_bulk ?b st))"
    "sum_list (map unat (recent_sent_bulk ?a st)) \<le> sum_list (map unat (recent_sent_bulk ?b st))"
    unfolding recent_bulk_def recent_sent_bulk_def map_map using le
    by (auto intro!: sum_filter_mono)
  ultimately show ?thesis
    using assms(2) unfolding window_overflow_def Let_def by (meson le_trans skewed_mono)
qed

lemma calculate_metrics_None_iff: "calculate_metrics F now c = None \<longleftrightarrow> window_overflow now 60000 (ms_state c)"
proof -
  have "calculate_metrics F now c = None \<longleftrightarrow> window_overflow now 1000 (ms_state c) \<or>
      window_overflow now 10000 (ms_state c) \<or> window_overflow now 60000 (ms_state c)"
    by (auto simp: calculate_metrics_def bind_eq_None_conv window_metrics_None_iff
        not_None_eq [symmetric] simp del: not_None_eq)
  then show ?thesis
    using window_overflow_mono [of 1000 60000 now "ms_state c"]
      window_overflow_mono [of 10000 60000 now "ms_state c"] by auto
qed

subsection \<open>Reordering and loss\<close>

lemma count_reorders_card:
  "count_reorders m ss = card {i. i < length ss \<and> (ss ! i < m \<or> (\<exists>j < i. ss ! i < ss ! j))}"
proof (induction ss arbitrary: m)
  case (Cons s ss)
  let ?A = "{i. i < length ss \<and> (ss ! i < max m s \<or> (\<exists>j < i. ss ! i < ss ! j))}"
  have "{i. i < length (s # ss) \<and> ((s # ss) ! i < m \<or> (\<exists>j < i. (s # ss) ! i < (s # ss) ! j))} =
      {i. i = 0 \<and> s < m} \<union> Suc ` ?A" (is "?L = ?R")
  proof (rule set_eqI)
    fix i
    show "i \<in> ?L \<longleftrightarrow> i \<in> ?R"
      by (cases i) (auto simp: less_Suc_eq_0_disj less_max_iff_disj)
  qed
  moreover have "card ({i. i = 0 \<and> s < m} \<union> Suc ` ?A) = card {i :: nat. i = 0 \<and> s < m} + card (Suc ` ?A)"
    by (intro card_Un_disjoint) auto
  moreover have "card (Suc ` ?A) = card ?A" by (simp add: card_image)
  ultimately show ?case by (simp add: Cons.IH)
qed simp

text \<open>The probes that came after one with a larger number, and the numbers that never came.\<close>

definition late :: "u64 list \<Rightarrow> nat set" where
  "late seqs = {i. i < length seqs \<and> (\<exists>j < i. seqs ! i < seqs ! j)}"

definition seq_range :: "u64 list \<Rightarrow> u64 set" where
  "seq_range seqs = {Min (set seqs)..Max (set seqs)}"

lemma count_reorders_late: "count_reorders 0 seqs = card (late seqs)"
  by (simp add: count_reorders_card late_def)

lemma card_word_interval:
  fixes a b :: "'a::len word"
  assumes "a \<le> b"
  shows "card {a..b} = unat b - unat a + 1"
proof -
  have "unat ` {a..b} = {unat a..unat b}"
  proof (intro equalityI subsetI)
    fix n assume "n \<in> {unat a..unat b}"
    moreover from this have "unat (of_nat n :: 'a word) = n"
      by (intro unat_of_nat_small) (meson atLeastAtMost_iff order_le_less_trans unat_bound)
    ultimately show "n \<in> unat ` {a..b}"
      by (intro image_eqI [of _ _ "of_nat n"]) (auto simp: word_le_nat_alt)
  qed (auto simp: word_le_nat_alt)
  moreover have "inj_on unat {a..b}" by (simp add: inj_on_def word_unat_eq_iff)
  ultimately have "card {a..b} = card {unat a..unat b}" by (metis card_image)
  then show ?thesis using assms by (simp add: word_le_nat_alt Suc_diff_le)
qed

lemma expected_count_card:
  assumes "seqs \<noteq> []" and "expected_count seqs = Some e"
  shows "unat e = card (seq_range seqs)"
proof -
  have le: "Min (set seqs) \<le> Max (set seqs)" using assms(1) by simp
  show ?thesis
    using assms(2) le add_checked_Some
    by (fastforce simp: expected_count_def sub_checked_def seq_range_def card_word_interval unat_sub
        bind_eq_Some_conv)
qed

subsection \<open>Values under ideal arithmetic\<close>

definition real_f64 :: "(real \<Rightarrow> string) \<Rightarrow> real f64" where
  "real_f64 fmt = \<lparr>f_of_u64 = (\<lambda>x. real (unat x)), f_of_i64 = (\<lambda>x. real_of_int (sint x)), f_add = (+),
     f_sub = (-), f_mul = (*), f_div = (/), f_abs = abs, f_sqrt = sqrt, f_max = max, f_less = (<),
     f_secs = (\<lambda>n. real n / 10 ^ 9), f_fixed2 = fmt\<rparr>"

definition mean :: "real list \<Rightarrow> real" where
  "mean xs = sum_list xs / real (length xs)"

lemma real_nat: "n < 2 ^ 64 \<Longrightarrow> f_nat (real_f64 fmt) n = real n"
  by (simp add: f_nat_def real_f64_def unat_of_nat_small del: of_nat_unat)

lemma real_sum: "f_sum (real_f64 fmt) xs = sum_list xs"
proof -
  have "foldl (+) a xs = a + sum_list xs" for a :: real
    by (induction xs arbitrary: a) simp_all
  then show ?thesis by (simp add: f_sum_def f_nat_def real_f64_def)
qed

lemma real_avg: "length xs < 2 ^ 64 \<Longrightarrow> f_avg (real_f64 fmt) xs = mean xs"
  unfolding f_avg_def real_sum by (simp add: real_nat mean_def) (simp add: real_f64_def)

lemma real_std_dev:
  "length xs < 2 ^ 64 \<Longrightarrow> f_std_dev (real_f64 fmt) xs = sqrt (mean (map (\<lambda>d. (d - mean xs) ^ 2) xs))"
  unfolding f_std_dev_def real_sum
  by (simp add: real_nat real_avg mean_def power2_eq_square) (simp add: real_f64_def Let_def)

lemma i64_diff_Some:
  assumes "i64_diff a b = Some d"
  shows "sint d = sint a - sint b"
proof -
  have r: "- (2 ^ 63) \<le> sint a - sint b" "sint a - sint b < 2 ^ 63" "d = a - b"
    using assms by (auto simp: i64_diff_def Let_def split: if_splits)
  then show ?thesis by (simp add: sint_word_ariths signed_take_bit_int_eq_self)
qed

definition delay :: "u64 \<times> u64 \<times> u64 \<Rightarrow> real" where
  "delay p = real_of_int (sint (snd (snd p)) - sint (fst (snd p)))"

lemma real_delays:
  assumes "delays_of (real_f64 fmt) ps = Some ds"
  shows "ds = map delay ps"
proof -
  have "map (\<lambda>(_, sent, got). map_option (f_of_i64 (real_f64 fmt)) (i64_diff got sent)) ps = map Some ds"
    using assms by (simp add: delays_of_def map_checked_Some_iff)
  then show ?thesis
  proof (induction ps arbitrary: ds)
    case (Cons p ps)
    then show ?case
      by (cases p; cases ds)
        (auto simp: delay_def real_f64_def dest!: i64_diff_Some simp del: of_int_sint split: prod.splits)
  qed simp
qed

text \<open>The four values of a window are what they are named after.\<close>

definition window_truth :: "(u64 \<times> u64 \<times> u64) list \<Rightarrow> real \<times> real \<times> real \<times> real \<Rightarrow> bool" where
  "window_truth ps = (\<lambda>(avg, jitter, loss, reorder).
     avg = mean (map delay ps) \<and>
     jitter = sqrt (mean (map (\<lambda>p. (delay p - avg) ^ 2) ps)) \<and>
     loss = 100 * card (seq_range (map fst ps) - set (map fst ps)) / card (seq_range (map fst ps)) \<and>
     reorder = 100 * card (late (map fst ps)) / length ps)"

lemma loss_percent_real:
  assumes "seqs \<noteq> []" and "distinct seqs" and "length seqs < 2 ^ 64" and "expected_count seqs = Some e"
  shows "loss_percent (real_f64 fmt) e (length seqs) =
    100 * card (seq_range seqs - set seqs) / card (seq_range seqs)"
proof -
  let ?n = "card (seq_range seqs)"
  have e: "unat e = ?n" using assms(1,4) by (rule expected_count_card)
  have sub: "set seqs \<subseteq> seq_range seqs" by (auto simp: seq_range_def)
  then have missing: "card (seq_range seqs - set seqs) = ?n - length seqs"
    using assms(2) by (simp add: card_Diff_subset distinct_card)
  have le: "length seqs \<le> ?n"
    using card_mono [OF _ sub] assms(2) by (simp add: seq_range_def distinct_card)
  have "loss_percent (real_f64 fmt) e (length seqs) = max ((real ?n - length seqs) / ?n * 100) 0"
    using assms(3) by (simp add: loss_percent_def real_nat) (simp add: real_f64_def e del: of_nat_unat)
  also have "\<dots> = (real ?n - length seqs) / ?n * 100" using le by simp
  finally show ?thesis using le by (simp add: missing of_nat_diff)
qed

lemma direction_metrics_truth:
  assumes "direction_metrics (real_f64 fmt) ps = Some (avg, jitter, loss, reorder)"
    and "2 \<le> length ps" and "length ps < 2 ^ 64" and "distinct (map fst ps)"
  shows "\<exists>l. loss = Some l \<and> window_truth ps (avg, jitter, l, reorder)"
proof -
  obtain ds e where ds: "delays_of (real_f64 fmt) ps = Some ds"
    and e: "expected_count (map fst ps) = Some e"
    and r: "avg = f_avg (real_f64 fmt) ds" "jitter = f_std_dev (real_f64 fmt) ds"
      "loss = Some (loss_percent (real_f64 fmt) e (length ps))"
      "reorder = reorder_percent (real_f64 fmt) (map fst ps)"
    using assms(1,2) by (auto simp: direction_metrics_def bind_eq_Some_conv)
  have "map fst ps \<noteq> []" using assms(2) by auto
  then have l: "loss_percent (real_f64 fmt) e (length ps) =
      100 * card (seq_range (map fst ps) - set (map fst ps)) / card (seq_range (map fst ps))"
    using loss_percent_real [OF _ assms(4) _ e, of fmt] assms(3) by simp
  have "card (late (map fst ps)) \<le> card {..<length ps}"
    by (intro card_mono) (auto simp: late_def)
  then have "reorder = 100 * card (late (map fst ps)) / length ps"
    using assms(3) by (simp add: r(4) reorder_percent_def count_reorders_late real_nat) (simp add: real_f64_def)
  then show ?thesis
    using r l assms(3) by (simp add: window_truth_def real_delays [OF ds] real_avg real_std_dev comp_def)
qed

subsection \<open>The windows of a session\<close>

definition c2s_slot :: "nat \<Rightarrow> 'f ClientMetrics \<Rightarrow> 'f \<times> 'f \<times> 'f \<times> 'f" where
  "c2s_slot i m = (c2s_delay_avg m ! i, c2s_jitter m ! i, c2s_loss_rate m ! i, c2s_reorder_rate m ! i)"

definition s2c_slot :: "nat \<Rightarrow> 'f ClientMetrics \<Rightarrow> 'f \<times> 'f \<times> 'f \<times> 'f" where
  "s2c_slot i m = (s2c_delay_avg m ! i, s2c_jitter m ! i, s2c_loss_rate m ! i, s2c_reorder_rate m ! i)"

definition full_metrics :: "'f ClientMetrics \<Rightarrow> bool" where
  "full_metrics m \<longleftrightarrow> (\<forall>g \<in> {c2s_throughput, s2c_throughput, c2s_delay_avg, s2c_delay_avg, c2s_jitter,
     s2c_jitter, c2s_loss_rate, s2c_loss_rate, c2s_reorder_rate, s2c_reorder_rate}. length (g m) = 3)"

lemmas slot_defs = c2s_slot_def s2c_slot_def full_metrics_def

lemma c2s_metrics_slot:
  assumes "c2s_metrics F k ps m = Some m'" and "full_metrics m"
  shows "full_metrics m'" and "s2c_slot i m' = s2c_slot i m"
    and "i \<noteq> k \<Longrightarrow> c2s_slot i m' = c2s_slot i m"
    and "ps \<noteq> [] \<Longrightarrow> k < 3 \<Longrightarrow> direction_metrics F ps = Some (a, j, Some l, r) \<Longrightarrow> c2s_slot k m' = (a, j, l, r)"
  using assms by (auto simp: c2s_metrics_def slot_defs bind_eq_Some_conv split: if_splits option.splits)

lemma s2c_metrics_slot:
  assumes "s2c_metrics F k ps m = Some m'" and "full_metrics m"
  shows "full_metrics m'" and "c2s_slot i m' = c2s_slot i m"
    and "i \<noteq> k \<Longrightarrow> s2c_slot i m' = s2c_slot i m"
    and "ps \<noteq> [] \<Longrightarrow> k < 3 \<Longrightarrow> direction_metrics F ps = Some (a, j, Some l, r) \<Longrightarrow> s2c_slot k m' = (a, j, l, r)"
  using assms by (auto simp: s2c_metrics_def slot_defs bind_eq_Some_conv split: if_splits option.splits)

lemma bulk_metrics_slot:
  assumes "c2s_bulk_metrics F k w xs m = Some m' \<or> s2c_bulk_metrics F k w xs m = Some m'" and "full_metrics m"
  shows "full_metrics m'" and "s2c_slot i m' = s2c_slot i m" and "c2s_slot i m' = c2s_slot i m"
  using assms
  by (auto simp: c2s_bulk_metrics_def s2c_bulk_metrics_def slot_defs bind_eq_Some_conv split: if_splits)

lemma window_metrics_slot:
  fixes st :: "real MeasurementState"
  assumes "window_metrics (real_f64 fmt) now st (k, w) m = Some m'" and "full_metrics m"
  shows "full_metrics m'" and "i \<noteq> k \<Longrightarrow> c2s_slot i m' = c2s_slot i m \<and> s2c_slot i m' = s2c_slot i m"
    and "k < 3 \<Longrightarrow> ps = recent_probes (saturating_sub now w) st \<Longrightarrow> 2 \<le> length ps \<Longrightarrow>
      length ps < 2 ^ 64 \<Longrightarrow> distinct (map fst ps) \<Longrightarrow> window_truth ps (c2s_slot k m')"
    and "k < 3 \<Longrightarrow> ps = recent_echoed_probes (saturating_sub now w) st \<Longrightarrow> 2 \<le> length ps \<Longrightarrow>
      length ps < 2 ^ 64 \<Longrightarrow> distinct (map fst ps) \<Longrightarrow> window_truth ps (s2c_slot k m')"
proof -
  let ?F = "real_f64 fmt" and ?cut = "saturating_sub now w"
  obtain m1 m2 m3 where
    1: "c2s_metrics ?F k (recent_probes ?cut st) m = Some m1" and
    2: "c2s_bulk_metrics ?F k w (recent_bulk ?cut st) m1 = Some m2" and
    3: "s2c_bulk_metrics ?F k w (recent_sent_bulk ?cut st) m2 = Some m3" and
    4: "s2c_metrics ?F k (recent_echoed_probes ?cut st) m3 = Some m'"
    using assms(1) by (auto simp: window_metrics_def Let_def bind_eq_Some_conv)
  note f1 = c2s_metrics_slot [OF 1 assms(2)]
  note f2 = bulk_metrics_slot [OF disjI1 [OF 2] f1(1)]
  note f3 = bulk_metrics_slot [OF disjI2 [OF 3] f2(1)]
  note f4 = s2c_metrics_slot [OF 4 f3(1)]
  show "full_metrics m'" by (rule f4(1))
  show "i \<noteq> k \<Longrightarrow> c2s_slot i m' = c2s_slot i m \<and> s2c_slot i m' = s2c_slot i m"
    using f1(2,3) f2(2,3) f3(2,3) f4(2,3) by simp
  show "window_truth ps (c2s_slot k m')"
    if k: "k < 3" and ps: "ps = recent_probes ?cut st" "2 \<le> length ps" "length ps < 2 ^ 64" "distinct (map fst ps)"
  proof -
    have ne: "ps \<noteq> []" using ps(2) by auto
    then obtain a j lo r where d: "direction_metrics ?F ps = Some (a, j, lo, r)"
      using 1 ps(1) by (auto simp: c2s_metrics_def bind_eq_Some_conv)
    obtain l where l: "lo = Some l" "window_truth ps (a, j, l, r)"
      using direction_metrics_truth [OF d ps(2-4)] by blast
    have "c2s_slot k m1 = (a, j, l, r)" using f1(4) d ne k l(1) ps(1) by simp
    with l(2) show ?thesis using f2(3) f3(3) f4(2) by simp
  qed
  show "window_truth ps (s2c_slot k m')"
    if k: "k < 3" and ps: "ps = recent_echoed_probes ?cut st" "2 \<le> length ps" "length ps < 2 ^ 64" "distinct (map fst ps)"
  proof -
    have ne: "ps \<noteq> []" using ps(2) by auto
    then obtain a j lo r where d: "direction_metrics ?F ps = Some (a, j, lo, r)"
      using 4 ps(1) by (auto simp: s2c_metrics_def bind_eq_Some_conv)
    obtain l where l: "lo = Some l" "window_truth ps (a, j, l, r)"
      using direction_metrics_truth [OF d ps(2-4)] by blast
    have "s2c_slot k m' = (a, j, l, r)" using f4(4) d ne k l(1) ps(1) by simp
    with l(2) show ?thesis by simp
  qed
qed

lemma full_default: "full_metrics (default_metrics F)"
  by (simp add: full_metrics_def default_metrics_def Let_def)

text \<open>
  C28. Under ideal arithmetic the metrics of a session are what they are named after, for each
  of the windows of one, ten and sixty seconds and both directions: of the probes of the
  window, if there are two or more with different numbers, the average delay is the mean of
  the clock differences, the jitter their standard deviation, the loss rate the percentage of
  numbers between the smallest and the largest that are missing, and the reorder rate the
  percentage of probes that came after one with a larger number.
\<close>

theorem metrics_describe_window:
  assumes "calculate_metrics (real_f64 fmt) now c = Some c'" and "i < 3"
    and "cutoff = saturating_sub now ([1000, 10000, 60000] ! i)"
    and "(ps, slot) \<in> {(recent_probes cutoff (ms_state c), c2s_slot i (ms_metrics c')),
                        (recent_echoed_probes cutoff (ms_state c), s2c_slot i (ms_metrics c'))}"
    and "2 \<le> length ps" and "length ps < 2 ^ 64" and "distinct (map fst ps)"
  shows "window_truth ps slot"
proof -
  let ?W = "window_metrics (real_f64 fmt) now (ms_state c)"
  obtain m1 m2 where 1: "?W (0, 1000) (default_metrics (real_f64 fmt)) = Some m1"
    and 2: "?W (1, 10000) m1 = Some m2" and 3: "?W (2, 60000) m2 = Some (ms_metrics c')"
    using assms(1) by (auto simp: calculate_metrics_def bind_eq_Some_conv)
  note w1 = window_metrics_slot [OF 1 full_default]
  note w2 = window_metrics_slot [OF 2 w1(1)]
  note w3 = window_metrics_slot [OF 3 w2(1)]
  consider "i = 0" | "i = 1" | "i = 2" using assms(2) by linarith
  then show ?thesis
  proof cases
    case 1
    with assms(3-7) show ?thesis using w1(3,4) w2(2) [of 0] w3(2) [of 0] by auto
  next
    case 2
    with assms(3-7) show ?thesis using w2(3,4) w3(2) [of 1] by auto
  next
    case 3
    with assms(3-7) show ?thesis using w3(3,4) by (auto simp: numeral_2_eq_2)
  qed
qed

definition two_probes :: "real MeasuredSession" where
  "two_probes = in_state (\<lambda>st. st\<lparr>received_probes :=
     [\<lparr>rp_seq = 3, rp_sent_at_ms = 99000, rp_received_at_ms = 99990\<rparr>,
      \<lparr>rp_seq = 1, rp_sent_at_ms = 98000, rp_received_at_ms = 100000\<rparr>]\<rparr>) (sample_measured (real_f64 (\<lambda>_. [])))"

lemma two_probes_recent:
  "recent_probes (saturating_sub 100000 1000) (ms_state two_probes) = [(3, 99000, 99990), (1, 98000, 100000)]"
  by (simp add: recent_probes_def two_probes_def saturating_sub_def)

theorem metrics_describe_window_witness:
  "\<exists>c'. calculate_metrics (real_f64 (\<lambda>_. [])) 100000 two_probes = Some c' \<and>
     window_truth [(3, 99000, 99990), (1, 98000, 100000)] (c2s_slot 0 (ms_metrics c'))"
proof -
  have "\<not> window_overflow 100000 60000 (ms_state two_probes)"
    by (simp add: window_overflow_def two_probes_def sample_measured_def new_measurement_state_def
        recent_probes_def recent_echoed_probes_def recent_bulk_def recent_sent_bulk_def skewed_def
        saturating_sub_def)
  then obtain c' where c: "calculate_metrics (real_f64 (\<lambda>_. [])) 100000 two_probes = Some c'"
    using calculate_metrics_None_iff by (metis not_None_eq)
  have "window_truth [(3, 99000, 99990), (1, 98000, 100000)] (c2s_slot 0 (ms_metrics c'))"
    by (rule metrics_describe_window [OF c _ refl, of 0]) (simp_all add: two_probes_recent)
  with c show ?thesis by blast
qed

text \<open>
  C29. Computing the metrics panics exactly when the last minute holds a probe whose clock
  difference does not fit \<open>i64\<close>, two probes of one direction with the numbers 0 and
  \<open>u64::MAX\<close>, or more bytes than \<open>u64\<close> holds. A client can bring this about: after two probes
  with these numbers within a minute, the handler of the second panics.
\<close>

theorem metrics_panic_exactly:
  fixes c :: "'f MeasuredSession"
  shows "(calculate_metrics F now c = None \<longleftrightarrow> window_overflow now 60000 (ms_state c)) \<and>
    (\<forall>parse_probe m1 m2 t1 t2 (p1 :: ProbePacket) p2 c1.
      parse_probe m1 = Some p1 \<and> parse_probe m2 = Some p2 \<and>
      pp_conn_id p1 = cs_conn_id c \<and> pp_conn_id p2 = cs_conn_id c \<and>
      pp_direction p1 = ClientToServer \<and> pp_direction p2 = ClientToServer \<and>
      pp_seq p1 = 0 \<and> pp_seq p2 = - 1 \<and> t1 \<le> t2 \<and> unat t2 \<le> unat t1 + 60000 \<and>
      handle_probe_packet F parse_probe t1 t1 m1 c = Some c1 \<longrightarrow>
      handle_probe_packet F parse_probe t2 t2 m2 c1 = None)"
proof (intro conjI allI impI)
  show "calculate_metrics F now c = None \<longleftrightarrow> window_overflow now 60000 (ms_state c)"
    by (rule calculate_metrics_None_iff)
next
  fix parse_probe m1 m2 t1 t2 p1 p2 c1
  assume A: "parse_probe m1 = Some p1 \<and> parse_probe m2 = Some p2 \<and>
      pp_conn_id p1 = cs_conn_id c \<and> pp_conn_id p2 = cs_conn_id c \<and>
      pp_direction p1 = ClientToServer \<and> pp_direction p2 = ClientToServer \<and>
      pp_seq p1 = 0 \<and> pp_seq p2 = - 1 \<and> t1 \<le> t2 \<and> unat t2 \<le> unat t1 + 60000 \<and>
      handle_probe_packet F parse_probe t1 t1 m1 c = Some c1"
  let ?x1 = "\<lparr>rp_seq = 0, rp_sent_at_ms = pp_timestamp_ms p1, rp_received_at_ms = t1\<rparr>"
  let ?x2 = "\<lparr>rp_seq = - 1, rp_sent_at_ms = pp_timestamp_ms p2, rp_received_at_ms = t2\<rparr>"
  have keep: "x \<in> set (prune rp_received_at_ms k xs)" if "x \<in> set xs" "k \<le> rp_received_at_ms x" for x k xs
    using that by (induction xs) (auto simp: prune_def)
  from A obtain k1 where k1: "sub_checked t1 60000 = Some k1"
    and s1: "received_probes (ms_state c1) = prune rp_received_at_ms k1 (received_probes (ms_state c) @ [?x1])"
    and id: "cs_conn_id c1 = cs_conn_id c"
    by (auto simp: handle_probe_packet_def probe_received_def calculate_metrics_def bind_eq_Some_conv)
  have u: "unat k1 = unat t1 - 60000" "60000 \<le> unat t1"
    using k1 sub_checked_Some [OF k1] by (auto simp: sub_checked_def word_le_nat_alt split: if_splits)
  have "?x1 \<in> set (received_probes (ms_state c1))"
    unfolding s1 using u by (intro keep) (simp_all add: word_le_nat_alt)
  moreover obtain k2 where k2: "sub_checked t2 60000 = Some k2" "unat k2 = unat t2 - 60000"
    using A u(2) by (auto simp: sub_checked_def word_le_nat_alt unat_sub)
  moreover have le: "saturating_sub t2 60000 \<le> t1" "saturating_sub t2 60000 \<le> t2" "k2 \<le> t1" "k2 \<le> t2"
    using A k2(2) by (auto simp: word_le_nat_alt unat_saturating_sub)
  ultimately have mem: "?x1 \<in> set (prune rp_received_at_ms k2 (received_probes (ms_state c1) @ [?x2]))"
      "?x2 \<in> set (prune rp_received_at_ms k2 (received_probes (ms_state c1) @ [?x2]))"
    by (auto intro: keep)
  let ?c2 = "c1\<lparr>ms_state := (ms_state c1)\<lparr>received_probes :=
      prune rp_received_at_ms k2 (received_probes (ms_state c1) @ [?x2])\<rparr>\<rparr>"
  have "handle_probe_packet F parse_probe t2 t2 m2 c1 = calculate_metrics F t2 ?c2"
    using A k2(1) id by (simp add: handle_probe_packet_def probe_received_def)
  moreover have "skewed (recent_probes (saturating_sub t2 60000) (ms_state ?c2))"
    unfolding skewed_def
  proof (rule disjI2)
    show "0 \<in> set (map fst (recent_probes (saturating_sub t2 60000) (ms_state ?c2))) \<and>
      - 1 \<in> set (map fst (recent_probes (saturating_sub t2 60000) (ms_state ?c2)))"
      using mem le by (force simp: recent_probes_def image_iff)
  qed
  then have "window_overflow t2 60000 (ms_state ?c2)"
    by (simp add: window_overflow_def Let_def)
  ultimately show "handle_probe_packet F parse_probe t2 t2 m2 c1 = None"
    by (simp add: calculate_metrics_None_iff)
qed

definition extreme_probe :: "bytes \<Rightarrow> ProbePacket option" where
  "extreme_probe msg = Some \<lparr>pp_seq = (if msg = [] then 0 else - 1), pp_timestamp_ms = 70000,
     pp_direction = ClientToServer, pp_send_options = None, pp_conn_id = ''conn-a''\<rparr>"

theorem metrics_panic_exactly_witness:
  "\<exists>c1. handle_probe_packet (real_f64 (\<lambda>_. [])) extreme_probe 70000 70000 [] (sample_measured (real_f64 (\<lambda>_. []))) = Some c1 \<and>
     handle_probe_packet (real_f64 (\<lambda>_. [])) extreme_probe 70010 70010 [1] c1 = None"
proof -
  let ?F = "real_f64 (\<lambda>_. [])" and ?c = "sample_measured (real_f64 (\<lambda>_. []))"
  let ?d = "in_state (\<lambda>st. st\<lparr>received_probes :=
      [\<lparr>rp_seq = 0, rp_sent_at_ms = 70000, rp_received_at_ms = 70000\<rparr>]\<rparr>) ?c"
  have "received_probes (ms_state ?c) = []"
    by (simp add: sample_measured_def new_measurement_state_def)
  then have "probe_received 70000 (the (extreme_probe [])) (ms_state ?c) = Some (ms_state ?d)"
    by (simp add: probe_received_def extreme_probe_def sub_checked_def prune_def)
  then have "handle_probe_packet ?F extreme_probe 70000 70000 [] ?c = calculate_metrics ?F 70000 ?d"
    by (simp add: handle_probe_packet_def extreme_probe_def) (simp add: sample_measured_def)
  moreover have "\<not> window_overflow 70000 60000 (ms_state ?d)"
    by (simp add: window_overflow_def sample_measured_def new_measurement_state_def
        recent_probes_def recent_echoed_probes_def recent_bulk_def recent_sent_bulk_def skewed_def
        saturating_sub_def)
  ultimately obtain c1 where 1: "handle_probe_packet ?F extreme_probe 70000 70000 [] ?c = Some c1"
    using calculate_metrics_None_iff by (metis not_None_eq)
  have "handle_probe_packet ?F extreme_probe 70010 70010 [1] c1 = None"
  proof (rule metrics_panic_exactly [THEN conjunct2, rule_format])
    let ?p1 = "the (extreme_probe [])" and ?p2 = "the (extreme_probe [1])"
    show "extreme_probe [] = Some ?p1 \<and> extreme_probe [1] = Some ?p2 \<and>
      pp_conn_id ?p1 = cs_conn_id ?c \<and> pp_conn_id ?p2 = cs_conn_id ?c \<and>
      pp_direction ?p1 = ClientToServer \<and> pp_direction ?p2 = ClientToServer \<and>
      pp_seq ?p1 = 0 \<and> pp_seq ?p2 = - 1 \<and> (70000 :: u64) \<le> 70010 \<and>
      unat (70010 :: u64) \<le> unat (70000 :: u64) + 60000 \<and>
      handle_probe_packet ?F extreme_probe 70000 70000 [] ?c = Some c1"
      using 1 by (simp add: extreme_probe_def sample_measured_def)
  qed
  with 1 show ?thesis by blast
qed

end
