(* ===== verification/Session_Runs.thy ===== *)
theory Session_Runs
  imports Data_Channels Measurement_Metrics
begin

text \<open>
  What holds of a session over every run of its host: the index of sent probes is exact and
  every echo is paired with the true time of sending, the measuring time of a magic key is
  kept, and messages of other connections change nothing.
\<close>

subsection \<open>The index of sent probes\<close>

text \<open>
  A view is the next number, the queue of sent probes, the map beside it and the echoes: once
  for probes and once for test probes. A step of a view is labelled with the probes that it
  sends, as number and time.
\<close>

type_synonym probe_view = "u64 \<times> SentProbe list \<times> (u64 \<rightharpoonup> SentProbe) \<times> EchoedProbe list"

definition pview :: "'f MeasurementState \<Rightarrow> probe_view" where
  "pview st = (probe_seq st, sent_probes st, sent_probes_map st, echoed_probes st)"

definition tview :: "'f MeasurementState \<Rightarrow> probe_view" where
  "tview st = (testprobe_seq st, sent_testprobes st, sent_testprobes_map st, echoed_testprobes st)"

definition lview :: "'f MeasurementState \<Rightarrow> nat option \<times> nat option" where
  "lview st = (probe_streams_started_at st, max_measuring_duration st)"

lemmas view_defs = pview_def tview_def lview_def

inductive view_step :: "probe_view \<Rightarrow> (u64 \<times> u64) list \<Rightarrow> probe_view \<Rightarrow> bool" where
  same: "view_step v [] v"
| clear: "view_step (s, q, m, e) [] (s, [], Map.empty, [])"
| echo: "m k = Some p \<Longrightarrow>
    view_step (s, q, m, e) []
      (s, q, m, prune ep_echoed_at_ms cutoff (e @ [\<lparr>ep_seq = k, ep_sent_at_ms = sp_sent_at_ms p, ep_echoed_at_ms = x\<rparr>]))"
| send: "add_checked s 1 = Some s' \<Longrightarrow>
    prune_sent cutoff (q @ [\<lparr>sp_seq = s, sp_sent_at_ms = now\<rparr>]) (m(s \<mapsto> \<lparr>sp_seq = s, sp_sent_at_ms = now\<rparr>)) = (q', m') \<Longrightarrow>
    view_step (s, q, m, e) [(s, now)] (s', q', m', e)"

inductive_cases view_stepE: "view_step v l v'"

definition view_ok :: "(u64 \<Rightarrow> u64) \<Rightarrow> probe_view \<Rightarrow> bool" where
  "view_ok sent_at = (\<lambda>(s, q, m, e).
     m = map_of (map (\<lambda>p. (sp_seq p, p)) q) \<and> distinct (map sp_seq q) \<and>
     (\<forall>p \<in> set q. sp_seq p < s \<and> sp_sent_at_ms p = sent_at (sp_seq p)) \<and>
     (\<forall>p \<in> set e. ep_seq p < s \<and> ep_sent_at_ms p = sent_at (ep_seq p)))"

lemma prune_sent_index:
  assumes "prune_sent cutoff q m = (q', m')" and "distinct (map sp_seq q)"
    and "m = map_of (map (\<lambda>p. (sp_seq p, p)) q)"
  shows "m' = map_of (map (\<lambda>p. (sp_seq p, p)) q') \<and> (\<exists>d. q = d @ q')"
  using assms
proof (induction cutoff q m rule: prune_sent.induct)
  case (2 cutoff p ps m)
  show ?case
  proof (cases "sp_sent_at_ms p < cutoff")
    case True
    have "map_of (map (\<lambda>p. (sp_seq p, p)) ps) (sp_seq p) = None"
      using 2(3) by (simp add: map_of_eq_None_iff image_image)
    then have "m(sp_seq p := None) = map_of (map (\<lambda>p. (sp_seq p, p)) ps)"
      using 2(4) by (auto simp: fun_eq_iff)
    moreover have "prune_sent cutoff ps (m(sp_seq p := None)) = (q', m')" "distinct (map sp_seq ps)"
      using 2(2,3) True by simp_all
    ultimately have "m' = map_of (map (\<lambda>p. (sp_seq p, p)) q')" "\<exists>d. ps = d @ q'"
      using 2(1) [OF True] by blast+
    then show ?thesis by (auto intro: exI [of _ "p # _"])
  next
    case False
    with 2 show ?thesis by auto
  qed
qed auto

lemma add_checked_one_less: "add_checked s 1 = Some s' \<Longrightarrow> s < (s' :: u64) \<and> (\<forall>k. k < s' \<longrightarrow> k < s \<or> k = s)"
  by (drule add_checked_Some) (auto simp: word_less_nat_alt word_unat_eq_iff)

lemma view_step_ok:
  assumes "view_step v l v'" and "view_ok \<tau> v"
  shows "\<exists>\<tau>'. view_ok \<tau>' v' \<and> (\<forall>k < fst v. \<tau>' k = \<tau> k) \<and> fst v \<le> fst v' \<and>
    (\<forall>(k, t) \<in> set l. k < fst v' \<and> \<tau>' k = t)"
  using assms
proof (cases rule: view_step.cases)
  case (echo m k p s q e cutoff x)
  have "p \<in> set q \<and> sp_seq p = k"
    using echo(4) assms(2) echo(1) by (auto simp: view_ok_def dest: map_of_SomeD)
  moreover have "set (prune ep_echoed_at_ms cutoff xs) \<subseteq> set xs" for xs
    by (auto simp: prune_def dest: set_dropWhileD)
  ultimately have "view_ok \<tau> v'"
    using assms(2) echo(1,3) unfolding view_ok_def by fastforce
  then show ?thesis using echo by auto
next
  case (send s s' cutoff q now m q' m' e)
  let ?p = "\<lparr>sp_seq = s, sp_sent_at_ms = now\<rparr>" and ?\<tau> = "\<tau>(s := now)"
  have old: "m = map_of (map (\<lambda>p. (sp_seq p, p)) q)" "distinct (map sp_seq q)"
    "\<forall>p \<in> set q. sp_seq p < s \<and> sp_sent_at_ms p = \<tau> (sp_seq p)"
    "\<forall>p \<in> set e. ep_seq p < s \<and> ep_sent_at_ms p = \<tau> (ep_seq p)"
    using assms(2) send(1) by (auto simp: view_ok_def)
  have less: "s < s'" using add_checked_one_less [OF send(4)] by blast
  have d: "distinct (map sp_seq (q @ [?p]))" using old(2,3) by auto
  moreover have "m(s \<mapsto> ?p) = map_of (map (\<lambda>p. (sp_seq p, p)) (q @ [?p]))"
  proof -
    have "m s = None" using old(1,3) by (auto simp: map_of_eq_None_iff)
    then show ?thesis by (auto simp: old(1) fun_eq_iff map_add_def split: option.splits)
  qed
  ultimately obtain r where r: "m' = map_of (map (\<lambda>p. (sp_seq p, p)) q')" "q @ [?p] = r @ q'"
    using prune_sent_index [OF send(5)] by blast
  have "set q' \<subseteq> set (q @ [?p])" by (simp only: r(2)) auto
  moreover have "distinct (map sp_seq q')" using d unfolding r(2) by simp
  ultimately have "view_ok ?\<tau> (s', q', m', e)"
    using r(1) old(3,4) less unfolding view_ok_def by fastforce
  then show ?thesis using send(1-3) less by (intro exI [of _ ?\<tau>]) auto
qed (auto simp: view_ok_def)

subsection \<open>What the operations change\<close>

definition probes_of :: "'f out list \<Rightarrow> (u64 \<times> u64) list" where
  "probes_of outs = List.map_filter
     (\<lambda>out. case out of OutProbe p \<Rightarrow> Some (pp_seq p, pp_timestamp_ms p) | _ \<Rightarrow> None) outs"

definition measurements_of :: "'f out list \<Rightarrow> MeasurementProbePacket list" where
  "measurements_of outs = List.map_filter (\<lambda>out. case out of OutMeasurement p \<Rightarrow> Some p | _ \<Rightarrow> None) outs"

lemma outs_simps [simp]:
  "probes_of [] = []" "probes_of (xs @ ys) = probes_of xs @ probes_of ys"
  "probes_of (x # xs) = (case x of OutProbe p \<Rightarrow> [(pp_seq p, pp_timestamp_ms p)] | _ \<Rightarrow> []) @ probes_of xs"
  "measurements_of [] = []" "measurements_of (xs @ ys) = measurements_of xs @ measurements_of ys"
  "measurements_of (x # xs) = (case x of OutMeasurement p \<Rightarrow> [p] | _ \<Rightarrow> []) @ measurements_of xs"
  by (simp_all add: probes_of_def measurements_of_def List.map_filter_def split: out.splits)

text \<open>
  The change of a session by an operation: a step of each view, the limit of the measuring
  time untouched, and the fields that are fixed for a session.
\<close>

definition session_change ::
  "'f MeasuredSession \<Rightarrow> (u64 \<times> u64) list \<Rightarrow> 'f MeasuredSession \<Rightarrow> bool" where
  "session_change c l c' \<longleftrightarrow>
     view_step (pview (ms_state c)) l (pview (ms_state c')) \<and>
     (\<exists>k. view_step (tview (ms_state c)) k (tview (ms_state c'))) \<and>
     lview (ms_state c') = lview (ms_state c) \<and> cs_conn_id c' = cs_conn_id c"

lemma change_views_same:
  "pview (ms_state c') = pview (ms_state c) \<Longrightarrow> tview (ms_state c') = tview (ms_state c) \<Longrightarrow>
   lview (ms_state c') = lview (ms_state c) \<Longrightarrow> cs_conn_id c' = cs_conn_id c \<Longrightarrow> session_change c [] c'"
  by (auto simp: session_change_def intro: view_step.same)

lemma calculate_metrics_state:
  "calculate_metrics F now c = Some c' \<Longrightarrow> ms_state c' = ms_state c \<and> cs_conn_id c' = cs_conn_id c"
  by (auto simp: calculate_metrics_def bind_eq_Some_conv)

lemma change_probe_sender:
  assumes "start_probe_sender now ok c = Some (g, c', outs)"
  shows "\<exists>l. session_change c l c' \<and> set (probes_of outs) \<subseteq> set l \<and> measurements_of outs = []"
proof (cases "traffic_active (ms_state c) \<and> dc_probe (ms_data_channels c) = Some Opened")
  case False
  then have "c' = c" "outs = []"
    using assms by (cases "traffic_active (ms_state c)"; simp add: start_probe_sender_def Let_def)+
  then show ?thesis by (intro exI [of _ "[]"]) (simp add: change_views_same)
next
  case True
  let ?st = "ms_state c" and ?p = "\<lparr>sp_seq = probe_seq (ms_state c), sp_sent_at_ms = now\<rparr>"
  obtain s' where s': "add_checked (probe_seq ?st) 1 = Some s'"
    using assms True by (cases "add_checked (probe_seq ?st) 1") (simp_all add: start_probe_sender_def Let_def)
  obtain k where k: "sub_checked now 60000 = Some k"
    using assms True s' by (cases "sub_checked now 60000") (simp_all add: start_probe_sender_def Let_def)
  obtain q m where qm: "prune_sent k (sent_probes ?st @ [?p]) ((sent_probes_map ?st)(probe_seq ?st \<mapsto> ?p)) = (q, m)"
    by fastforce
  have c': "c' = c\<lparr>ms_state := ?st\<lparr>probe_seq := s', sent_probes := q, sent_probes_map := m\<rparr>\<rparr>"
    using assms True s' k qm by (simp add: start_probe_sender_def Let_def)
  have outs: "set (probes_of outs) \<subseteq> {(probe_seq ?st, now)}" "measurements_of outs = []"
    using assms True s' k qm by (cases ok; auto simp: start_probe_sender_def Let_def)+
  have "view_step (pview ?st) [(probe_seq ?st, now)] (pview (ms_state c'))"
    unfolding pview_def using view_step.send [OF s' qm] by (simp add: c')
  moreover have "tview (ms_state c') = tview ?st" "lview (ms_state c') = lview ?st"
    by (simp_all add: c' view_defs)
  ultimately show ?thesis
    using c' outs by (intro exI [of _ "[(probe_seq ?st, now)]"])
      (auto simp: session_change_def intro: view_step.same)
qed

lemma change_bulk_sender:
  "start_bulk_sender enc now ok c = Some (g, c', outs) \<Longrightarrow>
   session_change c [] c' \<and> probes_of outs = [] \<and> measurements_of outs = []"
  by (auto simp: start_bulk_sender_def Let_def bind_eq_Some_conv view_defs intro!: change_views_same split: if_splits)

lemma change_measurement_sender:
  "start_measurement_probe_sender now t ok c = Some (g, c', outs) \<Longrightarrow>
   session_change c [] c' \<and> probes_of outs = [] \<and>
   (measuring_time_over now (ms_state c) \<longrightarrow> measurements_of outs = [])"
  by (auto simp: start_measurement_probe_sender_def Let_def bind_eq_Some_conv view_defs
      intro!: change_views_same split: if_splits)

lemma change_reporter:
  "start_probe_stats_reporter F now s t c = Some (g, c', outs) \<Longrightarrow>
   session_change c [] c' \<and> probes_of outs = [] \<and> measurements_of outs = []"
  by (auto simp: start_probe_stats_reporter_def Let_def bind_eq_Some_conv view_defs
      intro!: change_views_same split: if_splits)

lemma change_probe_packet:
  assumes "handle_probe_packet F parse now mt msg c = Some c'"
  shows "session_change c [] c'"
proof (cases "parse msg")
  case None
  then show ?thesis using assms by (simp add: handle_probe_packet_def change_views_same)
next
  case (Some p)
  show ?thesis
  proof (cases "pp_conn_id p = cs_conn_id c")
    case True
    then obtain st where st: "probe_received now p (ms_state c) = Some st"
        "ms_state c' = st" "cs_conn_id c' = cs_conn_id c"
      using assms Some calculate_metrics_state
      by (fastforce simp: handle_probe_packet_def bind_eq_Some_conv)
    have "view_step (pview (ms_state c)) [] (pview st)"
      using st(1) by (auto simp: probe_received_def pview_def bind_eq_Some_conv
          split: if_splits option.splits intro: view_step.intros)
    moreover have "tview st = tview (ms_state c)" "lview st = lview (ms_state c)"
      using st(1) by (auto simp: probe_received_def view_defs bind_eq_Some_conv split: if_splits option.splits)
    ultimately show ?thesis
      using st(2,3) by (auto simp: session_change_def intro: view_step.same)
  qed (use assms Some in \<open>simp add: handle_probe_packet_def change_views_same\<close>)
qed

lemma change_bulk_packet:
  assumes "handle_bulk_packet F now mt msg c = Some c'"
  shows "session_change c [] c'"
proof -
  obtain k where k: "sub_checked now 60000 = Some k"
    using assms by (cases "sub_checked now 60000") (simp_all add: handle_bulk_packet_def)
  let ?d = "c\<lparr>ms_state := (ms_state c)\<lparr>received_bulk_bytes := prune rb_received_at_ms k
      (received_bulk_bytes (ms_state c) @ [\<lparr>rb_bytes = of_nat (length msg), rb_received_at_ms = now\<rparr>])\<rparr>\<rparr>"
  have "calculate_metrics F mt ?d = Some c'"
    using assms k by (simp add: handle_bulk_packet_def Let_def)
  from calculate_metrics_state [OF this] show ?thesis
    by (intro change_views_same) (simp_all add: view_defs)
qed

lemma update_baseline_views:
  "update_baseline F d st = Some st' \<Longrightarrow> pview st' = pview st \<and> tview st' = tview st \<and> lview st' = lview st"
  by (auto simp: update_baseline_def Let_def bind_eq_Some_conv view_defs split: if_splits)

lemma change_measurement_packet:
  assumes "handle_measurement_probe_packet F parse now msg c = Some c'"
  shows "session_change c [] c'"
proof -
  show ?thesis
  proof (cases "parse msg")
    case None
    then show ?thesis using assms by (simp add: handle_measurement_probe_packet_def change_views_same)
  next
    case (Some p)
    show ?thesis
    proof (cases "mp_conn_id p = cs_conn_id c \<and> probe_streams_active (ms_state c)")
      case False
      then have "c' = c"
        using assms Some by (cases "mp_conn_id p = cs_conn_id c"; cases "i64_diff now (mp_sent_at_ms p)")
          (simp_all add: handle_measurement_probe_packet_def)
      then show ?thesis by (simp add: change_views_same)
    next
      case True
      obtain d where d: "i64_diff now (mp_sent_at_ms p) = Some d"
        using assms Some True by (cases "i64_diff now (mp_sent_at_ms p)") (simp_all add: handle_measurement_probe_packet_def)
      let ?new = "(ms_state c)\<lparr>received_measurement_probes := received_measurement_probes (ms_state c) @
        [\<lparr>rm_seq = mp_seq p, rm_sent_at_ms = mp_sent_at_ms p, rm_received_at_ms = now, rm_feedback = mp_feedback p\<rparr>]\<rparr>"
      obtain st where st: "update_baseline F (f_of_i64 F d) ?new = Some st"
        using assms Some True d by (cases "update_baseline F (f_of_i64 F d) ?new")
          (simp_all add: handle_measurement_probe_packet_def Let_def)
      obtain n r where "c' = c\<lparr>ms_state := st\<lparr>received_measurement_probes :=
            prune rm_received_at_ms (saturating_sub now PROBE_STATS_WINDOW_MS) (received_measurement_probes st),
          last_feedback := (last_feedback st)\<lparr>highest_seq := max (highest_seq (last_feedback st)) (mp_seq p),
            highest_seq_received_at_ms := now, recent_count := n, recent_reorders := r\<rparr>\<rparr>\<rparr>"
        using assms Some True d st
        by (cases "feedback_counts (saturating_sub now PROBE_FEEDBACK_WINDOW_MS) 0 0 0
              (prune rm_received_at_ms (saturating_sub now PROBE_STATS_WINDOW_MS) (received_measurement_probes st))")
          (auto simp: handle_measurement_probe_packet_def Let_def)
      then show ?thesis
        using update_baseline_views [OF st] by (intro change_views_same) (simp_all add: view_defs)
    qed
  qed
qed

lemma testprobe_echo_cases:
  assumes "handle_testprobe_echo_packet now p c = Some c'"
  obtains "c' = c"
  | hops where "c' = c\<lparr>ms_state := (ms_state c)\<lparr>path_ttl := Some hops\<rparr>\<rparr>"
  | sent k where "sent_testprobes_map (ms_state c) (tpp_test_seq p) = Some sent"
    "c' = c\<lparr>ms_state := (ms_state c)\<lparr>echoed_testprobes := prune ep_echoed_at_ms k
       (echoed_testprobes (ms_state c) @ [\<lparr>ep_seq = tpp_test_seq p, ep_sent_at_ms = sp_sent_at_ms sent,
          ep_echoed_at_ms = tpp_timestamp_ms p\<rparr>])\<rparr>\<rparr>"
proof (cases "tpp_conn_id p \<noteq> cs_conn_id c \<or> tpp_direction p \<noteq> ServerToClient")
  case True
  then have "c' = c" using assms by (cases "tpp_conn_id p = cs_conn_id c") (simp_all add: handle_testprobe_echo_packet_def Let_def)
  then show ?thesis by (rule that(1))
next
  case own: False
  show ?thesis
  proof (cases "Option.bind (tpp_send_options p) ttl")
    case (Some hops)
    then have c': "c' = (if path_ttl (ms_state c) = None
        then c\<lparr>ms_state := (ms_state c)\<lparr>path_ttl := Some hops\<rparr>\<rparr> else c)"
      using assms own by (simp add: handle_testprobe_echo_packet_def Let_def)
    show ?thesis
      by (cases "path_ttl (ms_state c) = None") (rule that(2) [of hops], simp add: c', rule that(1), simp add: c')
  next
    case none: None
    show ?thesis
    proof (cases "sent_testprobes_map (ms_state c) (tpp_test_seq p)")
      case None
      then have "c' = c" using assms own none by (simp add: handle_testprobe_echo_packet_def Let_def)
      then show ?thesis by (rule that(1))
    next
      case (Some sent)
      obtain k where k: "sub_checked now 60000 = Some k"
        using assms own none Some by (cases "sub_checked now 60000") (simp_all add: handle_testprobe_echo_packet_def Let_def)
      show ?thesis
        by (rule that(3) [OF Some, of k]) (use assms own none Some k in \<open>simp add: handle_testprobe_echo_packet_def Let_def\<close>)
    qed
  qed
qed

lemma change_testprobe_echo:
  assumes "handle_testprobe_echo_packet now p c = Some c'"
  shows "session_change c [] c'"
  using assms
proof (cases rule: testprobe_echo_cases)
  case 1
  then show ?thesis by (simp add: change_views_same)
next
  case (2 hops)
  then show ?thesis by (intro change_views_same) (simp_all add: view_defs)
next
  case (3 sent k)
  have "view_step (tview (ms_state c)) [] (tview (ms_state c'))"
    unfolding tview_def
    using view_step.echo [where m = "sent_testprobes_map (ms_state c)" and k = "tpp_test_seq p", OF 3(1)]
    by (simp add: 3(2))
  moreover have "pview (ms_state c') = pview (ms_state c)" "lview (ms_state c') = lview (ms_state c)"
    by (simp_all add: 3(2) view_defs)
  ultimately show ?thesis
    using 3(2) by (auto simp: session_change_def intro: view_step.same)
qed

lemma track_testprobe_views:
  assumes "track_testprobe now st = Some (q, st')"
  shows "\<exists>k. view_step (tview st) k (tview st')" and "pview st' = pview st" and "lview st' = lview st"
proof -
  let ?p = "\<lparr>sp_seq = testprobe_seq st, sp_sent_at_ms = now\<rparr>"
  obtain s' where s': "add_checked (testprobe_seq st) 1 = Some s'"
    using assms by (cases "add_checked (testprobe_seq st) 1") (simp_all add: track_testprobe_def Let_def)
  obtain k where k: "sub_checked now 60000 = Some k"
    using assms s' by (cases "sub_checked now 60000") (simp_all add: track_testprobe_def Let_def)
  obtain r m where rm: "prune_sent k (sent_testprobes st @ [?p]) ((sent_testprobes_map st)(testprobe_seq st \<mapsto> ?p)) = (r, m)"
    by fastforce
  have st': "st' = st\<lparr>testprobe_seq := s', sent_testprobes := r, sent_testprobes_map := m\<rparr>"
    using assms s' k rm by (simp add: track_testprobe_def Let_def)
  show "\<exists>k. view_step (tview st) k (tview st')"
    unfolding tview_def using view_step.send [OF s' rm] by (auto simp: st')
  show "pview st' = pview st" "lview st' = lview st" by (simp_all add: st' view_defs)
qed

lemma change_track:
  "track_testprobe now (ms_state c) = Some (q, st) \<Longrightarrow> session_change c [] (c\<lparr>ms_state := st\<rparr>)"
  using track_testprobe_views [of now "ms_state c" q st] by (auto simp: session_change_def intro: view_step.same)

lemma hops_silent:
  "map_checked (trace_hop F sv) evs = Some outs \<Longrightarrow> probes_of outs = [] \<and> measurements_of outs = []"
  "map_checked (mtu_hop F sv) evs = Some outs \<Longrightarrow> probes_of outs = [] \<and> measurements_of outs = []"
  by (induction evs arbitrary: outs)
    (auto simp: trace_hop_def mtu_hop_def bind_eq_Some_conv Let_def split: if_splits)

lemma drain_silent:
  "drain_traceroute_events F conn sv t = Some (k, t', outs) \<Longrightarrow> probes_of outs = [] \<and> measurements_of outs = []"
  "drain_mtu_events F conn sv t = Some (t', outs) \<Longrightarrow> probes_of outs = [] \<and> measurements_of outs = []"
  by (auto simp: drain_traceroute_events_def drain_mtu_events_def drain_events_for_conn_id_eq bind_eq_Some_conv
      dest: hops_silent)

abbreviation silent :: "'f out list \<Rightarrow> bool" where
  "silent outs \<equiv> probes_of outs = [] \<and> measurements_of outs = []"

lemma change_traceroute:
  assumes "run_single_traceroute_round F enc now ok pc (c, t) = Some (r, (c', t'), outs)"
  shows "session_change c [] c' \<and> silent outs"
proof (cases pc)
  case TraceStart
  then show ?thesis using assms
    by (auto simp: run_single_traceroute_round_def intro: change_views_same split: if_splits)
next
  case (TraceSend sv hop n)
  show ?thesis
  proof (cases "16 < hop \<or> dc_testprobe (ms_data_channels c) \<noteq> Some Opened")
    case True
    then show ?thesis using assms TraceSend
      by (cases "16 < hop") (auto simp: run_single_traceroute_round_def intro: change_views_same)
  next
    case False
    then obtain q st where st: "track_testprobe now (ms_state c) = Some (q, st)"
      using assms TraceSend
      by (cases "track_testprobe now (ms_state c)") (auto simp: run_single_traceroute_round_def)
    have "c' = c\<lparr>ms_state := st\<rparr> \<and> silent outs"
      using assms TraceSend False st by (cases ok) (auto simp: run_single_traceroute_round_def Let_def)
    then show ?thesis using change_track [OF st] by simp
  qed
next
  case (TraceSlept sv hop n)
  then show ?thesis using assms
    by (auto simp: run_single_traceroute_round_def bind_eq_Some_conv dest: drain_silent(1) intro: change_views_same)
next
  case (TraceDrain sv rounds n)
  then show ?thesis using assms
    by (auto simp: run_single_traceroute_round_def bind_eq_Some_conv dest: drain_silent(1) intro: change_views_same)
next
  case (TraceWait sv rounds n)
  then show ?thesis using assms
    by (auto simp: run_single_traceroute_round_def intro: change_views_same split: if_splits)
qed

lemma change_mtu:
  assumes "run_mtu_traceroute_round F enc psize max_ttl collect now ok pc (c, t) = Some (r, (c', t'), outs)"
  shows "session_change c [] c' \<and> silent outs"
proof (cases pc)
  case MtuStart
  then show ?thesis using assms
    by (auto simp: run_mtu_traceroute_round_def intro: change_views_same split: if_splits)
next
  case (MtuSend sv hop)
  show ?thesis
  proof (cases "sint max_ttl \<le> hop \<or> dc_testprobe (ms_data_channels c) \<noteq> Some Opened")
    case True
    then show ?thesis using assms MtuSend
      by (cases "sint max_ttl \<le> hop") (auto simp: run_mtu_traceroute_round_def intro: change_views_same)
  next
    case False
    then obtain q st where st: "track_testprobe now (ms_state c) = Some (q, st)"
      using assms MtuSend
      by (cases "track_testprobe now (ms_state c)") (auto simp: run_mtu_traceroute_round_def)
    obtain n where n: "mtu_target_len psize (cs_ip_version c) = Some n"
      using assms MtuSend False st
      by (cases "mtu_target_len psize (cs_ip_version c)") (simp_all add: run_mtu_traceroute_round_def Let_def)
    have "c' = c\<lparr>ms_state := st\<rparr> \<and> silent outs"
      using assms MtuSend False st n by (cases ok) (auto simp: run_mtu_traceroute_round_def Let_def)
    then show ?thesis using change_track [OF st] by simp
  qed
next
  case (MtuSlept sv hop)
  then show ?thesis using assms
    by (auto simp: run_mtu_traceroute_round_def bind_eq_Some_conv dest: drain_silent(2) intro: change_views_same)
next
  case (MtuDrain sv rounds)
  then obtain t1 outs1 where d: "drain_mtu_events F (cs_conn_id c) sv t = Some (t1, outs1)"
    using assms by (cases "drain_mtu_events F (cs_conn_id c) sv t") (auto simp: run_mtu_traceroute_round_def)
  then show ?thesis using assms MtuDrain drain_silent(2) [OF d]
    by (cases "rounds = 0") (auto simp: run_mtu_traceroute_round_def intro: change_views_same)
next
  case (MtuWait sv rounds)
  then show ?thesis using assms
    by (auto simp: run_mtu_traceroute_round_def intro: change_views_same)
qed

subsection \<open>Steps of the host\<close>

text \<open>
  The change of a host: a step of both views, the messages that went out, among them only
  probes of the step, the limit of the measuring time if it is kept, and measurement probes
  only where they may be sent.
\<close>

definition host_change :: "bool \<Rightarrow> bool \<Rightarrow> ('f, 's) host \<Rightarrow> ('f, 's) host \<Rightarrow> bool" where
  "host_change keep may_send h h' \<longleftrightarrow>
     (\<exists>l k outs. view_step (pview (ms_state (h_session h))) l (pview (ms_state (h_session h'))) \<and>
        view_step (tview (ms_state (h_session h))) k (tview (ms_state (h_session h'))) \<and>
        h_out h' = h_out h @ outs \<and> set (probes_of outs) \<subseteq> set l \<and>
        (may_send \<or> measurements_of outs = [])) \<and>
     (keep \<longrightarrow> lview (ms_state (h_session h')) = lview (ms_state (h_session h))) \<and>
     cs_conn_id (h_session h') = cs_conn_id (h_session h)"

lemma host_changeI:
  assumes "session_change (h_session h) l (h_session h')" and "h_out h' = h_out h @ outs"
    and "set (probes_of outs) \<subseteq> set l" and "may \<or> measurements_of outs = []"
  shows "host_change keep may h h'"
  using assms unfolding host_change_def session_change_def by blast

lemma host_change_quiet:
  assumes "session_change (h_session h) [] (h_session h')" and "h_out h' = h_out h"
  shows "host_change keep may h h'"
  using assms by (intro host_changeI [of h "[]" h' "[]"]) auto

lemma host_change_weak: "host_change True False h h' \<Longrightarrow> host_change keep may h h'"
  unfolding host_change_def by blast

lemma change_refl [simp]: "session_change c [] c"
  by (rule change_views_same) simp_all

lemma host_same:
  assumes "ms_state (h_session h') = ms_state (h_session h)" and "cs_conn_id (h_session h') = cs_conn_id (h_session h)"
    and "h_out h' = h_out h @ outs" and "silent outs"
  shows "host_change keep may h h'"
  using assms by (intro host_changeI [of h "[]" h' outs] change_views_same) auto

lemma survey_frames [simp]:
  "h_session (announce_ready h) = h_session h"
  "h_session (record_survey m h) = h_session h"
  "h_session (register_capture sv h) = h_session h" "h_out (register_capture sv h) = h_out h"
  "h_session (capture_keys ck sv h) = h_session h" "h_out (capture_keys ck sv h) = h_out h"
  "ms_state (store_survey m c) = ms_state c" "cs_conn_id (store_survey m c) = cs_conn_id c"
  by (auto simp: announce_ready_def record_survey_def register_capture_def capture_keys_def store_survey_def
      emit_def Let_def split: option.splits prod.splits)

lemma announce_out: "\<exists>outs. h_out (announce_ready h) = h_out h @ outs \<and> silent outs"
  by (simp add: announce_ready_def emit_def server_side_ready_def)

lemma record_out: "\<exists>outs. h_out (record_survey m h) = h_out h @ outs \<and> silent outs"
  by (simp add: record_survey_def emit_def)

lemma start_survey_frame:
  "ms_state (h_session (start_survey_session ck m h)) = ms_state (h_session h)"
  "cs_conn_id (h_session (start_survey_session ck m h)) = cs_conn_id (h_session h)"
  "\<exists>outs. h_out (start_survey_session ck m h) = h_out h @ outs \<and> silent outs"
proof -
  let ?h1 = "on_session (store_survey m) h"
  obtain o1 where o1: "h_out (record_survey m ?h1) = h_out ?h1 @ o1" "silent o1" using record_out by blast
  obtain o2 where o2: "h_out (start_survey_session ck m h) = h_out (record_survey m ?h1) @ o2" "silent o2"
    unfolding start_survey_session_def
    using announce_out [of "capture_keys ck (sm_survey_session_id m)
        (register_capture (sm_survey_session_id m) (record_survey m ?h1))"] by auto
  show "\<exists>outs. h_out (start_survey_session ck m h) = h_out h @ outs \<and> silent outs"
    using o1 o2 by (intro exI [of _ "o1 @ o2"]) (simp add: on_session_def)
qed (simp_all add: start_survey_session_def on_session_def)

lemma set_survey_frame [simp]:
  "ms_state (set_survey sv c) = ms_state c" "cs_conn_id (set_survey sv c) = cs_conn_id c"
  by (simp_all add: set_survey_def)

fun starts_streams :: "'f ControlMessage \<Rightarrow> bool" where
  "starts_streams (StartProbeStreams _) = True"
| "starts_streams _ = False"

lemma clear_views:
  assumes "pview st' = (probe_seq st, [], Map.empty, [])" and "tview st' = tview st" and "lview st' = lview st"
    and "ms_state (h_session h) = st" and "ms_state (h_session h') = st'"
    and "cs_conn_id (h_session h') = cs_conn_id (h_session h)" and "h_out h' = h_out h"
  shows "host_change keep may h h'"
proof (rule host_change_quiet)
  have "view_step (pview st) [] (pview st')"
    unfolding assms(1) by (simp add: pview_def view_step.clear)
  then show "session_change (h_session h) [] (h_session h')"
    using assms by (auto simp: session_change_def intro: view_step.same)
qed (rule assms(7))

lemma control_action_change:
  assumes "control_action F ck m h = Some h'"
  shows "host_change (\<not> starts_streams m) False h h'"
proof (cases m)
  case (TestProbeMessageEcho p)
  then obtain c where c: "handle_testprobe_echo_packet (ck_ms ck) p (h_session h) = Some c" "h' = h\<lparr>h_session := c\<rparr>"
    using assms by (auto simp: bind_eq_Some_conv)
  then show ?thesis using change_testprobe_echo [OF c(1)] by (intro host_change_quiet) simp_all
next
  case (StartSurveySession x)
  obtain outs where outs: "h_out (start_survey_session ck x h) = h_out h @ outs" "silent outs"
    using start_survey_frame(3) by blast
  have "h' = start_survey_session ck x h" using StartSurveySession assms by simp
  then show ?thesis
    by (intro host_same [where outs = outs]) (simp_all add: start_survey_frame outs)
next
  case (StartTraceroute x)
  then show ?thesis using assms
    by (intro host_same [where outs = "[]"]) (auto simp: spawn_def on_session_def)
next
  case (StartMtuTraceroute x)
  then show ?thesis using assms
    by (intro host_same [where outs = "[]"]) (auto simp: spawn_def on_session_def)
next
  case (GetMeasuringTime x)
  then obtain outs where "h_out h' = h_out h @ outs" "silent outs" "h_session h' = h_session h"
    using assms by (auto simp: get_measuring_time_def Let_def bind_eq_Some_conv emit_def split: if_splits)
  then show ?thesis by (intro host_same [where outs = outs]) simp_all
next
  case (StartServerTraffic x)
  then show ?thesis using assms
    by (intro clear_views [OF _ _ _ refl refl])
      (auto simp: start_server_traffic_def spawn_def on_session_def clear_measurements_def view_defs Let_def)
next
  case (StopTraceroute x)
  then show ?thesis using assms
    by (intro clear_views [OF _ _ _ refl refl])
      (auto simp: on_session_def clear_measurements_def view_defs)
next
  case (StopServerTraffic x)
  then show ?thesis using assms
    by (intro host_change_quiet change_views_same) (auto simp: on_session_def view_defs)
next
  case (StopProbeStreams x)
  then show ?thesis using assms
    by (intro host_change_quiet change_views_same) (auto simp: on_session_def view_defs)
next
  case (ProbeStats x)
  then show ?thesis using assms
    by (intro host_change_quiet change_views_same) (auto simp: on_session_def view_defs)
next
  case (StartProbeStreams x)
  then have h': "h' = start_probe_streams F ck (sm_survey_session_id x) h" using assms by simp
  have "pview (ms_state (h_session h')) = pview (ms_state (h_session h))"
    "tview (ms_state (h_session h')) = tview (ms_state (h_session h))"
    "cs_conn_id (h_session h') = cs_conn_id (h_session h)" "h_out h' = h_out h"
    by (simp_all add: h' start_probe_streams_def spawn_def on_session_def view_defs Let_def)
  then show ?thesis
    unfolding host_change_def using StartProbeStreams
    by (auto intro: view_step.same exI [of _ "[]"])
qed (use assms in \<open>simp_all add: host_same [where outs = "[]"]\<close>)

lemma control_message_change:
  assumes "handle_control_message F W ck msg h = Some h'"
  shows "host_change (\<forall>m. parse_control W msg = Some m \<and> starts_streams m \<longrightarrow>
    conn_of m \<noteq> Some (cs_conn_id (h_session h))) False h h'"
proof (cases "\<exists>m. parse_control W msg = Some m \<and> conn_of m = Some (cs_conn_id (h_session h))")
  case True
  then obtain m where m: "parse_control W msg = Some m" "conn_of m = Some (cs_conn_id (h_session h))" by blast
  have "control_action F ck m h = Some h'"
    using assms m by (auto simp: handle_control_message_def bind_eq_Some_conv)
  from control_action_change [OF this] show ?thesis
    using m by (auto simp: host_change_def)
next
  case False
  then have "h' = h"
    using assms by (auto simp: handle_control_message_def bind_eq_Some_conv split: option.splits if_splits)
  then show ?thesis by (simp add: host_same [where outs = "[]"])
qed

lemma message_change:
  assumes "handle_message F W ck channel msg h = Some h'"
  shows "host_change (channel = ''control'' \<longrightarrow> (\<forall>m. parse_control W msg = Some m \<and> starts_streams m \<longrightarrow>
    conn_of m \<noteq> Some (cs_conn_id (h_session h)))) False h h'"
proof -
  have on_c: "host_change keep may h h'"
    if "(do { c \<leftarrow> f (h_session h); Some (h\<lparr>h_session := c\<rparr>) }) = Some h'"
      "\<And>c. f (h_session h) = Some c \<Longrightarrow> session_change (h_session h) [] c" for f keep may
    using that by (auto simp: bind_eq_Some_conv intro!: host_change_quiet)
  have probe: "session_change c [] c'" if "handle_probe_message F W ck msg c = Some c'" for c c'
    using that by (auto simp: handle_probe_message_def dest: change_measurement_packet change_probe_packet split: if_splits)
  have test: "session_change c [] c'" if "handle_testprobe_packet (parse_testprobe W) (ck_ms ck) msg c = Some c'" for c c'
    using that by (auto simp: handle_testprobe_packet_def dest: change_testprobe_echo split: option.splits)
  consider "channel = ''probe''" | "channel = ''bulk''" | "channel = ''control''" | "channel = ''testprobe''"
    | "channel \<notin> {''probe'', ''bulk'', ''control'', ''testprobe''}" by blast
  then show ?thesis
  proof cases
    case 1
    then show ?thesis using assms probe by (intro on_c [of "handle_probe_message F W ck msg"]) (simp_all add: handle_message_def)
  next
    case 2
    then show ?thesis using assms change_bulk_packet
      by (intro on_c [of "handle_bulk_packet F (ck_ms ck) (ck_ms2 ck) msg"]) (simp_all add: handle_message_def)
  next
    case 3
    then show ?thesis using assms control_message_change [of F W ck msg h h'] by (simp add: handle_message_def)
  next
    case 4
    then show ?thesis using assms test
      by (intro on_c [of "handle_testprobe_packet (parse_testprobe W) (ck_ms ck) msg"]) (simp_all add: handle_message_def)
  next
    case 5
    then have "h' = h" using assms by (simp add: handle_message_def)
    then show ?thesis by (simp add: host_same [where outs = "[]"])
  qed
qed

lemma session_task_change:
  assumes "session_task turn tk h = Some (tk', h')"
    and "\<And>g c' outs. turn (h_session h) = Some (g, c', outs) \<Longrightarrow>
      \<exists>l. session_change (h_session h) l c' \<and> set (probes_of outs) \<subseteq> set l \<and> (may \<or> measurements_of outs = [])"
  shows "host_change keep may h h'"
proof -
  obtain g c' outs where t: "turn (h_session h) = Some (g, c', outs)" and h': "h' = emit outs (h\<lparr>h_session := c'\<rparr>)"
    using assms(1) by (auto simp: session_task_def bind_eq_Some_conv)
  from assms(2) [OF t] show ?thesis
    by (auto simp: h' emit_def intro!: host_changeI [of h _ _ outs])
qed

lemma tracker_task_change:
  assumes "tracker_task turn pc mk h = Some (tk', h')"
    and "\<And>r c' t' outs. turn pc (h_session h, h_tracker h) = Some (r, (c', t'), outs) \<Longrightarrow>
      session_change (h_session h) [] c' \<and> silent outs"
  shows "host_change keep may h h'"
proof -
  obtain r c' t' outs where t: "turn pc (h_session h, h_tracker h) = Some (r, (c', t'), outs)"
    and h': "h' = emit outs (h\<lparr>h_session := c', h_tracker := t'\<rparr>)"
    using assms(1) by (auto simp: tracker_task_def bind_eq_Some_conv)
  from assms(2) [OF t] show ?thesis
    by (auto simp: h' emit_def intro!: host_changeI [of h "[]" _ outs])
qed

lemma task_turn_change:
  assumes "task_turn F W ck tk h = Some (tk', h')"
  shows "host_change keep (\<not> measuring_time_over (ck_now ck) (ms_state (h_session h))) h h'"
proof (cases tk)
  case ProbeSenderTask
  have "session_task (start_probe_sender (ck_ms ck) (ck_send_ok ck)) ProbeSenderTask h = Some (tk', h')"
    using assms ProbeSenderTask by simp
  then show ?thesis by (rule session_task_change) (blast dest: change_probe_sender)
next
  case BulkSenderTask
  have "session_task (start_bulk_sender (enc_bulk W) (ck_ms ck) (ck_send_ok ck)) BulkSenderTask h = Some (tk', h')"
    using assms BulkSenderTask by simp
  then show ?thesis by (rule session_task_change) (auto dest!: change_bulk_sender)
next
  case MeasurementSenderTask
  have "session_task (start_measurement_probe_sender (ck_now ck) (ck_ms ck) (ck_send_ok ck)) MeasurementSenderTask h = Some (tk', h')"
    using assms MeasurementSenderTask by simp
  then show ?thesis by (rule session_task_change) (auto dest!: change_measurement_sender)
next
  case StatsReporterTask
  have "session_task (start_probe_stats_reporter F (ck_now ck) (ck_ms ck) (ck_ms2 ck)) StatsReporterTask h = Some (tk', h')"
    using assms StatsReporterTask by simp
  then show ?thesis by (rule session_task_change) (auto dest!: change_reporter)
next
  case (TracerouteTask pc)
  have "tracker_task (run_single_traceroute_round F (enc_testprobe W) (ck_ms ck) (ck_send_ok ck)) pc TracerouteTask h = Some (tk', h')"
    using assms TracerouteTask by simp
  then show ?thesis by (rule tracker_task_change) (rule change_traceroute)
next
  case (MtuTask psize max_ttl collect pc)
  have "tracker_task (run_mtu_traceroute_round F (enc_testprobe W) psize max_ttl collect (ck_ms ck) (ck_send_ok ck))
      pc (MtuTask psize max_ttl collect) h = Some (tk', h')"
    using assms MtuTask by simp
  then show ?thesis by (rule tracker_task_change) (rule change_mtu)
qed

definition event_starts :: "'f codec \<Rightarrow> string \<Rightarrow> 's host_event \<Rightarrow> bool" where
  "event_starts W conn ev \<longleftrightarrow> (case ev of
     Message ck channel msg \<Rightarrow> channel = ''control'' \<and>
       (case parse_control W msg of Some m \<Rightarrow> starts_streams m \<and> conn_of m = Some conn | None \<Rightarrow> False)
   | _ \<Rightarrow> False)"

definition may_send :: "'s host_event \<Rightarrow> ('f, 's) host \<Rightarrow> bool" where
  "may_send ev h \<longleftrightarrow> (case ev of
     TaskTurn ck i \<Rightarrow> \<not> measuring_time_over (ck_now ck) (ms_state (h_session h)) | _ \<Rightarrow> False)"

lemma host_change_tasks: "host_change keep may h (h'\<lparr>h_tasks := ts\<rparr>) \<longleftrightarrow> host_change keep may h h'"
  by (simp add: host_change_def)

lemma host_turn_change:
  assumes "host_turn F W ev h = Some h'"
  shows "host_change (\<not> event_starts W (cs_conn_id (h_session h)) ev) (may_send ev h) h h'"
proof (cases ev)
  case (OpenChannel label st)
  let ?h = "on_session (\<lambda>c. c\<lparr>ms_data_channels := store_channel label st (ms_data_channels c)\<rparr>) h"
  have h': "h' = announce_ready ?h" using assms OpenChannel by (simp add: setup_data_channel_handlers_def)
  obtain outs where "h_out (announce_ready ?h) = h_out ?h @ outs" "silent outs" using announce_out by blast
  then show ?thesis unfolding h' by (intro host_same [where outs = outs]) (simp_all add: on_session_def)
next
  case (ChannelState label st)
  then show ?thesis using assms by (intro host_same [where outs = "[]"]) (auto simp: on_session_def)
next
  case (Message ck channel msg)
  then show ?thesis
    using assms message_change [of F W ck channel msg h h']
    by (auto simp: event_starts_def may_send_def host_change_def split: option.splits)
next
  case (TaskTurn ck i)
  show ?thesis
  proof (cases "i < length (h_tasks h)")
    case True
    then obtain tk h1 ts where t: "task_turn F W ck (h_tasks h ! i) h = Some (tk, h1)" and h': "h' = h1\<lparr>h_tasks := ts\<rparr>"
      using assms TaskTurn by (auto simp: bind_eq_Some_conv)
    show ?thesis
      unfolding h' host_change_tasks using task_turn_change [OF t] TaskTurn by (simp add: may_send_def)
  next
    case False
    then show ?thesis using assms TaskTurn by (simp add: host_same [where outs = "[]"])
  qed
next
  case (TrackerStep op x)
  then show ?thesis using assms
    by (intro host_same [where outs = "[]"]) (auto simp: bind_eq_Some_conv)
qed

subsection \<open>Echoes and the time of sending\<close>

definition probes_ok :: "('f, 's) host \<Rightarrow> bool" where
  "probes_ok h \<longleftrightarrow>
     (\<exists>\<tau>. view_ok \<tau> (pview (ms_state (h_session h))) \<and>
        (\<forall>(k, t) \<in> set (probes_of (h_out h)). k < probe_seq (ms_state (h_session h)) \<and> \<tau> k = t)) \<and>
     (\<exists>\<tau>. view_ok \<tau> (tview (ms_state (h_session h))))"

lemma probes_of_member:
  "OutProbe p \<in> set outs \<Longrightarrow> (pp_seq p, pp_timestamp_ms p) \<in> set (probes_of outs)"
  by (induction outs) (auto simp: probes_of_def List.map_filter_def)

lemma probes_ok_step:
  assumes ok: "view_ok \<tau> v" and step: "view_step v l v'" and sent: "\<forall>(k, t) \<in> set ps. k < fst v \<and> \<tau> k = t"
    and new: "set qs \<subseteq> set l"
  shows "\<exists>\<tau>'. view_ok \<tau>' v' \<and> (\<forall>(k, t) \<in> set (ps @ qs). k < fst v' \<and> \<tau>' k = t)"
proof -
  obtain \<tau>' where \<tau>': "view_ok \<tau>' v'" "\<forall>k < fst v. \<tau>' k = \<tau> k" "fst v \<le> fst v'"
    "\<forall>(k, t) \<in> set l. k < fst v' \<and> \<tau>' k = t"
    using view_step_ok [OF step ok] by blast
  have "k < fst v' \<and> \<tau>' k = t" if "(k, t) \<in> set ps \<or> (k, t) \<in> set l" for k t
    using that sent \<tau>'(2-4) by fastforce
  then show ?thesis using \<tau>'(1) new by auto
qed

lemma probes_ok_turn:
  assumes "probes_ok h" and "host_turn F W ev h = Some h'"
  shows "probes_ok h'"
proof -
  from assms(1) obtain \<tau> \<sigma> where p: "view_ok \<tau> (pview (ms_state (h_session h)))"
    and t: "view_ok \<sigma> (tview (ms_state (h_session h)))"
    and out: "\<forall>(k, t) \<in> set (probes_of (h_out h)). k < fst (pview (ms_state (h_session h))) \<and> \<tau> k = t"
    by (auto simp: probes_ok_def pview_def)
  from host_turn_change [OF assms(2)] obtain l k outs
    where ps: "view_step (pview (ms_state (h_session h))) l (pview (ms_state (h_session h')))"
      and ts: "view_step (tview (ms_state (h_session h))) k (tview (ms_state (h_session h')))"
      and o: "h_out h' = h_out h @ outs" "set (probes_of outs) \<subseteq> set l"
    unfolding host_change_def by auto
  show ?thesis
    using probes_ok_step [OF p ps out o(2)] probes_ok_step [OF t ts, of "[]" "[]"] o(1)
    by (auto simp: probes_ok_def pview_def)
qed

lemma probes_ok_fresh:
  "ms_state (h_session h) = new_measurement_state F \<Longrightarrow> h_out h = [] \<Longrightarrow> probes_ok h"
  by (simp add: probes_ok_def view_ok_def pview_def tview_def new_measurement_state_def)

lemma probes_ok_run:
  assumes "ms_state (h_session h) = new_measurement_state G" and "h_out h = []" and "run_host F W evs h = Some h'"
  shows "probes_ok h'"
  by (rule run_ticks_preserves [where I = probes_ok, OF _ probes_ok_fresh [OF assms(1,2)] assms(3)])
    (rule probes_ok_turn)

text \<open>
  C32. Over every run of a fresh session, whatever its peer sends and however its tasks
  interleave, the map of sent probes and that of sent test probes hold exactly the probes in
  the queues beside them, each number once, and every echo is recorded with the time that the
  probe of its number carried when it went out.
\<close>

theorem echoes_carry_send_times:
  assumes "ms_state (h_session h0) = new_measurement_state G" and "h_out h0 = []"
    and "run_host F W evs h0 = Some h" and "st = ms_state (h_session h)"
  shows "sent_probes_map st = map_of (map (\<lambda>p. (sp_seq p, p)) (sent_probes st)) \<and>
    distinct (map sp_seq (sent_probes st)) \<and>
    sent_testprobes_map st = map_of (map (\<lambda>p. (sp_seq p, p)) (sent_testprobes st)) \<and>
    distinct (map sp_seq (sent_testprobes st)) \<and>
    (\<forall>p e. OutProbe p \<in> set (h_out h) \<and> e \<in> set (echoed_probes st) \<and> ep_seq e = pp_seq p \<longrightarrow>
       ep_sent_at_ms e = pp_timestamp_ms p)"
proof -
  from probes_ok_run [OF assms(1-3)] obtain \<tau> \<sigma> where p: "view_ok \<tau> (pview st)" and t: "view_ok \<sigma> (tview st)"
    and out: "\<forall>(k, x) \<in> set (probes_of (h_out h)). k < probe_seq st \<and> \<tau> k = x"
    using assms(4) by (auto simp: probes_ok_def)
  have "ep_sent_at_ms e = pp_timestamp_ms p"
    if "OutProbe p \<in> set (h_out h)" "e \<in> set (echoed_probes st)" "ep_seq e = pp_seq p" for p e
    using bspec [OF out probes_of_member [OF that(1)]] p that(2,3) by (simp add: view_ok_def pview_def)
  then have echo: "\<forall>p e. OutProbe p \<in> set (h_out h) \<and> e \<in> set (echoed_probes st) \<and> ep_seq e = pp_seq p \<longrightarrow>
      ep_sent_at_ms e = pp_timestamp_ms p"
    by blast
  have index: "sent_probes_map st = map_of (map (\<lambda>p. (sp_seq p, p)) (sent_probes st))"
    "distinct (map sp_seq (sent_probes st))"
    "sent_testprobes_map st = map_of (map (\<lambda>p. (sp_seq p, p)) (sent_testprobes st))"
    "distinct (map sp_seq (sent_testprobes st))"
    using p t by (simp_all add: view_ok_def pview_def tview_def)
  show ?thesis by (intro conjI index echo)
qed

definition sample_chans :: DataChannels where
  "sample_chans = \<lparr>dc_probe = Some Opened, dc_bulk = Some Opened, dc_control = Some Opened, dc_testprobe = Some Opened\<rparr>"

definition sample_host :: "(unit, unit) host" where
  "sample_host = \<lparr>h_session = (sample_measured unit_f64)\<lparr>ms_data_channels := sample_chans\<rparr>,
     h_tracker = new_tracker, h_capture = None, h_keylog = None, h_tasks = [], h_out = []\<rparr>"

definition sample_clock :: "nat \<Rightarrow> u64 \<Rightarrow> clock" where
  "sample_clock now now_ms = \<lparr>ck_now = now, ck_epoch = 0, ck_ms = now_ms, ck_ms2 = now_ms, ck_send_ok = True,
     ck_warn = True, ck_dtls_keys = None\<rparr>"

definition sample_codec :: "unit ControlMessage \<Rightarrow> unit codec" where
  "sample_codec m = \<lparr>parse_control = (\<lambda>_. Some m),
     parse_probe = (\<lambda>_. Some \<lparr>pp_seq = 0, pp_timestamp_ms = 70040, pp_direction = ServerToClient,
        pp_send_options = None, pp_conn_id = ''conn-a''\<rparr>),
     parse_testprobe = (\<lambda>_. None), parse_measurement = (\<lambda>_. None), enc_bulk = (\<lambda>_. []), enc_testprobe = (\<lambda>_. [])\<rparr>"

abbreviation own_message :: SessionMessage where
  "own_message \<equiv> \<lparr>sm_conn_id = ''conn-a'', sm_survey_session_id = []\<rparr>"

abbreviation sample_sent :: ProbePacket where
  "sample_sent \<equiv> \<lparr>pp_seq = 0, pp_timestamp_ms = 70010, pp_direction = ServerToClient, pp_send_options = None,
     pp_conn_id = ''conn-a''\<rparr>"

definition sample_traffic :: "unit list \<Rightarrow> (unit, unit) host" where
  "sample_traffic sent = sample_host\<lparr>h_tasks := [ProbeSenderTask, BulkSenderTask],
     h_out := map (\<lambda>_. OutProbe sample_sent) sent,
     h_session := in_state (\<lambda>st. st\<lparr>traffic_active := True, probe_seq := of_nat (length sent),
        sent_probes := map (\<lambda>_. \<lparr>sp_seq = 0, sp_sent_at_ms = 70010\<rparr>) sent,
        sent_probes_map := map_of (map (\<lambda>_. (0, \<lparr>sp_seq = 0, sp_sent_at_ms = 70010\<rparr>)) sent)\<rparr>) (h_session sample_host)\<rparr>"

lemmas sample_host_defs = sample_host_def sample_measured_def sample_chans_def sample_codec_def sample_clock_def
  new_measurement_state_def

lemma sample_steps:
  "host_turn unit_f64 (sample_codec (StartServerTraffic own_message)) (Message (sample_clock 0 70000) ''control'' [])
     sample_host = Some (sample_traffic [])"
  "host_turn unit_f64 (sample_codec (StartServerTraffic own_message)) (TaskTurn (sample_clock 0 70010) 0)
     (sample_traffic []) = Some (sample_traffic [()])"
  by (simp_all add: handle_message_def handle_control_message_def cut_for_log_def start_server_traffic_def on_session_def
      spawn_def emit_def Let_def set_survey_def clear_measurements_def sample_traffic_def sample_host_defs
      session_task_def start_probe_sender_def add_checked_def sub_checked_def fun_eq_iff)

lemma sample_echo_step:
  "\<exists>h. host_turn unit_f64 (sample_codec (StartServerTraffic own_message)) (Message (sample_clock 0 70050) ''probe'' [])
     (sample_traffic [()]) = Some h \<and> h_out h = [OutProbe sample_sent] \<and>
     map ep_seq (echoed_probes (ms_state (h_session h))) = [0]"
proof -
  let ?c = "in_state (\<lambda>st. st\<lparr>echoed_probes := [\<lparr>ep_seq = 0, ep_sent_at_ms = 70010, ep_echoed_at_ms = 70040\<rparr>]\<rparr>)
    (h_session (sample_traffic [()]))"
  have "\<not> window_overflow 70050 60000 (ms_state ?c)"
    by (simp add: window_overflow_def sample_host_defs sample_traffic_def recent_probes_def recent_echoed_probes_def
        recent_bulk_def recent_sent_bulk_def skewed_def saturating_sub_def)
  then obtain c where c: "calculate_metrics unit_f64 70050 ?c = Some c"
    using calculate_metrics_None_iff by (metis not_None_eq)
  then have "ms_state c = ms_state ?c" using calculate_metrics_state by blast
  with c show ?thesis
    by (simp add: handle_message_def handle_probe_message_def handle_probe_packet_def probe_received_def
        sample_traffic_def sample_host_defs sub_checked_def prune_def)
qed

theorem echoes_carry_send_times_witness:
  "\<exists>h. run_host unit_f64 (sample_codec (StartServerTraffic own_message))
      [Message (sample_clock 0 70000) ''control'' [], TaskTurn (sample_clock 0 70010) 0,
       Message (sample_clock 0 70050) ''probe'' []] sample_host = Some h \<and>
     map (\<lambda>e. (ep_seq e, ep_sent_at_ms e)) (echoed_probes (ms_state (h_session h))) = [(0, 70010)]"
proof -
  let ?W = "sample_codec (StartServerTraffic own_message)"
  let ?evs = "[Message (sample_clock 0 70000) ''control'' [], TaskTurn (sample_clock 0 70010) 0,
    Message (sample_clock 0 70050) ''probe'' []]"
  obtain h where h: "run_host unit_f64 ?W ?evs sample_host = Some h" "h_out h = [OutProbe sample_sent]"
    "map ep_seq (echoed_probes (ms_state (h_session h))) = [0]"
    using sample_echo_step by (auto simp del: host_turn.simps simp: sample_steps)
  then obtain e where e: "echoed_probes (ms_state (h_session h)) = [e]" "ep_seq e = 0" by auto
  have "ms_state (h_session sample_host) = new_measurement_state unit_f64" "h_out sample_host = []"
    by (simp_all add: sample_host_def sample_measured_def)
  from echoes_carry_send_times [OF this h(1) refl] have "ep_sent_at_ms e = 70010"
    using h(2) e by force
  with h e show ?thesis by simp
qed

subsection \<open>The measuring time of a magic key\<close>

text \<open>
  C33. Once probe streams are started for a session whose magic key allows \<open>s\<close> seconds, and
  until they are started anew, no turn of a task at or after that time sends a measurement
  probe, whatever messages and turns came between; a turn of the sender there ends the streams.
\<close>

theorem probe_stream_time_limit:
  fixes h0 :: "('f, 's) host"
  assumes "handle_control_message F W ck0 msg h0 = Some h1"
    and "parse_control W msg = Some (StartProbeStreams m)" and "sm_conn_id m = cs_conn_id (h_session h0)"
    and "max_measuring_seconds (h_session h0) = Some s"
    and "run_host F W evs h1 = Some h2" and "list_all (\<lambda>ev. \<not> event_starts W (cs_conn_id (h_session h0)) ev) evs"
    and "ck_now ck0 + unat s * 10 ^ 9 \<le> ck_now ck"
    and "host_turn F W (TaskTurn ck i) h2 = Some h3"
  shows "(\<exists>outs. h_out h3 = h_out h2 @ outs \<and> measurements_of outs = []) \<and>
    (i < length (h_tasks h2) \<and> h_tasks h2 ! i = MeasurementSenderTask \<longrightarrow>
       \<not> probe_streams_active (ms_state (h_session h3)))"
proof -
  let ?started = "\<lambda>h :: ('f, 's) host. lview (ms_state (h_session h)) = (Some (ck_now ck0), Some (unat s * 10 ^ 9)) \<and>
    cs_conn_id (h_session h) = cs_conn_id (h_session h0)"
  have h1: "h1 = start_probe_streams F ck0 (sm_survey_session_id m) h0"
    using assms(1-3) by (auto simp: handle_control_message_def bind_eq_Some_conv)
  have secs: "max_measuring_seconds (set_survey sv (h_session h0)) = Some s" for sv
    using assms(4) by (auto simp: max_measuring_seconds_def set_survey_def split: option.splits)
  have "?started h1"
    unfolding h1 by (simp add: start_probe_streams_def spawn_def on_session_def Let_def lview_def secs)
  then have "?started h2"
  proof (rule run_ticks_preserves [rotated, OF _ assms(5)])
    fix ev h h'
    assume ev: "ev \<in> set evs" and h: "?started h" and step: "host_turn F W ev h = Some h'"
    have "\<not> event_starts W (cs_conn_id (h_session h)) ev"
      using assms(6) ev h by (simp add: list_all_iff)
    then show "?started h'" using host_turn_change [OF step] h by (simp add: host_change_def)
  qed
  then have over: "measuring_time_over (ck_now ck) (ms_state (h_session h2))"
    using assms(7) by (auto simp: measuring_time_over_def lview_def)
  then have "\<exists>outs. h_out h3 = h_out h2 @ outs \<and> measurements_of outs = []"
    using host_turn_change [OF assms(8)] by (auto simp: host_change_def may_send_def)
  moreover have "\<not> probe_streams_active (ms_state (h_session h3))"
    if "i < length (h_tasks h2)" "h_tasks h2 ! i = MeasurementSenderTask"
    using assms(8) that over
    by (cases "probe_streams_active (ms_state (h_session h2))")
      (auto simp: session_task_def start_measurement_probe_sender_def emit_def)
  ultimately show ?thesis by blast
qed

definition sample_limited :: "(unit, unit) host" where
  "sample_limited = sample_host\<lparr>h_session := (h_session sample_host)
     \<lparr>ms_magic_key := Some ''K'', ms_magic_key_config := Some
       \<lparr>mk_enabled = True, magic_keys = [''K''], survey_cookie_name = ''s'', survey_timeout_seconds = 600,
        max_measuring_time_seconds = 60, magic_key_max_measuring_time = [''K'' \<mapsto> 30]\<rparr>\<rparr>\<rparr>"

definition sample_streams :: "bool \<Rightarrow> unit list \<Rightarrow> (unit, unit) host" where
  "sample_streams active sent = sample_limited
     \<lparr>h_tasks := (if active then [MeasurementSenderTask, StatsReporterTask] else [StatsReporterTask]),
      h_out := map (\<lambda>_. OutMeasurement \<lparr>mp_seq = 0, mp_sent_at_ms = 71000, mp_direction = ServerToClient,
        mp_conn_id = ''conn-a'', mp_feedback = default_feedback\<rparr>) sent,
      h_session := in_state (\<lambda>st. st\<lparr>probe_streams_active := active, probe_streams_started_at := Some 0,
        max_measuring_duration := Some (30 * 10 ^ 9), measurement_probe_seq := of_nat (length sent)\<rparr>)
        (h_session sample_limited)\<rparr>"

lemma sample_stream_steps:
  "handle_control_message unit_f64 (sample_codec (StartProbeStreams own_message)) (sample_clock 0 70000) [] sample_limited =
     Some (sample_streams True [])"
  "host_turn unit_f64 (sample_codec (StartProbeStreams own_message)) (TaskTurn (sample_clock 1000000000 71000) 0)
     (sample_streams True []) = Some (sample_streams True [()])"
  "host_turn unit_f64 (sample_codec (StartProbeStreams own_message)) (TaskTurn (sample_clock 30000000000 100000) 0)
     (sample_streams True [()]) = Some (sample_streams False [()])"
  by (simp_all add: handle_control_message_def cut_for_log_def start_probe_streams_def on_session_def spawn_def emit_def
      Let_def set_survey_def max_measuring_seconds_def get_max_measuring_time_seconds_def sample_limited_def
      sample_streams_def sample_host_defs session_task_def start_measurement_probe_sender_def measuring_time_over_def
      add_checked_def f_nat_def unit_f64_def)

theorem probe_stream_time_limit_witness:
  "\<exists>h1 h2 h3. handle_control_message unit_f64 (sample_codec (StartProbeStreams own_message)) (sample_clock 0 70000) []
      sample_limited = Some h1 \<and>
    run_host unit_f64 (sample_codec (StartProbeStreams own_message)) [TaskTurn (sample_clock 1000000000 71000) 0] h1 = Some h2 \<and>
    measurements_of (h_out h2) \<noteq> [] \<and>
    host_turn unit_f64 (sample_codec (StartProbeStreams own_message)) (TaskTurn (sample_clock 30000000000 100000) 0) h2 =
      Some h3 \<and> \<not> probe_streams_active (ms_state (h_session h3))"
proof -
  let ?W = "sample_codec (StartProbeStreams own_message)"
  have run: "run_host unit_f64 ?W [TaskTurn (sample_clock 1000000000 71000) 0] (sample_streams True []) =
      Some (sample_streams True [()])"
    by (simp del: host_turn.simps add: sample_stream_steps)
  have "\<not> probe_streams_active (ms_state (h_session (sample_streams False [()])))"
  proof (rule probe_stream_time_limit [THEN conjunct2, rule_format,
        OF sample_stream_steps(1) _ _ _ run _ _ sample_stream_steps(3)])
    show "parse_control ?W [] = Some (StartProbeStreams own_message)" by (simp add: sample_codec_def)
    show "sm_conn_id own_message = cs_conn_id (h_session sample_limited)"
      "max_measuring_seconds (h_session sample_limited) = Some 30"
      by (simp_all add: sample_limited_def sample_host_defs max_measuring_seconds_def get_max_measuring_time_seconds_def)
  qed (simp_all add: event_starts_def sample_clock_def sample_streams_def)
  moreover have "measurements_of (h_out (sample_streams True [()])) \<noteq> []"
    by (simp add: sample_streams_def measurements_of_def List.map_filter_def)
  ultimately show ?thesis using sample_stream_steps run by blast
qed



end
