(* ===== verification/Wire_Readers.thy ===== *)
theory Wire_Readers
  imports Netpoke_Prelude
begin

text \<open>
  Decoders over byte slices as the vendored protocol crates write them: a reader takes the bytes
  that are left and gives an error or a value with the rest; a Rust \<open>Result\<close> is a sum whose left
  side is the error.
\<close>

text \<open>The \<open>?\<close> operator.\<close>

definition and_then :: "'e + 'a \<Rightarrow> ('a \<Rightarrow> 'e + 'b) \<Rightarrow> 'e + 'b" where
  "and_then r f = (case r of Inl e \<Rightarrow> Inl e | Inr x \<Rightarrow> f x)"

lemma and_then_simps [simp]:
  "and_then (Inl e) f = Inl e"
  "and_then (Inr x) f = f x"
  by (simp_all add: and_then_def)

lemma and_then_eq_Inr_iff: "and_then r f = Inr y \<longleftrightarrow> (\<exists>x. r = Inr x \<and> f x = Inr y)"
  by (cases r) simp_all

text \<open>A big-endian number of \<open>n\<close> bytes; a short slice is the error \<open>eof\<close>.\<close>

definition read_be :: "'e \<Rightarrow> nat \<Rightarrow> bytes \<Rightarrow> 'e + nat \<times> bytes" where
  "read_be eof n bs = (if n \<le> length bs then Inr (be_nat (take n bs), drop n bs) else Inl eof)"

lemma read_be_append [simp, codec_simps]:
  "length xs = n \<Longrightarrow> read_be eof n (xs @ ys) = Inr (be_nat xs, ys)"
  by (simp add: read_be_def)

lemma read_be_be_bytes [simp, codec_simps]:
  "read_be eof n (be_bytes n x @ ys) = Inr (x mod 256 ^ n, ys)"
  by (simp add: be_nat_be_bytes)

lemma read_be_Inr_iff:
  "read_be eof n bs = Inr (x, r) \<longleftrightarrow> n \<le> length bs \<and> x = be_nat (take n bs) \<and> r = drop n bs"
  by (auto simp: read_be_def)

lemma read_be_Cons [simp]: "read_be eof (Suc 0) (b # bs) = Inr (unat b, bs)"
  by (simp add: read_be_def)

lemma unat_u32_bounded [simp]: "unat (w :: u32) < 4294967296"
  using unat_bound [of w] by simp

end
