(* ===== verification/Dtls_Records.thy ===== *)
theory Dtls_Records
  imports Wire_Readers
begin

text \<open>
  The record layer of \<open>vendored/dtls\<close>: content types (\<open>content.rs\<close>), record headers
  (\<open>record_layer_header.rs\<close>), handshake headers (\<open>handshake_header.rs\<close>), alerts (\<open>alert/mod.rs\<close>),
  the change of cipher and the splitting of a datagram into records (\<open>record_layer/mod.rs\<close>).
\<close>

datatype dtls_error =
    ErrIo
  | ErrSequenceNumberOverflow
  | ErrUnsupportedProtocolVersion
  | ErrInvalidPacketLength
  | ErrInvalidContentType
  | ErrInvalidCipherSpec
  | ErrNotImplemented
  | ErrFragmentBufferOverflow nat nat
  | ErrEmptyFragment
  | ErrApplicationDataEpochZero
  | ErrUnhandledContextType
  | ErrAlertFatalOrClose
  | ErrAlert  \<comment> \<open>\<open>Error::Other\<close> of a received alert\<close>

subsection \<open>Content types\<close>

datatype ContentType = ChangeCipherSpecType | AlertType | HandshakeContent | ApplicationDataType | InvalidContent

definition content_type_of :: "nat \<Rightarrow> ContentType" where
  "content_type_of b = (if b = 20 then ChangeCipherSpecType else if b = 21 then AlertType
     else if b = 22 then HandshakeContent else if b = 23 then ApplicationDataType else InvalidContent)"

fun content_type_byte :: "ContentType \<Rightarrow> u8" where
  "content_type_byte ChangeCipherSpecType = 20"
| "content_type_byte AlertType = 21"
| "content_type_byte HandshakeContent = 22"
| "content_type_byte ApplicationDataType = 23"
| "content_type_byte InvalidContent = 24"

lemma content_type_of_byte [simp]: "content_type_of (unat (content_type_byte t)) = t"
  by (cases t) (simp_all add: content_type_of_def)

subsection \<open>Record headers\<close>

record ProtocolVersion =
  pv_major :: u8
  pv_minor :: u8

definition PROTOCOL_VERSION1_0 :: ProtocolVersion where
  "PROTOCOL_VERSION1_0 = \<lparr>pv_major = 0xfe, pv_minor = 0xff\<rparr>"

definition PROTOCOL_VERSION1_2 :: ProtocolVersion where
  "PROTOCOL_VERSION1_2 = \<lparr>pv_major = 0xfe, pv_minor = 0xfd\<rparr>"

definition RECORD_LAYER_HEADER_SIZE :: nat where
  "RECORD_LAYER_HEADER_SIZE = 13"

definition MAX_SEQUENCE_NUMBER :: u64 where
  "MAX_SEQUENCE_NUMBER = 0x0000FFFFFFFFFFFF"

record RecordLayerHeader =
  rl_content_type :: ContentType
  rl_protocol_version :: ProtocolVersion
  rl_epoch :: u16
  rl_sequence_number :: u64
  rl_content_len :: u16

definition marshal_record_header :: "RecordLayerHeader \<Rightarrow> dtls_error + bytes" where
  "marshal_record_header h =
     (if MAX_SEQUENCE_NUMBER < rl_sequence_number h then Inl ErrSequenceNumberOverflow
      else Inr ([content_type_byte (rl_content_type h), pv_major (rl_protocol_version h),
          pv_minor (rl_protocol_version h)] @ be_bytes 2 (unat (rl_epoch h)) @
        drop 2 (be_bytes 8 (unat (rl_sequence_number h))) @ be_bytes 2 (unat (rl_content_len h))))"

definition unmarshal_record_header :: "bytes \<Rightarrow> dtls_error + RecordLayerHeader \<times> bytes" where
  "unmarshal_record_header bs =
     and_then (read_be ErrIo 1 bs) (\<lambda>(ct, bs).
     and_then (read_be ErrIo 1 bs) (\<lambda>(major, bs).
     and_then (read_be ErrIo 1 bs) (\<lambda>(minor, bs).
     and_then (read_be ErrIo 2 bs) (\<lambda>(ep, bs).
     and_then (read_be ErrIo 6 bs) (\<lambda>(seq, bs).
       let version = \<lparr>pv_major = of_nat major, pv_minor = of_nat minor\<rparr>
       in if version \<noteq> PROTOCOL_VERSION1_0 \<and> version \<noteq> PROTOCOL_VERSION1_2
          then Inl ErrUnsupportedProtocolVersion
          else and_then (read_be ErrIo 2 bs) (\<lambda>(len, bs).
            Inr (\<lparr>rl_content_type = content_type_of ct, rl_protocol_version = version, rl_epoch = of_nat ep,
                   rl_sequence_number = of_nat seq, rl_content_len = of_nat len\<rparr>, bs)))))))"

lemma drop_be_bytes: "k \<le> n \<Longrightarrow> drop k (be_bytes n x) = be_bytes (n - k) x"
proof (induction n arbitrary: x)
  case (Suc n)
  then show ?case by (cases "k = Suc n") (simp_all add: Suc_diff_le)
qed simp

lemma record_header_roundtrip:
  assumes "marshal_record_header h = Inr bs"
    and "rl_protocol_version h \<in> {PROTOCOL_VERSION1_0, PROTOCOL_VERSION1_2}"
  shows "unmarshal_record_header (bs @ rest) = Inr (h, rest) \<and> length bs = RECORD_LAYER_HEADER_SIZE"
proof -
  have "unat (rl_sequence_number h) < 256 ^ 6"
    using assms(1) by (auto simp: marshal_record_header_def MAX_SEQUENCE_NUMBER_def not_less word_le_nat_alt
        split: if_splits)
  then have "of_nat (unat (rl_sequence_number h) mod 256 ^ 6) = rl_sequence_number h" by simp
  moreover have "bs = [content_type_byte (rl_content_type h), pv_major (rl_protocol_version h),
      pv_minor (rl_protocol_version h)] @ be_bytes 2 (unat (rl_epoch h)) @
      be_bytes 6 (unat (rl_sequence_number h)) @ be_bytes 2 (unat (rl_content_len h))"
    using assms(1) drop_be_bytes [of 2 8] by (auto simp: marshal_record_header_def split: if_splits)
  ultimately show ?thesis
    using assms(2) by (auto simp: unmarshal_record_header_def RECORD_LAYER_HEADER_SIZE_def Let_def
        simp del: be_bytes.simps)
qed

lemma unmarshal_record_header_rest:
  "unmarshal_record_header bs = Inr (h, rest) \<Longrightarrow> 13 \<le> length bs \<and> rest = drop 13 bs"
  by (auto simp: unmarshal_record_header_def and_then_eq_Inr_iff read_be_Inr_iff Let_def split: if_splits)

subsection \<open>Handshake headers\<close>

datatype HandshakeType =
    HelloRequest | ClientHello | ServerHello | HelloVerifyRequest | Certificate | ServerKeyExchange
  | CertificateRequest | ServerHelloDone | CertificateVerify | ClientKeyExchange | Finished | InvalidHandshake

definition handshake_type_of :: "nat \<Rightarrow> HandshakeType" where
  "handshake_type_of b = (if b = 0 then HelloRequest else if b = 1 then ClientHello else if b = 2 then ServerHello
     else if b = 3 then HelloVerifyRequest else if b = 11 then Certificate else if b = 12 then ServerKeyExchange
     else if b = 13 then CertificateRequest else if b = 14 then ServerHelloDone
     else if b = 15 then CertificateVerify else if b = 16 then ClientKeyExchange
     else if b = 20 then Finished else InvalidHandshake)"

fun handshake_type_byte :: "HandshakeType \<Rightarrow> u8" where
  "handshake_type_byte HelloRequest = 0"
| "handshake_type_byte ClientHello = 1"
| "handshake_type_byte ServerHello = 2"
| "handshake_type_byte HelloVerifyRequest = 3"
| "handshake_type_byte Certificate = 11"
| "handshake_type_byte ServerKeyExchange = 12"
| "handshake_type_byte CertificateRequest = 13"
| "handshake_type_byte ServerHelloDone = 14"
| "handshake_type_byte CertificateVerify = 15"
| "handshake_type_byte ClientKeyExchange = 16"
| "handshake_type_byte Finished = 20"
| "handshake_type_byte InvalidHandshake = 21"

lemma handshake_type_of_byte [simp]: "handshake_type_of (unat (handshake_type_byte t)) = t"
  by (cases t) (simp_all add: handshake_type_of_def)

definition HANDSHAKE_HEADER_LENGTH :: nat where
  "HANDSHAKE_HEADER_LENGTH = 12"

record HandshakeHeader =
  hh_handshake_type :: HandshakeType
  hh_length :: u32
  hh_message_sequence :: u16
  hh_fragment_offset :: u32
  hh_fragment_length :: u32

text \<open>Writing a number of more than 24 bits as one of 24 panics.\<close>

definition write_u24 :: "u32 \<Rightarrow> bytes option" where
  "write_u24 x = (if unat x < 2 ^ 24 then Some (be_bytes 3 (unat x)) else None)"

definition marshal_handshake_header :: "HandshakeHeader \<Rightarrow> bytes option" where
  "marshal_handshake_header h =
     do {
       len \<leftarrow> write_u24 (hh_length h);
       offset \<leftarrow> write_u24 (hh_fragment_offset h);
       frag_len \<leftarrow> write_u24 (hh_fragment_length h);
       Some ([handshake_type_byte (hh_handshake_type h)] @ len @ be_bytes 2 (unat (hh_message_sequence h)) @
         offset @ frag_len)
     }"

definition unmarshal_handshake_header :: "bytes \<Rightarrow> dtls_error + HandshakeHeader \<times> bytes" where
  "unmarshal_handshake_header bs =
     and_then (read_be ErrIo 1 bs) (\<lambda>(ty, bs).
     and_then (read_be ErrIo 3 bs) (\<lambda>(len, bs).
     and_then (read_be ErrIo 2 bs) (\<lambda>(seq, bs).
     and_then (read_be ErrIo 3 bs) (\<lambda>(offset, bs).
     and_then (read_be ErrIo 3 bs) (\<lambda>(frag_len, bs).
       Inr (\<lparr>hh_handshake_type = handshake_type_of ty, hh_length = of_nat len, hh_message_sequence = of_nat seq,
              hh_fragment_offset = of_nat offset, hh_fragment_length = of_nat frag_len\<rparr>, bs))))))"

lemma write_u24_Some_iff: "write_u24 x = Some bs \<longleftrightarrow> unat x < 2 ^ 24 \<and> bs = be_bytes 3 (unat x)"
  by (auto simp: write_u24_def)

lemma handshake_header_roundtrip:
  assumes "marshal_handshake_header h = Some bs"
  shows "unmarshal_handshake_header (bs @ rest) = Inr (h, rest) \<and> length bs = HANDSHAKE_HEADER_LENGTH"
proof -
  have u24: "of_nat (unat x mod 256 ^ 3) = x" if "unat x < 2 ^ 24" for x :: u32 using that by simp
  show ?thesis
    using assms by (auto simp: marshal_handshake_header_def unmarshal_handshake_header_def write_u24_Some_iff
        bind_eq_Some_conv u24 HANDSHAKE_HEADER_LENGTH_def simp del: be_bytes.simps)
qed

lemma unmarshal_handshake_header_Inr:
  assumes "unmarshal_handshake_header bs = Inr (h, rest)"
  shows "12 \<le> length bs \<and> unat (hh_length h) < 2 ^ 24 \<and> unat (hh_fragment_offset h) < 2 ^ 24 \<and>
    unat (hh_fragment_length h) < 2 ^ 24"
proof -
  have "be_nat (take 3 xs) < 2 ^ 24" for xs
    using be_nat_less [of "take 3 xs"] power_increasing [of "length (take 3 xs)" 3 "256 :: nat"] by simp
  then have "unat (of_nat (be_nat (take 3 xs)) :: u32) < 2 ^ 24" for xs
    by (subst unat_of_nat_small) (force intro: less_trans)+
  then show ?thesis
    using assms by (auto simp: unmarshal_handshake_header_def and_then_eq_Inr_iff read_be_Inr_iff)
qed

subsection \<open>Alerts\<close>

datatype AlertLevel = AlertWarning | AlertFatal | AlertLevelInvalid

definition alert_level_of :: "nat \<Rightarrow> AlertLevel" where
  "alert_level_of b = (if b = 1 then AlertWarning else if b = 2 then AlertFatal else AlertLevelInvalid)"

text \<open>The descriptions that the code compares or sends; every other code is kept as its number.\<close>

datatype AlertDescription =
    CloseNotify | UnexpectedMessage | DecodeError | UnknownPskIdentity | OtherDescription nat | InvalidDescription

definition alert_codes :: "nat list" where
  "alert_codes = [20, 21, 22, 30, 40, 41, 42, 43, 44, 45, 46, 47, 48, 49, 51, 60, 70, 71, 80, 90, 100, 110]"

definition alert_description_of :: "nat \<Rightarrow> AlertDescription" where
  "alert_description_of b = (if b = 0 then CloseNotify else if b = 10 then UnexpectedMessage
     else if b = 50 then DecodeError else if b = 115 then UnknownPskIdentity
     else if b \<in> set alert_codes then OtherDescription b else InvalidDescription)"

record Alert =
  alert_level :: AlertLevel
  alert_description :: AlertDescription

definition unmarshal_alert :: "bytes \<Rightarrow> dtls_error + Alert" where
  "unmarshal_alert bs =
     and_then (read_be ErrIo 1 bs) (\<lambda>(level, bs).
     and_then (read_be ErrIo 1 bs) (\<lambda>(desc, bs).
       Inr \<lparr>alert_level = alert_level_of level, alert_description = alert_description_of desc\<rparr>))"

definition unmarshal_change_cipher_spec :: "bytes \<Rightarrow> dtls_error + unit" where
  "unmarshal_change_cipher_spec bs =
     and_then (read_be ErrIo 1 bs) (\<lambda>(b, bs). if b \<noteq> 1 then Inl ErrInvalidCipherSpec else Inr ())"

subsection \<open>Records\<close>

text \<open>
  A record whose content is no handshake message; the bodies of handshake messages are a
  parameter, which gives the header of the message or an error.
\<close>

datatype Content =
    ContentChangeCipherSpec
  | ContentAlert Alert
  | ContentHandshake HandshakeHeader
  | ContentApplicationData bytes

definition unmarshal_record ::
  "(bytes \<Rightarrow> dtls_error + HandshakeHeader) \<Rightarrow> bytes \<Rightarrow> dtls_error + Content" where
  "unmarshal_record handshake bs =
     and_then (unmarshal_record_header bs) (\<lambda>(h, bs).
       case rl_content_type h of
         AlertType \<Rightarrow> and_then (unmarshal_alert bs) (\<lambda>a. Inr (ContentAlert a))
       | ApplicationDataType \<Rightarrow> Inr (ContentApplicationData bs)
       | ChangeCipherSpecType \<Rightarrow> and_then (unmarshal_change_cipher_spec bs) (\<lambda>_. Inr ContentChangeCipherSpec)
       | HandshakeContent \<Rightarrow> and_then (handshake bs) (\<lambda>m. Inr (ContentHandshake m))
       | InvalidContent \<Rightarrow> Inl ErrInvalidContentType)"

subsection \<open>Splitting a datagram\<close>

definition record_size :: "bytes \<Rightarrow> nat" where
  "record_size buf = RECORD_LAYER_HEADER_SIZE + be_nat (take 2 (drop 11 buf))"

text \<open>The offset of the loop is the part of the datagram that is already dropped.\<close>

function unpack_datagram :: "bytes \<Rightarrow> dtls_error + bytes list" where
  "unpack_datagram buf =
     (if buf = [] then Inr []
      else if length buf \<le> RECORD_LAYER_HEADER_SIZE then Inl ErrInvalidPacketLength
      else if length buf < record_size buf then Inl ErrInvalidPacketLength
      else and_then (unpack_datagram (drop (record_size buf) buf)) (\<lambda>out. Inr (take (record_size buf) buf # out)))"
  by pat_completeness auto
termination
  by (relation "measure length") (auto simp: record_size_def RECORD_LAYER_HEADER_SIZE_def)

declare unpack_datagram.simps [simp del]

definition well_formed_record :: "bytes \<Rightarrow> bool" where
  "well_formed_record r \<longleftrightarrow> RECORD_LAYER_HEADER_SIZE \<le> length r \<and> record_size r = length r"

lemma record_size_append: "13 \<le> length r \<Longrightarrow> record_size (r @ rest) = record_size r"
  by (simp add: record_size_def)

lemma unpack_concat:
  "list_all well_formed_record rs \<Longrightarrow> rs \<noteq> [] \<longrightarrow> RECORD_LAYER_HEADER_SIZE < length (last rs) \<Longrightarrow>
   unpack_datagram (concat rs) = Inr rs"
proof (induction rs)
  case Nil
  show ?case by (simp add: unpack_datagram.simps)
next
  case (Cons r rs)
  then have r: "13 \<le> length r" "record_size (r @ concat rs) = length r"
    by (simp_all add: well_formed_record_def RECORD_LAYER_HEADER_SIZE_def record_size_append)
  moreover have "13 < length (r @ concat rs)"
  proof (cases rs)
    case Nil
    then show ?thesis using Cons.prems(2) by (simp add: RECORD_LAYER_HEADER_SIZE_def)
  next
    case (Cons r' rs')
    then show ?thesis using r Cons.prems(1) by (simp add: well_formed_record_def RECORD_LAYER_HEADER_SIZE_def)
  qed
  moreover have "unpack_datagram (concat rs) = Inr rs" using Cons by (cases rs) auto
  ultimately show ?case by (subst unpack_datagram.simps) (auto simp: RECORD_LAYER_HEADER_SIZE_def)
qed

lemma unpack_Inr:
  "unpack_datagram buf = Inr rs \<Longrightarrow> concat rs = buf \<and> list_all well_formed_record rs \<and>
    (rs \<noteq> [] \<longrightarrow> RECORD_LAYER_HEADER_SIZE < length (last rs))"
proof (induction buf arbitrary: rs rule: unpack_datagram.induct)
  case (1 buf)
  show ?case
  proof (cases "buf = []")
    case True
    then show ?thesis using 1(2) by (simp add: unpack_datagram.simps)
  next
    case False
    then have long: "\<not> length buf \<le> RECORD_LAYER_HEADER_SIZE" "\<not> length buf < record_size buf"
      using 1(2) by (subst (asm) unpack_datagram.simps, simp split: if_splits)+
    then obtain out where out: "unpack_datagram (drop (record_size buf) buf) = Inr out"
      "rs = take (record_size buf) buf # out"
      using 1(2) False by (subst (asm) unpack_datagram.simps) (auto simp: and_then_eq_Inr_iff)
    have size: "RECORD_LAYER_HEADER_SIZE \<le> record_size buf" by (simp add: record_size_def)
    have "record_size (take (record_size buf) buf) = record_size buf"
      using long record_size_append [of "take (record_size buf) buf" "drop (record_size buf) buf"]
      by (simp add: record_size_def RECORD_LAYER_HEADER_SIZE_def)
    moreover have "out = [] \<Longrightarrow> record_size buf = length buf"
      using 1(1) [OF False long out(1)] long by (simp add: well_formed_record_def)
    ultimately show ?thesis
      using 1(1) [OF False long out(1)] out(2) long size by (auto simp: well_formed_record_def)
  qed
qed


definition sample_record_header :: RecordLayerHeader where
  "sample_record_header = \<lparr>rl_content_type = HandshakeContent, rl_protocol_version = PROTOCOL_VERSION1_2,
     rl_epoch = 1, rl_sequence_number = 0x0102030405, rl_content_len = 300\<rparr>"


end
