(* ===== verification/Dtls_Fragments.thy ===== *)
theory Dtls_Fragments
  imports Dtls_Records
begin

text \<open>
  The reassembly of fragmented handshake messages of \<open>vendored/dtls\<close>
  (\<open>fragment_buffer/mod.rs\<close>).
\<close>

definition FRAGMENT_BUFFER_MAX_SIZE :: nat where
  "FRAGMENT_BUFFER_MAX_SIZE = 2000000"

record Fragment =
  fr_record_header :: RecordLayerHeader
  fr_handshake_header :: HandshakeHeader
  fr_data :: bytes

record FragmentBuffer =
  fr_cache :: "(u16 \<times> Fragment list) list"
  fr_current :: u16

definition new_fragment_buffer :: FragmentBuffer where
  "new_fragment_buffer = \<lparr>fr_cache = [], fr_current = 0\<rparr>"

definition fragment_buffer_size :: "FragmentBuffer \<Rightarrow> nat" where
  "fragment_buffer_size b = (\<Sum>(k, frags) \<leftarrow> fr_cache b. \<Sum>f \<leftarrow> frags. length (fr_data f))"

definition fragments :: "u16 \<Rightarrow> FragmentBuffer \<Rightarrow> Fragment list" where
  "fragments k b = (case map_of (fr_cache b) k of None \<Rightarrow> [] | Some frags \<Rightarrow> frags)"

definition cache_fragment :: "Fragment \<Rightarrow> FragmentBuffer \<Rightarrow> FragmentBuffer" where
  "cache_fragment f b =
     (let k = hh_message_sequence (fr_handshake_header f)
      in b\<lparr>fr_cache := al_put k (fragments k b @ [f]) (fr_cache b)\<rparr>)"

text \<open>The loop over the handshake messages of one record.\<close>

function push_fragments ::
  "RecordLayerHeader \<Rightarrow> bytes \<Rightarrow> FragmentBuffer \<Rightarrow> (dtls_error + bool) \<times> FragmentBuffer" where
  "push_fragments rh buf b =
     (if buf = [] then (Inr True, b)
      else case unmarshal_handshake_header buf of
        Inl e \<Rightarrow> (Inl e, b)
      | Inr (hh, rest) \<Rightarrow>
          let stop = min (HANDSHAKE_HEADER_LENGTH + unat (hh_length hh)) (length buf);
              data = take (stop - HANDSHAKE_HEADER_LENGTH) (drop HANDSHAKE_HEADER_LENGTH buf)
          in push_fragments rh (drop stop buf)
               (cache_fragment \<lparr>fr_record_header = rh, fr_handshake_header = hh, fr_data = data\<rparr> b))"
  by pat_completeness auto
termination
  by (relation "measure (\<lambda>(rh, buf, b). length buf)")
    (auto simp: HANDSHAKE_HEADER_LENGTH_def dest: unmarshal_handshake_header_Inr)

declare push_fragments.simps [simp del]

definition fragment_push :: "bytes \<Rightarrow> FragmentBuffer \<Rightarrow> (dtls_error + bool) \<times> FragmentBuffer" where
  "fragment_push buf b =
     (if FRAGMENT_BUFFER_MAX_SIZE \<le> fragment_buffer_size b + length buf
      then (Inl (ErrFragmentBufferOverflow (fragment_buffer_size b + length buf) FRAGMENT_BUFFER_MAX_SIZE), b)
      else case unmarshal_record_header buf of
        Inl e \<Rightarrow> (Inl e, b)
      | Inr (rh, rest) \<Rightarrow>
          if rl_content_type rh \<noteq> HandshakeContent then (Inr False, b)
          else push_fragments rh (drop RECORD_LAYER_HEADER_SIZE buf) b)"

text \<open>
  The recursion that collects a message from its fragments; the inner option is the boolean
  result with the collected bytes.
\<close>

definition find_fragment :: "u32 \<Rightarrow> Fragment list \<Rightarrow> Fragment option" where
  "find_fragment offset frags = find (\<lambda>f. hh_fragment_offset (fr_handshake_header f) = offset) frags"

lemma find_fragment_Some:
  "find_fragment offset frags = Some f \<Longrightarrow> f \<in> set frags \<and> hh_fragment_offset (fr_handshake_header f) = offset"
  by (auto simp: find_fragment_def find_Some_iff in_set_conv_nth)

lemma length_filter_less_filter:
  assumes "x \<in> set xs" and "P x" and "\<not> Q x" and "\<And>y. Q y \<Longrightarrow> P y"
  shows "length (filter Q xs) < length (filter P xs)"
  using assms(1)
proof (induction xs)
  case (Cons y ys)
  have "length (filter Q zs) \<le> length (filter P zs)" for zs
    by (induction zs) (use assms(4) in \<open>auto intro: le_SucI\<close>)
  then show ?case using Cons assms by (auto simp: less_Suc_eq_le)
qed simp

function append_message :: "u32 \<Rightarrow> Fragment list \<Rightarrow> bytes \<Rightarrow> bytes option option" where
  "append_message target frags raw =
     (case find_fragment target frags of
        None \<Rightarrow> Some None
      | Some f \<Rightarrow>
          (case add_checked (hh_fragment_offset (fr_handshake_header f)) (hh_fragment_length (fr_handshake_header f)) of
             None \<Rightarrow> None
           | Some fragment_end \<Rightarrow>
               if fragment_end \<noteq> hh_length (fr_handshake_header f)
               then if hh_fragment_length (fr_handshake_header f) \<noteq> 0
                 then map_option (map_option (\<lambda>raw. fr_data f @ raw)) (append_message fragment_end frags raw)
                 else Some (Some (fr_data f @ raw))
               else Some (Some (fr_data f @ raw))))"
  by pat_completeness auto
termination
proof (relation "measure (\<lambda>(target, frags, raw).
    length (filter (\<lambda>f. target \<le> hh_fragment_offset (fr_handshake_header f)) frags))")
  fix target :: u32 and frags raw f fragment_end
  assume f: "find_fragment target frags = Some f"
    and e: "add_checked (hh_fragment_offset (fr_handshake_header f))
      (hh_fragment_length (fr_handshake_header f)) = Some fragment_end"
    and nz: "hh_fragment_length (fr_handshake_header f) \<noteq> 0"
  let ?P = "\<lambda>t f. t \<le> hh_fragment_offset (fr_handshake_header f)"
  have mem: "f \<in> set frags" "hh_fragment_offset (fr_handshake_header f) = target"
    using find_fragment_Some [OF f] by auto
  have "unat fragment_end = unat target + unat (hh_fragment_length (fr_handshake_header f))"
    using e mem by (auto simp: add_checked_def unat_word_ariths split: if_splits)
  then have less: "target < fragment_end" using nz by (simp add: word_less_nat_alt unat_gt_0)
  have "length (filter (?P fragment_end) frags) < length (filter (?P target) frags)"
    using mem less by (intro length_filter_less_filter) auto
  then show "((fragment_end, frags, raw), (target, frags, raw)) \<in> measure (\<lambda>(target, frags, raw).
      length (filter (?P target) frags))" by simp
qed simp

declare append_message.simps [simp del]

definition fragment_pop :: "FragmentBuffer \<Rightarrow> ((dtls_error + bytes \<times> u16) \<times> FragmentBuffer) option" where
  "fragment_pop b =
     (let seq_num = fr_current b
      in case map_of (fr_cache b) seq_num of
           None \<Rightarrow> Some (Inl ErrEmptyFragment, b)
         | Some frags \<Rightarrow> do {
             collected \<leftarrow> append_message 0 frags [];
             (case collected of
                None \<Rightarrow> Some (Inl ErrEmptyFragment, b)
              | Some raw_message \<Rightarrow> do {
                  first \<leftarrow> idx frags 0;
                  let first_header = (fr_handshake_header first)
                    \<lparr>hh_fragment_offset := 0, hh_fragment_length := hh_length (fr_handshake_header first)\<rparr>;
                  raw_header \<leftarrow> marshal_handshake_header first_header;
                  next_seq \<leftarrow> add_checked seq_num 1;
                  Some (Inr (raw_header @ raw_message, rl_epoch (fr_record_header first)),
                    \<lparr>fr_cache = al_remove seq_num (fr_cache b), fr_current = next_seq\<rparr>)
                })
           })"

subsection \<open>Reassembly\<close>

text \<open>A message cut into pieces, and the header of the fragment that carries a piece.\<close>

definition piece_offset :: "bytes list \<Rightarrow> nat \<Rightarrow> nat" where
  "piece_offset pieces i = length (concat (take i pieces))"

definition piece_header :: "HandshakeType \<Rightarrow> u16 \<Rightarrow> bytes list \<Rightarrow> nat \<Rightarrow> HandshakeHeader" where
  "piece_header ty k pieces i = \<lparr>hh_handshake_type = ty, hh_length = of_nat (length (concat pieces)),
     hh_message_sequence = k, hh_fragment_offset = of_nat (piece_offset pieces i),
     hh_fragment_length = of_nat (length (pieces ! i))\<rparr>"

definition piece_fragment ::
  "HandshakeType \<Rightarrow> u16 \<Rightarrow> bytes list \<Rightarrow> RecordLayerHeader \<times> nat \<Rightarrow> Fragment" where
  "piece_fragment ty k pieces = (\<lambda>(rh, i). \<lparr>fr_record_header = rh,
     fr_handshake_header = piece_header ty k pieces i, fr_data = pieces ! i\<rparr>)"

definition cuts_message :: "bytes list \<Rightarrow> bool" where
  "cuts_message pieces \<longleftrightarrow> pieces \<noteq> [] \<and> [] \<notin> set pieces \<and> length (concat pieces) < 2 ^ 24"

lemma piece_offset_Suc: "i < length pieces \<Longrightarrow> piece_offset pieces (Suc i) = piece_offset pieces i + length (pieces ! i)"
  by (simp add: piece_offset_def take_Suc_conv_app_nth)

lemma piece_offset_mono: "i \<le> j \<Longrightarrow> piece_offset pieces i \<le> piece_offset pieces j"
  using take_add [of i "j - i" pieces] by (simp add: piece_offset_def)

lemma piece_offset_less:
  assumes "cuts_message pieces" and "i < j" and "i < length pieces"
  shows "piece_offset pieces i < piece_offset pieces j"
proof -
  have "pieces ! i \<noteq> []" using assms by (metis cuts_message_def nth_mem)
  then have "piece_offset pieces i < piece_offset pieces (Suc i)" using assms by (simp add: piece_offset_Suc)
  also have "\<dots> \<le> piece_offset pieces j" using assms(2) by (intro piece_offset_mono) simp
  finally show ?thesis .
qed

lemma piece_offset_end: "length pieces \<le> i \<Longrightarrow> piece_offset pieces i = length (concat pieces)"
  by (simp add: piece_offset_def)

lemma piece_offset_bound: "piece_offset pieces i \<le> length (concat pieces)"
  using piece_offset_mono [of i "max i (length pieces)" pieces] by (simp add: piece_offset_end)

lemma unat_u24: "x < 2 ^ 24 \<Longrightarrow> unat (of_nat x :: u32) = x"
  by (rule unat_of_nat_small) simp

lemma u24_inject: "x < 2 ^ 24 \<Longrightarrow> y < 2 ^ 24 \<Longrightarrow> (of_nat x :: u32) = of_nat y \<longleftrightarrow> x = y"
  using unat_u24 by metis

lemma find_piece:
  assumes cuts: "cuts_message pieces" and i: "i < length pieces" and order: "snd ` set order \<subseteq> {..<length pieces}"
  shows "find_fragment (of_nat (piece_offset pieces i)) (map (piece_fragment ty k pieces) order) =
    map_option (piece_fragment ty k pieces) (find (\<lambda>x. snd x = i) order)"
  using order
proof (induction order)
  case (Cons x order)
  have small: "piece_offset pieces j < 2 ^ 24" for j
    using piece_offset_bound [of pieces j] cuts by (simp add: cuts_message_def)
  have "piece_offset pieces (snd x) = piece_offset pieces i \<longleftrightarrow> snd x = i"
    using piece_offset_less [OF cuts, of i "snd x"] piece_offset_less [OF cuts, of "snd x" i] i Cons.prems
    by (cases "snd x" i rule: linorder_cases) auto
  then have "(of_nat (piece_offset pieces (snd x)) :: u32) = of_nat (piece_offset pieces i) \<longleftrightarrow> snd x = i"
    using u24_inject [OF small small] by simp
  then show ?case using Cons
    by (auto simp: find_fragment_def piece_fragment_def piece_header_def split_beta)
qed (simp add: find_fragment_def)

text \<open>From any piece on, the collected bytes are the rest of the message, unless a piece is missing.\<close>

lemma append_message_pieces:
  assumes cuts: "cuts_message pieces" and order: "snd ` set order \<subseteq> {..<length pieces}" and i: "i < length pieces"
  shows "append_message (of_nat (piece_offset pieces i)) (map (piece_fragment ty k pieces) order) raw =
    Some (if {i..<length pieces} \<subseteq> snd ` set order then Some (concat (drop i pieces) @ raw) else None)"
  using i
proof (induction "length pieces - i" arbitrary: i)
  case (Suc n)
  let ?frags = "map (piece_fragment ty k pieces) order"
  have small: "piece_offset pieces j < 2 ^ 24" for j
    using piece_offset_bound [of pieces j] cuts by (simp add: cuts_message_def)
  show ?case
  proof (cases "find (\<lambda>x. snd x = i) order")
    case None
    then have "i \<notin> snd ` set order" by (auto simp: find_None_iff)
    moreover have "i \<in> {i..<length pieces}" using Suc.prems by simp
    ultimately have "\<not> {i..<length pieces} \<subseteq> snd ` set order" by blast
    then show ?thesis
      using None find_piece [OF cuts Suc.prems order] by (subst append_message.simps) simp
  next
    case (Some x)
    then have x: "snd x = i" "x \<in> set order" by (auto simp: find_Some_iff in_set_conv_nth)
    have found: "find_fragment (of_nat (piece_offset pieces i)) ?frags = Some (piece_fragment ty k pieces x)"
      using Some find_piece [OF cuts Suc.prems order] by simp
    let ?hh = "fr_handshake_header (piece_fragment ty k pieces x)"
    have hh: "?hh = piece_header ty k pieces i" "fr_data (piece_fragment ty k pieces x) = pieces ! i"
      using x by (simp_all add: piece_fragment_def split_beta)
    have len: "length (pieces ! i) \<le> piece_offset pieces (Suc i)"
      using Suc.prems by (simp add: piece_offset_Suc)
    have "length (pieces ! i) < 2 ^ 24" using len small [of "Suc i"] by (rule le_less_trans)
    then have sum: "add_checked (hh_fragment_offset ?hh) (hh_fragment_length ?hh) = Some (of_nat (piece_offset pieces (Suc i)))"
      using small [of i] small [of "Suc i"] Suc.prems
      by (simp add: hh piece_header_def add_checked_def unat_u24 piece_offset_Suc)
    have nonempty: "hh_fragment_length ?hh \<noteq> 0"
    proof -
      have "pieces ! i \<noteq> []" using cuts Suc.prems by (metis cuts_message_def nth_mem)
      then show ?thesis using u24_inject [of "length (pieces ! i)" 0] \<open>length (pieces ! i) < 2 ^ 24\<close>
        by (simp add: hh piece_header_def)
    qed
    have last: "of_nat (piece_offset pieces (Suc i)) = hh_length ?hh \<longleftrightarrow> Suc i = length pieces"
    proof -
      have "piece_offset pieces (Suc i) = length (concat pieces) \<longleftrightarrow> Suc i = length pieces"
        using piece_offset_less [OF cuts, of "Suc i" "length pieces"] Suc.prems
        by (cases "Suc i = length pieces") (auto simp: piece_offset_end)
      then show ?thesis
        using u24_inject [OF small [of "Suc i"] small [of "length pieces"]]
        by (simp add: hh piece_header_def piece_offset_end)
    qed
    have dropi: "drop i pieces = pieces ! i # drop (Suc i) pieces" using Suc.prems by (simp add: Cons_nth_drop_Suc)
    have "i \<in> snd ` set order" using x by force
    moreover have "{i..<length pieces} = insert i {Suc i..<length pieces}" using Suc.prems by auto
    ultimately have cover: "{i..<length pieces} \<subseteq> snd ` set order \<longleftrightarrow> {Suc i..<length pieces} \<subseteq> snd ` set order"
      by simp
    show ?thesis
    proof (cases "Suc i = length pieces")
      case True
      then show ?thesis
        using found sum last cover dropi hh(2) by (subst append_message.simps) simp
    next
      case False
      then have "append_message (of_nat (piece_offset pieces (Suc i))) ?frags raw =
        Some (if {Suc i..<length pieces} \<subseteq> snd ` set order then Some (concat (drop (Suc i) pieces) @ raw) else None)"
        using Suc.hyps(1) [of "Suc i"] Suc.hyps(2) Suc.prems by simp
      then show ?thesis
        using found sum last nonempty cover dropi hh(2) False by (subst append_message.simps) simp
    qed
  qed
qed simp

subsection \<open>Pushing the records of a message\<close>

fun push_all :: "bytes list \<Rightarrow> FragmentBuffer \<Rightarrow> (dtls_error + bool) \<times> FragmentBuffer" where
  "push_all [] b = (Inr True, b)"
| "push_all (bs # bss) b =
     (case fragment_push bs b of (Inr True, b) \<Rightarrow> push_all bss b | (r, b) \<Rightarrow> (r, b))"

definition carries ::
  "HandshakeType \<Rightarrow> u16 \<Rightarrow> bytes list \<Rightarrow> RecordLayerHeader \<times> nat \<Rightarrow> bytes \<Rightarrow> bool" where
  "carries ty k pieces = (\<lambda>(rh, i) bs. i < length pieces \<and> rl_content_type rh = HandshakeContent \<and>
     rl_protocol_version rh \<in> {PROTOCOL_VERSION1_0, PROTOCOL_VERSION1_2} \<and>
     (\<exists>rb hb. marshal_record_header rh = Inr rb \<and> marshal_handshake_header (piece_header ty k pieces i) = Some hb \<and>
        bs = rb @ hb @ pieces ! i))"

lemma push_one_piece:
  assumes cuts: "cuts_message pieces" and "carries ty k pieces x bs"
    and room: "fragment_buffer_size b + length bs < FRAGMENT_BUFFER_MAX_SIZE"
  shows "fragment_push bs b = (Inr True, cache_fragment (piece_fragment ty k pieces x) b) \<and>
    length (fr_data (piece_fragment ty k pieces x)) \<le> length bs"
proof -
  obtain rh i where x: "x = (rh, i)" by (cases x)
  obtain rb hb where i: "i < length pieces" and rh: "rl_content_type rh = HandshakeContent"
    "rl_protocol_version rh \<in> {PROTOCOL_VERSION1_0, PROTOCOL_VERSION1_2}"
    and rb: "marshal_record_header rh = Inr rb"
    and hb: "marshal_handshake_header (piece_header ty k pieces i) = Some hb"
    and bs: "bs = rb @ hb @ pieces ! i"
    using assms(2) x by (auto simp: carries_def)
  have r: "unmarshal_record_header bs = Inr (rh, hb @ pieces ! i)" "length rb = 13"
    using record_header_roundtrip [OF rb rh(2), of "hb @ pieces ! i"] bs by (simp_all add: RECORD_LAYER_HEADER_SIZE_def)
  have h: "unmarshal_handshake_header (hb @ pieces ! i) = Inr (piece_header ty k pieces i, pieces ! i)" "length hb = 12"
    using handshake_header_roundtrip [OF hb, of "pieces ! i"] by (simp_all add: HANDSHAKE_HEADER_LENGTH_def)
  have "length (pieces ! i) \<le> length (concat pieces)"
    using i piece_offset_Suc [OF i] piece_offset_bound [of pieces "Suc i"] by simp
  then have stop: "min (12 + unat (hh_length (piece_header ty k pieces i))) (length (hb @ pieces ! i)) = length (hb @ pieces ! i)"
    using cuts h(2) by (simp add: piece_header_def cuts_message_def unat_u24)
  have nonempty: "hb \<noteq> []" using h(2) by auto
  have "push_fragments rh (hb @ pieces ! i) b = (Inr True, cache_fragment (piece_fragment ty k pieces x) b)"
  proof -
    have "push_fragments rh (hb @ pieces ! i) b = push_fragments rh [] (cache_fragment (piece_fragment ty k pieces x) b)"
      using nonempty h stop x
      by (subst push_fragments.simps) (simp add: Let_def HANDSHAKE_HEADER_LENGTH_def piece_fragment_def)
    then show ?thesis by (simp add: push_fragments.simps)
  qed
  then show ?thesis
    using room r rh(1) bs x
    by (auto simp: fragment_push_def RECORD_LAYER_HEADER_SIZE_def piece_fragment_def)
qed

definition fragments_ok :: "FragmentBuffer \<Rightarrow> bool" where
  "fragments_ok b \<longleftrightarrow> distinct (al_keys (fr_cache b))"

lemma cache_fragment_ok [simp]: "fragments_ok b \<Longrightarrow> fragments_ok (cache_fragment f b)"
  by (auto simp: fragments_ok_def cache_fragment_def Let_def al_keys_put)

lemma cache_fragment_map:
  "map_of (fr_cache (cache_fragment f b)) j =
     (if j = hh_message_sequence (fr_handshake_header f) then Some (fragments j b @ [f]) else map_of (fr_cache b) j)"
  "fr_current (cache_fragment f b) = fr_current b"
  by (auto simp: cache_fragment_def Let_def)

lemma sum_al_put:
  assumes "distinct (al_keys m)"
  shows "(\<Sum>(k, v) \<leftarrow> al_put j x m. g v) = (\<Sum>(k, v) \<leftarrow> al_remove j m. g v) + (g x :: nat)"
  using assms
proof (cases "map_of m j")
  case None
  then show ?thesis
    using al_remove_id [of j m] by (simp add: al_put_def map_of_keys_iff)
next
  case (Some y)
  have "(\<Sum>(k, v) \<leftarrow> map (\<lambda>(k', v'). if k' = j then (k', x) else (k', v')) m. g v) =
      (\<Sum>(k, v) \<leftarrow> al_remove j m. g v) + g x"
    using assms Some
  proof (induction m)
    case (Cons p m)
    obtain k v where p: "p = (k, v)" by (cases p)
    show ?case
    proof (cases "k = j")
      case True
      then have "j \<notin> set (al_keys m)" using Cons.prems p by (simp add: al_keys_def)
      moreover from this have "map (\<lambda>(k', v'). if k' = j then (k', x) else (k', v')) m = m"
        by (intro map_idI) (force simp: al_keys_def)
      ultimately show ?thesis using True p al_remove_id [of j m] by (simp add: al_remove_def)
    next
      case False
      then show ?thesis using Cons p by (simp add: al_remove_def al_keys_def)
    qed
  qed simp
  then show ?thesis using Some by (simp add: al_put_def)
qed

lemma size_cache_fragment:
  assumes "fragments_ok b"
  shows "fragment_buffer_size (cache_fragment f b) = fragment_buffer_size b + length (fr_data f)"
proof -
  let ?g = "\<lambda>frags. \<Sum>f \<leftarrow> frags. length (fr_data f)" and ?k = "hh_message_sequence (fr_handshake_header f)"
  have "fragment_buffer_size b = (\<Sum>(k, v) \<leftarrow> al_remove ?k (fr_cache b). ?g v) + ?g (fragments ?k b)"
  proof (cases "map_of (fr_cache b) ?k")
    case None
    then show ?thesis
      using al_remove_id [of ?k "fr_cache b"] by (simp add: fragment_buffer_size_def fragments_def map_of_keys_iff)
  next
    case (Some y)
    have "map_of (fr_cache b) ?k = Some y \<Longrightarrow> distinct (al_keys (fr_cache b)) \<Longrightarrow> al_put ?k y (fr_cache b) = fr_cache b"
      by (auto simp: al_put_def al_keys_def simp del: map_of_eq_Some_iff intro!: map_idI dest: map_of_is_SomeI)
    then show ?thesis
      using Some assms sum_al_put [of "fr_cache b" ?g ?k y]
      by (simp add: fragment_buffer_size_def fragments_def fragments_ok_def)
  qed
  then show ?thesis
    using assms sum_al_put [of "fr_cache b" ?g ?k "fragments ?k b @ [f]"]
    by (simp add: fragment_buffer_size_def cache_fragment_def Let_def fragments_ok_def)
qed

lemma push_all_pieces:
  assumes "cuts_message pieces" and "list_all2 (carries ty k pieces) order bss" and "fragments_ok b"
    and "fragment_buffer_size b + length (concat bss) < FRAGMENT_BUFFER_MAX_SIZE"
  shows "push_all bss b = (Inr True, fold cache_fragment (map (piece_fragment ty k pieces) order) b)"
  using assms(2-)
proof (induction order bss arbitrary: b rule: list_all2_induct)
  case (Cons x order bs bss)
  let ?f = "piece_fragment ty k pieces x"
  have push: "fragment_push bs b = (Inr True, cache_fragment ?f b)" "length (fr_data ?f) \<le> length bs"
    using push_one_piece [OF assms(1) Cons.hyps(1), of b] Cons.prems by simp_all
  moreover have "fragment_buffer_size (cache_fragment ?f b) + length (concat bss) < FRAGMENT_BUFFER_MAX_SIZE"
    using size_cache_fragment [OF Cons.prems(1), of ?f] push(2) Cons.prems(2) by simp
  ultimately show ?case using Cons.IH Cons.prems(1) by simp
qed simp

lemma cached_pieces:
  "fr_current (fold cache_fragment (map (piece_fragment ty k pieces) order) b) = fr_current b"
  "map_of (fr_cache (fold cache_fragment (map (piece_fragment ty k pieces) order) b)) j =
     (if j = k \<and> order \<noteq> [] then Some (fragments k b @ map (piece_fragment ty k pieces) order)
      else map_of (fr_cache b) j)"
proof (induction order arbitrary: b)
  case (Cons x order)
  have "hh_message_sequence (fr_handshake_header (piece_fragment ty k pieces x)) = k"
    by (simp add: piece_fragment_def piece_header_def split_beta)
  note step = cache_fragment_map [of "piece_fragment ty k pieces x", unfolded this]
  {
    case 1
    show ?case by (simp add: Cons(1) step(2))
  next
    case 2
    have "fragments k (cache_fragment (piece_fragment ty k pieces x) b) = fragments k b @ [piece_fragment ty k pieces x]"
      using step by (simp add: fragments_def)
    then show ?case using Cons(2) [of "cache_fragment (piece_fragment ty k pieces x) b"]
      by (cases order) (auto simp: step(1))
  }
qed simp_all

text \<open>
  C36. The records that carry the pieces of the next handshake message, in any order and with any
  repetitions, are all taken in, and then the message comes out: its header without
  fragmentation followed by the pieces in order, with the epoch of the first record; the buffer
  waits for the next message. While a piece is missing nothing comes out and the buffer keeps
  what it has.
\<close>

theorem handshake_reassembles:
  assumes "cuts_message pieces" and "fragments_ok b" and "map_of (fr_cache b) k = None"
    and "fr_current b = k" and "k \<noteq> - 1"
    and "list_all2 (carries ty k pieces) order bss" and "order \<noteq> []"
    and "fragment_buffer_size b + length (concat bss) < FRAGMENT_BUFFER_MAX_SIZE"
  shows "\<exists>b'. push_all bss b = (Inr True, b') \<and>
    (if snd ` set order = {..<length pieces}
     then \<exists>hb b''. marshal_handshake_header \<lparr>hh_handshake_type = ty, hh_length = of_nat (length (concat pieces)),
              hh_message_sequence = k, hh_fragment_offset = 0,
              hh_fragment_length = of_nat (length (concat pieces))\<rparr> = Some hb \<and>
            fragment_pop b' = Some (Inr (hb @ concat pieces, rl_epoch (fst (hd order))), b'') \<and>
            fr_current b'' = k + 1
     else fragment_pop b' = Some (Inl ErrEmptyFragment, b'))"
proof -
  let ?frags = "map (piece_fragment ty k pieces) order"
  let ?b' = "fold cache_fragment ?frags b"
  have order: "snd ` set order \<subseteq> {..<length pieces}"
    using assms(6) by (induction rule: list_all2_induct) (auto simp: carries_def)
  have cached: "map_of (fr_cache ?b') k = Some ?frags" "fr_current ?b' = k"
    using assms(3,4,7) cached_pieces [of ty k pieces order b] by (simp_all add: fragments_def)
  have zero: "0 < length pieces" "piece_offset pieces 0 = 0"
    using assms(1) by (simp_all add: cuts_message_def piece_offset_def)
  have "{0..<length pieces} \<subseteq> snd ` set order \<longleftrightarrow> snd ` set order = {..<length pieces}"
    using order by (auto simp: atLeast0LessThan)
  then have collect: "append_message 0 ?frags [] =
      Some (if snd ` set order = {..<length pieces} then Some (concat pieces) else None)"
    using append_message_pieces [OF assms(1) order zero(1), of ty k "[]"] zero(2) by simp
  obtain x xs where x: "order = x # xs" using assms(7) by (cases order) auto
  have "unat (of_nat (length (concat pieces)) :: u32) < 2 ^ 24"
    using assms(1) unat_u24 by (metis cuts_message_def)
  then obtain hb where hb: "marshal_handshake_header \<lparr>hh_handshake_type = ty, hh_length = of_nat (length (concat pieces)),
      hh_message_sequence = k, hh_fragment_offset = 0, hh_fragment_length = of_nat (length (concat pieces))\<rparr> = Some hb"
    by (simp add: marshal_handshake_header_def write_u24_def)
  have first: "(fr_handshake_header (piece_fragment ty k pieces x))
      \<lparr>hh_fragment_offset := 0, hh_fragment_length := hh_length (fr_handshake_header (piece_fragment ty k pieces x))\<rparr> =
      \<lparr>hh_handshake_type = ty, hh_length = of_nat (length (concat pieces)), hh_message_sequence = k,
       hh_fragment_offset = 0, hh_fragment_length = of_nat (length (concat pieces))\<rparr>"
    "rl_epoch (fr_record_header (piece_fragment ty k pieces x)) = rl_epoch (fst x)"
    by (simp_all add: piece_fragment_def piece_header_def split_beta)
  have inc: "add_checked k 1 = Some (k + 1)"
    using assms(5) add_checked_one_None_iff [of k] by (auto simp: add_checked_def split: if_splits)
  have "fragment_pop ?b' = (if snd ` set order = {..<length pieces}
      then Some (Inr (hb @ concat pieces, rl_epoch (fst x)), \<lparr>fr_cache = al_remove k (fr_cache ?b'), fr_current = k + 1\<rparr>)
      else Some (Inl ErrEmptyFragment, ?b'))"
    using cached collect hb inc first x by (simp add: fragment_pop_def Let_def)
  moreover have "push_all bss b = (Inr True, ?b')"
    by (rule push_all_pieces [OF assms(1,6,2,8)])
  ultimately show ?thesis using hb x by auto
qed

definition sample_pieces :: "bytes list" where
  "sample_pieces = [[1, 2], [3]]"

theorem handshake_reassembles_witness:
  "\<exists>bss hb b' b''. length bss = 2 \<and> push_all bss new_fragment_buffer = (Inr True, b') \<and>
     fragment_pop b' = Some (Inr (hb @ [1, 2, 3], 1), b'') \<and> fr_current b'' = 1"
proof -
  have len: "concat sample_pieces = [1, 2, 3]" "length sample_pieces = 2" by (simp_all add: sample_pieces_def)
  obtain rb where rb: "marshal_record_header sample_record_header = Inr rb"
    by (simp add: marshal_record_header_def sample_record_header_def MAX_SEQUENCE_NUMBER_def)
  then have 1: "length rb = 13"
    using record_header_roundtrip [OF rb] by (simp add: sample_record_header_def RECORD_LAYER_HEADER_SIZE_def)
  have "\<exists>hb. marshal_handshake_header (piece_header Finished 0 sample_pieces i) = Some hb" if "i \<in> {0, 1}" for i
    using that by (auto simp: marshal_handshake_header_def write_u24_def piece_header_def sample_pieces_def piece_offset_def)
  then obtain h0 h1 where h: "marshal_handshake_header (piece_header Finished 0 sample_pieces 0) = Some h0"
    "marshal_handshake_header (piece_header Finished 0 sample_pieces 1) = Some h1" by blast
  have 2: "length h0 = 12" "length h1 = 12"
    using handshake_header_roundtrip [OF h(1)] handshake_header_roundtrip [OF h(2)]
    by (simp_all add: HANDSHAKE_HEADER_LENGTH_def)
  let ?order = "[(sample_record_header, 1), (sample_record_header, 0)]"
  let ?bss = "[rb @ h1 @ [3], rb @ h0 @ [1, 2]]"
  have "list_all2 (carries Finished 0 sample_pieces) ?order ?bss"
    using rb h by (simp add: carries_def sample_record_header_def) (simp add: sample_pieces_def)
  moreover have "cuts_message sample_pieces" using len by (simp add: cuts_message_def) (simp add: sample_pieces_def)
  moreover have "fragment_buffer_size new_fragment_buffer + length (concat ?bss) < FRAGMENT_BUFFER_MAX_SIZE"
    using 1 2 by (simp add: new_fragment_buffer_def fragment_buffer_size_def FRAGMENT_BUFFER_MAX_SIZE_def)
  moreover have "fragments_ok new_fragment_buffer \<and> map_of (fr_cache new_fragment_buffer) 0 = None \<and>
      fr_current new_fragment_buffer = 0" by (simp add: new_fragment_buffer_def fragments_ok_def al_keys_def)
  moreover have "snd ` set ?order = {..<length sample_pieces}" unfolding len(2) by auto
  ultimately obtain b' hb b'' where "push_all ?bss new_fragment_buffer = (Inr True, b')"
    "fragment_pop b' = Some (Inr (hb @ concat sample_pieces, rl_epoch (fst (hd ?order))), b'')" "fr_current b'' = 0 + 1"
    using handshake_reassembles [of sample_pieces new_fragment_buffer 0 Finished ?order ?bss] by auto
  then show ?thesis unfolding len(1)
    by (intro exI [of _ ?bss] exI [of _ hb] exI [of _ b'] exI [of _ b'']) (simp add: sample_record_header_def)
qed

end
