(* ===== verification/Replay_Detector.thy ===== *)
theory Replay_Detector
  imports Netpoke_Prelude
begin

text \<open>
  The sliding window replay detector of \<open>vendored/webrtc-util\<close>: the fixed-size bit vector
  (\<open>fixed_big_int/mod.rs\<close>) and the detector over it (\<open>replay_detector/mod.rs\<close>), with the
  contract of the \<open>ReplayDetector\<close> trait as a locale.
\<close>

subsection \<open>The bit vector\<close>

record FixedBigInt =
  fb_bits :: "u64 list"
  fb_n :: nat
  fb_msb_mask :: u64

definition fb_new :: "nat \<Rightarrow> FixedBigInt" where
  "fb_new n = \<lparr>fb_bits = replicate (let chunk_size = (n + 63) div 64 in if chunk_size = 0 then 1 else chunk_size) 0,
     fb_n = n,
     fb_msb_mask = (if n mod 64 = 0 then - 1 else push_bit (64 - n mod 64) 1 - 1)\<rparr>"

text \<open>One turn of the loop of \<open>lsh\<close>, which runs from the last chunk down and in place.\<close>

definition lsh_chunk :: "nat \<Rightarrow> nat \<Rightarrow> u64 list \<Rightarrow> u64 list" where
  "lsh_chunk n i bits =
     (let n_chunk = n div 64;
          n_n = n mod 64;
          carry = (if n_chunk \<le> i
                   then push_bit n_n (bits ! (i - n_chunk)) OR
                     (if n_chunk < i then (if n_n = 0 then 0 else drop_bit (64 - n_n) (bits ! (i - n_chunk - 1))) else 0)
                   else 0)
      in bits[i := if 64 \<le> n then carry else push_bit n (bits ! i) OR carry])"

definition lsh :: "nat \<Rightarrow> FixedBigInt \<Rightarrow> FixedBigInt" where
  "lsh n x =
     (if n = 0 then x
      else let bits = fold (lsh_chunk n) (rev [0..<length (fb_bits x)]) (fb_bits x);
               last_chunk = length bits - 1
      in x\<lparr>fb_bits := bits[last_chunk := bits ! last_chunk AND fb_msb_mask x]\<rparr>)"

definition fb_bit :: "nat \<Rightarrow> FixedBigInt \<Rightarrow> bool" where
  "fb_bit i x = (if fb_n x \<le> i then False else fb_bits x ! (i div 64) AND push_bit (i mod 64) 1 \<noteq> 0)"

definition fb_set_bit :: "nat \<Rightarrow> FixedBigInt \<Rightarrow> FixedBigInt" where
  "fb_set_bit i x =
     (if fb_n x \<le> i then x
      else x\<lparr>fb_bits := (fb_bits x)[i div 64 := fb_bits x ! (i div 64) OR push_bit (i mod 64) 1]\<rparr>)"

text \<open>The vector as a sequence of bits.\<close>

definition bit_at :: "u64 list \<Rightarrow> nat \<Rightarrow> bool" where
  "bit_at bits i = bit (bits ! (i div 64)) (i mod 64)"

lemma and_bit_nonzero: "(w :: 'a::len word) AND push_bit k 1 \<noteq> 0 \<longleftrightarrow> k < LENGTH('a) \<and> bit w k"
proof -
  have "bit (w AND push_bit k 1) n \<longleftrightarrow> n = k \<and> k < LENGTH('a) \<and> bit w k" for n
    by (auto simp: bit_simps)
  then show ?thesis by (metis bit_0_eq bit_eq_iff bot_apply bot_bool_def)
qed

lemma fb_bit_at: "fb_bit i x \<longleftrightarrow> i < fb_n x \<and> bit_at (fb_bits x) i"
  unfolding fb_bit_def and_bit_nonzero bit_at_def by simp

lemma bit_at_chunk: "r < 64 \<Longrightarrow> bit_at bits (64 * q + r) \<longleftrightarrow> bit (bits ! q) r"
  by (simp add: bit_at_def)

lemma bit_at_update:
  assumes "i < 64 * length bits"
  shows "bit_at (bits[i div 64 := bits ! (i div 64) OR push_bit (i mod 64) 1]) j \<longleftrightarrow> j = i \<or> bit_at bits j"
proof (cases "j div 64 = i div 64")
  case True
  then have "j mod 64 = i mod 64 \<longleftrightarrow> j = i" by (metis div_mult_mod_eq)
  moreover have "i div 64 < length bits" using assms by auto
  ultimately show ?thesis using True by (auto simp: bit_at_def bit_simps)
next
  case False
  then show ?thesis by (auto simp: bit_at_def)
qed

text \<open>The new chunk holds the bits \<open>n\<close> places below.\<close>

lemma lsh_chunk_bit:
  assumes "j < 64" and "i < length bits"
  shows "bit (lsh_chunk n i bits ! i) j \<longleftrightarrow> n \<le> 64 * i + j \<and> bit_at bits (64 * i + j - n)"
proof -
  let ?c = "n div 64" and ?r = "n mod 64"
  have n: "n = 64 * ?c + ?r" by simp
  have r: "?r < 64" by simp
  consider "i < ?c" | "?c \<le> i" "?r \<le> j" | "?c < i" "j < ?r" | "i = ?c" "j < ?r" by linarith
  then show ?thesis
  proof cases
    case 1
    then have "\<not> n \<le> 64 * i + j" "64 \<le> n" using n assms(1) by linarith+
    then show ?thesis using 1 assms by (simp add: lsh_chunk_def Let_def)
  next
    case 2
    have "64 * i + j - n = 64 * (i - ?c) + (j - ?r)" using 2 n by (auto simp: algebra_simps)
    then have "bit_at bits (64 * i + j - n) \<longleftrightarrow> bit (bits ! (i - ?c)) (j - ?r)"
      using assms(1) 2 bit_at_chunk [of "j - ?r" bits "i - ?c"] by simp
    moreover have "n \<le> 64 * i + j" using 2 n by (metis add_le_mono mult_le_mono2)
    moreover have "\<not> bit (drop_bit (64 - ?r) (bits ! k)) j" for k
      using 2 bit_imp_le_length [of "bits ! k"] by (force simp: bit_simps)
    ultimately show ?thesis
      using 2 assms by (cases "64 \<le> n") (auto simp: lsh_chunk_def Let_def bit_simps)
  next
    case 3
    have "64 * i + j - n = 64 * (i - ?c - 1) + (64 + j - ?r)" using 3 n r by (auto simp: algebra_simps)
    moreover have "64 + j - ?r < 64" using 3 by simp
    ultimately have "bit_at bits (64 * i + j - n) \<longleftrightarrow> bit (bits ! (i - ?c - 1)) (64 + j - ?r)"
      by (simp only: bit_at_chunk)
    moreover have "n \<le> 64 * i + j" using 3 n r by linarith
    moreover have "64 - ?r + j = 64 + j - ?r" using r by simp
    ultimately show ?thesis
      using 3 assms by (cases "64 \<le> n") (auto simp: lsh_chunk_def Let_def bit_simps)
  next
    case 4
    then have "\<not> n \<le> 64 * i + j" using n by linarith
    then show ?thesis using 4 assms by (cases "64 \<le> n") (auto simp: lsh_chunk_def Let_def bit_simps)
  qed
qed

lemma length_lsh_chunk [simp]: "length (lsh_chunk n i bits) = length bits"
  by (simp add: lsh_chunk_def Let_def)

lemma lsh_chunk_other: "k \<noteq> i \<Longrightarrow> lsh_chunk n i bits ! k = bits ! k"
  by (simp add: lsh_chunk_def Let_def)

lemma lsh_loop:
  assumes "k \<le> length bits"
  shows "length (fold (lsh_chunk n) (rev [0..<k]) bits) = length bits \<and>
    (\<forall>i. k \<le> i \<longrightarrow> fold (lsh_chunk n) (rev [0..<k]) bits ! i = bits ! i) \<and>
    (\<forall>i < k. fold (lsh_chunk n) (rev [0..<k]) bits ! i = lsh_chunk n i bits ! i)"
  using assms
proof (induction k arbitrary: bits)
  case (Suc k)
  let ?b = "lsh_chunk n k bits"
  have "lsh_chunk n i ?b ! i = lsh_chunk n i bits ! i" if "i < k" for i
    using that Suc.prems by (simp add: lsh_chunk_def Let_def)
  then show ?case
    using Suc.IH [of ?b] Suc.prems by (auto simp: less_Suc_eq lsh_chunk_other)
qed simp

definition fb_ok :: "FixedBigInt \<Rightarrow> bool" where
  "fb_ok x \<longleftrightarrow> 0 < fb_n x \<and> fb_n x = 64 * length (fb_bits x) \<and> fb_msb_mask x = - 1"

lemma fb_ok_new: "0 < n \<Longrightarrow> 64 dvd n \<Longrightarrow> fb_ok (fb_new n)"
  by (auto simp: fb_ok_def fb_new_def Let_def elim!: dvdE)

lemma fb_bit_new [simp]: "\<not> fb_bit i (fb_new n)"
proof -
  have "i div 64 < (n + 63) div 64" if "i < n" using that by simp
  then show ?thesis by (auto simp: fb_bit_at bit_at_def fb_new_def Let_def)
qed

lemma lsh_ok [simp]: "fb_ok x \<Longrightarrow> fb_ok (lsh n x)" "fb_n (lsh n x) = fb_n x"
  using lsh_loop [of "length (fb_bits x)" "fb_bits x" n] by (auto simp: fb_ok_def lsh_def Let_def)

lemma fb_bit_lsh:
  assumes "fb_ok x"
  shows "fb_bit i (lsh n x) \<longleftrightarrow> i < fb_n x \<and> n \<le> i \<and> fb_bit (i - n) x"
proof (cases "n = 0 \<or> fb_n x \<le> i")
  case True
  then show ?thesis by (auto simp: lsh_def Let_def fb_bit_at)
next
  case False
  let ?bits = "fold (lsh_chunk n) (rev [0..<length (fb_bits x)]) (fb_bits x)"
  have i: "i div 64 < length (fb_bits x)" using False assms by (auto simp: fb_ok_def)
  have "fb_bits (lsh n x) = ?bits"
    using False assms by (simp add: lsh_def Let_def fb_ok_def)
  then have "bit_at (fb_bits (lsh n x)) i \<longleftrightarrow> bit (lsh_chunk n (i div 64) (fb_bits x) ! (i div 64)) (i mod 64)"
    using lsh_loop [of "length (fb_bits x)" "fb_bits x" n] i by (simp add: bit_at_def)
  also have "\<dots> \<longleftrightarrow> n \<le> i \<and> bit_at (fb_bits x) (i - n)"
    using lsh_chunk_bit [of "i mod 64" "i div 64" "fb_bits x" n] i by simp
  finally show ?thesis using False by (auto simp: fb_bit_at)
qed

lemma fb_set_ok [simp]: "fb_ok x \<Longrightarrow> fb_ok (fb_set_bit i x)" "fb_n (fb_set_bit i x) = fb_n x"
  by (auto simp: fb_ok_def fb_set_bit_def)

lemma fb_bit_set:
  assumes "fb_ok x"
  shows "fb_bit j (fb_set_bit i x) \<longleftrightarrow> (j = i \<and> i < fb_n x) \<or> fb_bit j x"
  using assms bit_at_update [of i "fb_bits x" j] by (auto simp: fb_bit_at fb_set_bit_def fb_ok_def)

subsection \<open>The detector\<close>

record SlidingWindowDetector =
  sd_accepted :: bool
  sd_seq :: u64
  sd_latest_seq :: u64
  sd_max_seq :: u64
  sd_window_size :: nat
  sd_mask :: FixedBigInt

definition sd_new :: "nat \<Rightarrow> u64 \<Rightarrow> SlidingWindowDetector" where
  "sd_new window_size max_seq = \<lparr>sd_accepted = False, sd_seq = 0, sd_latest_seq = 0, sd_max_seq = max_seq,
     sd_window_size = window_size, sd_mask = fb_new window_size\<rparr>"

definition sd_check :: "u64 \<Rightarrow> SlidingWindowDetector \<Rightarrow> (bool \<times> SlidingWindowDetector) option" where
  "sd_check seq d =
     (let d = d\<lparr>sd_accepted := False\<rparr>
      in if sd_max_seq d < seq then Some (False, d)
         else do {
           old \<leftarrow> (if seq \<le> sd_latest_seq d
                   then do {
                     limit \<leftarrow> add_checked (of_nat (sd_window_size d)) seq;
                     Some (limit \<le> sd_latest_seq d \<or> fb_bit (unat (sd_latest_seq d - seq)) (sd_mask d))
                   }
                   else Some False);
           Some (if old then (False, d) else (True, d\<lparr>sd_accepted := True, sd_seq := seq\<rparr>))
         })"

definition sd_accept :: "SlidingWindowDetector \<Rightarrow> SlidingWindowDetector option" where
  "sd_accept d =
     (if \<not> sd_accepted d then Some d
      else let d = (if sd_latest_seq d < sd_seq d
                    then d\<lparr>sd_mask := lsh (unat (sd_seq d - sd_latest_seq d)) (sd_mask d), sd_latest_seq := sd_seq d\<rparr>
                    else d)
      in do {
        diff \<leftarrow> umod_checked (unat (sd_latest_seq d - sd_seq d)) (unat (sd_max_seq d));
        Some (d\<lparr>sd_mask := fb_set_bit diff (sd_mask d)\<rparr>)
      })"

text \<open>
  The numbers accepted so far are a ghost of the state: below the window nothing is known but
  that numbers are refused, inside it a bit is set exactly for an accepted number.
\<close>

definition sd_ok :: "SlidingWindowDetector \<Rightarrow> bool" where
  "sd_ok d \<longleftrightarrow> fb_ok (sd_mask d) \<and> fb_n (sd_mask d) = sd_window_size d \<and>
     sd_window_size d \<le> unat (sd_max_seq d) \<and> sd_window_size d + unat (sd_max_seq d) < 2 ^ 64 \<and>
     sd_latest_seq d \<le> sd_max_seq d"

definition sd_tracks :: "SlidingWindowDetector \<Rightarrow> u64 set \<Rightarrow> bool" where
  "sd_tracks d seen \<longleftrightarrow> sd_ok d \<and> (\<forall>s \<in> seen. s \<le> sd_latest_seq d) \<and>
     (\<forall>s \<le> sd_latest_seq d. unat (sd_latest_seq d) - unat s < sd_window_size d \<longrightarrow>
        (fb_bit (unat (sd_latest_seq d) - unat s) (sd_mask d) \<longleftrightarrow> s \<in> seen))"

definition sd_fresh :: "SlidingWindowDetector \<Rightarrow> u64 set \<Rightarrow> u64 \<Rightarrow> bool" where
  "sd_fresh d seen s \<longleftrightarrow> s \<le> sd_max_seq d \<and>
     (sd_latest_seq d < s \<or> unat (sd_latest_seq d) - unat s < sd_window_size d \<and> s \<notin> seen)"

lemma sd_tracks_new:
  assumes "0 < w" and "64 dvd w" and "w \<le> unat m" and "w + unat m < 2 ^ 64"
  shows "sd_tracks (sd_new w m) {}"
proof -
  have "fb_n (fb_new w) = w" by (simp add: fb_new_def)
  then show ?thesis using assms fb_ok_new [of w] by (simp add: sd_tracks_def sd_new_def sd_ok_def)
qed

lemma sd_check_eq:
  assumes "sd_tracks d seen"
  shows "sd_check s d = Some (if sd_fresh d seen s then (True, d\<lparr>sd_accepted := True, sd_seq := s\<rparr>)
    else (False, d\<lparr>sd_accepted := False\<rparr>))"
proof (cases "sd_max_seq d < s")
  case True
  then show ?thesis by (simp add: sd_check_def sd_fresh_def not_le)
next
  case False
  note ok = assms [unfolded sd_tracks_def sd_ok_def]
  show ?thesis
  proof (cases "s \<le> sd_latest_seq d")
    case True
    have w: "unat (of_nat (sd_window_size d) :: u64) = sd_window_size d"
      using ok by (intro unat_of_nat_small) simp
    have "unat s \<le> unat (sd_max_seq d)" using False by (simp add: not_less word_le_nat_alt)
    then have sum: "sd_window_size d + unat s < 2 ^ 64" using ok by linarith
    then have limit: "add_checked (of_nat (sd_window_size d)) s = Some (of_nat (sd_window_size d) + s)"
      using w by (simp add: add_checked_def)
    have "unat (of_nat (sd_window_size d) + s) = sd_window_size d + unat s"
      using w sum by (simp add: unat_word_ariths)
    then have old: "of_nat (sd_window_size d) + s \<le> sd_latest_seq d \<longleftrightarrow>
        \<not> unat (sd_latest_seq d) - unat s < sd_window_size d"
      using True by (auto simp: word_le_nat_alt)
    have "unat (sd_latest_seq d - s) = unat (sd_latest_seq d) - unat s" using True by (simp add: unat_sub)
    then show ?thesis
      using False True limit old ok by (auto simp: sd_check_def sd_fresh_def Let_def)
  next
    case later: False
    then have "\<not> s \<le> sd_latest_seq d" "sd_latest_seq d < s" by simp_all
    then show ?thesis using False by (simp add: sd_check_def sd_fresh_def Let_def)
  qed
qed

lemma sd_fresh_not_seen: "sd_tracks d seen \<Longrightarrow> sd_fresh d seen s \<Longrightarrow> s \<notin> seen"
  by (auto simp: sd_tracks_def sd_fresh_def)

lemma sd_tracks_flag: "sd_tracks (d\<lparr>sd_accepted := a, sd_seq := s\<rparr>) seen \<longleftrightarrow> sd_tracks d seen"
  "sd_tracks (d\<lparr>sd_accepted := a\<rparr>) seen \<longleftrightarrow> sd_tracks d seen"
  by (simp_all add: sd_tracks_def sd_ok_def)

lemma sd_accept_tracks:
  assumes tracks: "sd_tracks d seen" and fresh: "sd_fresh d seen s" and d: "sd_accepted d" "sd_seq d = s"
  shows "\<exists>d'. sd_accept d = Some d' \<and> sd_tracks d' (insert s seen)"
proof -
  note ok = tracks [unfolded sd_tracks_def sd_ok_def]
  let ?w = "sd_window_size d" and ?l = "sd_latest_seq d"
  let ?m = "if ?l < s then lsh (unat (s - ?l)) (sd_mask d) else sd_mask d"
  let ?l' = "max ?l s"
  have m: "fb_ok ?m" "fb_n ?m = ?w" using ok by auto
  have max: "sd_max_seq d \<noteq> 0" using ok by (auto simp: fb_ok_def)
  have range: "unat ?l' - unat s < ?w"
    using fresh ok by (auto simp: sd_fresh_def max_def fb_ok_def)
  then have diff: "unat (?l' - s) mod unat (sd_max_seq d) = unat ?l' - unat s"
    using ok by (subst unat_sub) auto
  have "sd_accept d = Some (d\<lparr>sd_mask := fb_set_bit (unat ?l' - unat s) ?m, sd_latest_seq := ?l'\<rparr>)"
    using d max diff by (auto simp: sd_accept_def Let_def umod_checked_def max_def unat_eq_zero)
  moreover have "sd_tracks (d\<lparr>sd_mask := fb_set_bit (unat ?l' - unat s) ?m, sd_latest_seq := ?l'\<rparr>) (insert s seen)"
  proof -
    have bits: "fb_bit (unat ?l' - unat t) ?m \<longleftrightarrow> t \<in> seen"
      if t: "t \<le> ?l'" "unat ?l' - unat t < ?w" for t
    proof (cases "?l < s")
      case True
      have sub: "unat (s - ?l) = unat s - unat ?l" using True by (simp add: unat_sub)
      have "t \<in> seen \<Longrightarrow> t \<le> ?l" using ok by blast
      then show ?thesis
        using t True ok sub by (auto simp: fb_bit_lsh max_def word_le_nat_alt word_less_nat_alt)
    next
      case False
      then show ?thesis using t ok by (simp add: max_def)
    qed
    have "?l' \<le> sd_max_seq d" using ok fresh by (auto simp: sd_fresh_def)
    moreover have "unat ?l' - unat t = unat ?l' - unat s \<longleftrightarrow> t = s" if "t \<le> ?l'" for t
      using that by (metis diff_diff_cancel max.cobounded2 word_le_nat_alt word_unat_eq_iff)
    moreover have "t \<le> ?l'" if "t \<in> insert s seen" for t using that ok by (auto simp: le_max_iff_disj)
    ultimately show ?thesis
      using bits ok m range by (auto simp: sd_tracks_def sd_ok_def fb_bit_set)
  qed
  ultimately show ?thesis by blast
qed

subsection \<open>The contract of a replay detector\<close>

text \<open>
  What a user of the trait relies on: a number that passes the check was not accepted before,
  and accepting it right after is remembered.
\<close>

text \<open>
  The numbers let through of a sequence of received ones, each with the verdict on the packet
  that carries it: a packet is accepted after its number has passed the check.
\<close>

fun filter_run ::
  "(u64 \<Rightarrow> 'd \<Rightarrow> (bool \<times> 'd) option) \<Rightarrow> ('d \<Rightarrow> 'd option) \<Rightarrow> (u64 \<times> bool) list \<Rightarrow> 'd \<Rightarrow>
   (u64 list \<times> 'd) option" where
  "filter_run check accept [] d = Some ([], d)"
| "filter_run check accept ((s, genuine) # xs) d =
     do {
       (ok, d) \<leftarrow> check s d;
       if ok \<and> genuine
       then do { d \<leftarrow> accept d; (out, d) \<leftarrow> filter_run check accept xs d; Some (s # out, d) }
       else filter_run check accept xs d
     }"

locale replay_detector =
  fixes check :: "u64 \<Rightarrow> 'd \<Rightarrow> (bool \<times> 'd) option"
    and accept :: "'d \<Rightarrow> 'd option"
    and tracks :: "'d \<Rightarrow> u64 set \<Rightarrow> bool"
  assumes check_total: "tracks d seen \<Longrightarrow> \<exists>b d'. check s d = Some (b, d') \<and> tracks d' seen"
    and check_new: "tracks d seen \<Longrightarrow> check s d = Some (True, d') \<Longrightarrow> s \<notin> seen"
    and accept_total: "tracks d seen \<Longrightarrow> check s d = Some (True, d') \<Longrightarrow>
      \<exists>d''. accept d' = Some d'' \<and> tracks d'' (insert s seen)"
begin

lemma filter_run_once:
  assumes "tracks d seen"
  shows "\<exists>out d'. filter_run check accept xs d = Some (out, d') \<and> distinct out \<and> set out \<inter> seen = {} \<and>
    set out \<subseteq> fst ` set (filter snd xs) \<and> tracks d' (seen \<union> set out)"
  using assms
proof (induction xs arbitrary: d seen)
  case (Cons x xs)
  obtain s g where x: "x = (s, g)" by (cases x)
  obtain b d1 where 1: "check s d = Some (b, d1)" "tracks d1 seen" using check_total [OF Cons.prems] by blast
  show ?case
  proof (cases "b \<and> g")
    case True
    then have ok: "check s d = Some (True, d1)" using 1 by simp
    then obtain d2 where 2: "accept d1 = Some d2" "tracks d2 (insert s seen)"
      using accept_total [OF Cons.prems ok] by blast
    obtain out d' where 3: "filter_run check accept xs d2 = Some (out, d')" "distinct out" "set out \<inter> insert s seen = {}"
      "set out \<subseteq> fst ` set (filter snd xs)" "tracks d' (insert s seen \<union> set out)"
      using Cons.IH [OF 2(2)] by blast
    have "s \<notin> seen" by (rule check_new [OF Cons.prems ok])
    then show ?thesis using 1 2 3 x True by auto
  next
    case False
    then show ?thesis using Cons.IH [OF 1(2)] 1 x by fastforce
  qed
qed simp

end

interpretation sliding: replay_detector sd_check sd_accept sd_tracks
proof
  fix d seen s d'
  assume tracks: "sd_tracks d seen"
  show "\<exists>b d'. sd_check s d = Some (b, d') \<and> sd_tracks d' seen"
    using tracks by (auto simp: sd_check_eq sd_tracks_flag)
  assume check: "sd_check s d = Some (True, d')"
  then have fresh: "sd_fresh d seen s" and d': "d' = d\<lparr>sd_accepted := True, sd_seq := s\<rparr>"
    using sd_check_eq [OF tracks] by (auto split: if_splits)
  show "s \<notin> seen" using sd_fresh_not_seen [OF tracks fresh] .
  have "sd_fresh d' seen s" using fresh by (simp add: d' sd_fresh_def)
  then show "\<exists>d''. sd_accept d' = Some d'' \<and> sd_tracks d'' (insert s seen)"
    using sd_accept_tracks [of d' seen s] tracks by (simp add: d' sd_tracks_flag)
qed

subsection \<open>The window as a set\<close>

text \<open>What the detector stands for: the greatest number so far and the set of accepted ones.\<close>

fun window_run :: "nat \<Rightarrow> u64 \<Rightarrow> u64 \<Rightarrow> u64 set \<Rightarrow> (u64 \<times> bool) list \<Rightarrow> u64 list" where
  "window_run w m latest seen [] = []"
| "window_run w m latest seen ((s, genuine) # xs) =
     (if genuine \<and> s \<le> m \<and> (latest < s \<or> unat latest - unat s < w \<and> s \<notin> seen)
      then s # window_run w m (max latest s) (insert s seen) xs
      else window_run w m latest seen xs)"

lemma sd_accept_latest:
  assumes "sd_accept d = Some d'" and "sd_accepted d"
  shows "sd_latest_seq d' = max (sd_latest_seq d) (sd_seq d) \<and> sd_max_seq d' = sd_max_seq d \<and>
    sd_window_size d' = sd_window_size d"
  using assms by (auto simp: sd_accept_def Let_def umod_checked_def max_def split: if_splits)

lemma filter_run_window:
  assumes "sd_tracks d seen"
  shows "\<exists>d'. filter_run sd_check sd_accept xs d =
    Some (window_run (sd_window_size d) (sd_max_seq d) (sd_latest_seq d) seen xs, d')"
  using assms
proof (induction xs arbitrary: d seen)
  case (Cons x xs)
  obtain s g where x: "x = (s, g)" by (cases x)
  show ?case
  proof (cases "sd_fresh d seen s \<and> g")
    case True
    let ?d = "d\<lparr>sd_accepted := True, sd_seq := s\<rparr>"
    have check: "sd_check s d = Some (True, ?d)" using True sd_check_eq [OF Cons.prems] by simp
    obtain d2 where d2: "sd_accept ?d = Some d2" "sd_tracks d2 (insert s seen)"
      using sliding.accept_total [OF Cons.prems check] by blast
    have "sd_latest_seq d2 = max (sd_latest_seq d) s" "sd_max_seq d2 = sd_max_seq d"
      "sd_window_size d2 = sd_window_size d" using sd_accept_latest [OF d2(1)] by simp_all
    then show ?thesis
      using Cons.IH [OF d2(2)] check d2(1) x True by (auto simp: sd_fresh_def)
  next
    case False
    obtain d1 where d1: "sd_check s d = Some (sd_fresh d seen s, d1)" "sd_tracks d1 seen"
      "sd_latest_seq d1 = sd_latest_seq d" "sd_max_seq d1 = sd_max_seq d" "sd_window_size d1 = sd_window_size d"
      using sd_check_eq [OF Cons.prems, of s] Cons.prems by (cases "sd_fresh d seen s") (auto simp: sd_tracks_flag)
    obtain d' where "filter_run sd_check sd_accept xs d1 =
        Some (window_run (sd_window_size d) (sd_max_seq d) (sd_latest_seq d) seen xs, d')"
      using Cons.IH [OF d1(2)] d1(3-5) by auto
    moreover have "window_run (sd_window_size d) (sd_max_seq d) (sd_latest_seq d) seen (x # xs) =
        window_run (sd_window_size d) (sd_max_seq d) (sd_latest_seq d) seen xs"
      using False x by (auto simp: sd_fresh_def)
    ultimately show ?thesis using d1(1) x False by auto
  qed
qed simp

lemma odd_window_replays:
  "map_option fst (filter_run sd_check sd_accept [(0, True), (95, True), (0, True)] (sd_new 100 (2 ^ 48 - 1))) =
     Some [0, 95, 0]"
  by (simp add: sd_check_def sd_accept_def sd_new_def fb_new_def Let_def add_checked_def umod_checked_def
      fb_bit_def fb_set_bit_def lsh_def lsh_chunk_def replicate_numeral upt_rec)

text \<open>
  C37. A sliding window detector whose size is a positive multiple of 64 refines the window as a
  set: over every sequence of received numbers it never panics and lets through exactly the
  genuine ones that are within the limit and either beyond the greatest so far or inside the
  window and not accepted before; so no number passes twice. With a window of 100 the mask for
  the last chunk of the bit vector is too short, and a number passes twice.
\<close>

theorem replay_window_refines_set:
  assumes "0 < w" and "64 dvd w" and "w \<le> unat m" and "w + unat m < 2 ^ 64"
  shows "(\<exists>d'. filter_run sd_check sd_accept xs (sd_new w m) = Some (window_run w m 0 {} xs, d')) \<and>
    distinct (window_run w m 0 {} xs) \<and>
    (\<exists>d'. filter_run sd_check sd_accept [(0, True), (95, True), (0, True)] (sd_new 100 (2 ^ 48 - 1)) =
       Some ([0, 95, 0], d'))"
proof -
  note fresh = sd_tracks_new [OF assms]
  obtain d' where run: "filter_run sd_check sd_accept xs (sd_new w m) = Some (window_run w m 0 {} xs, d')"
    using filter_run_window [OF fresh, of xs] by (auto simp: sd_new_def)
  moreover have "distinct (window_run w m 0 {} xs)"
    using sliding.filter_run_once [OF fresh, of xs] run by auto
  moreover have "\<exists>d'. filter_run sd_check sd_accept [(0, True), (95, True), (0, True)] (sd_new 100 (2 ^ 48 - 1)) =
      Some ([0, 95, 0], d')"
    using odd_window_replays by auto
  ultimately show ?thesis by blast
qed

theorem replay_window_refines_set_witness:
  "\<exists>d'. filter_run sd_check sd_accept [(5, True), (5, True), (3, False), (3, True)] (sd_new 64 (2 ^ 48 - 1)) =
     Some ([5, 3], d')"
  using replay_window_refines_set [of 64 "2 ^ 48 - 1" "[(5, True), (5, True), (3, False), (3, True)]", THEN conjunct1]
  by simp

end
