(* ===== verification/Dtls_Conn.thy ===== *)
theory Dtls_Conn
  imports Dtls_Fragments Replay_Detector
begin

text \<open>
  The receiving side of a DTLS connection of \<open>vendored/dtls\<close> (\<open>conn/mod.rs\<close>): incoming packets,
  queued packets and datagrams, with the replay detectors, the fragment buffer and the cache of
  handshake messages (\<open>handshake/handshake_cache.rs\<close>). The cipher suite and the bodies of
  handshake messages are parameters. Beside each piece of application data that is delivered
  the epoch and the number of its record are kept.
\<close>

subsection \<open>The cache of handshake messages\<close>

record HandshakeCacheItem =
  hc_typ :: HandshakeType
  hc_is_client :: bool
  hc_epoch :: u16
  hc_message_sequence :: u16
  hc_data :: bytes

definition handshake_cache_push ::
  "bytes \<Rightarrow> u16 \<Rightarrow> u16 \<Rightarrow> HandshakeType \<Rightarrow> bool \<Rightarrow> HandshakeCacheItem list \<Rightarrow> bool \<times> HandshakeCacheItem list" where
  "handshake_cache_push data epoch message_sequence typ is_client cache =
     (if \<exists>i \<in> set cache. hc_message_sequence i = message_sequence \<and> hc_is_client i = is_client
      then (False, cache)
      else (True, cache @ [\<lparr>hc_typ = typ, hc_is_client = is_client, hc_epoch = epoch,
              hc_message_sequence = message_sequence, hc_data = data\<rparr>]))"

subsection \<open>State\<close>

record cipher_suite =
  cs_is_initialized :: bool
  cs_is_psk :: bool
  cs_decrypt :: "bytes \<Rightarrow> dtls_error + bytes"

record ConnReaderContext =
  cx_is_client :: bool
  cx_replay_protection_window :: nat
  cx_replay_detector :: "SlidingWindowDetector list"
  cx_decrypted :: "((u16 \<times> u64) \<times> bytes) list"
  cx_encrypted_packets :: "bytes list"
  cx_fragment_buffer :: FragmentBuffer
  cx_cache :: "HandshakeCacheItem list"
  cx_remote_epoch :: u16

definition DEFAULT_REPLAY_PROTECTION_WINDOW :: nat where
  "DEFAULT_REPLAY_PROTECTION_WINDOW = 64"

definition new_reader :: "bool \<Rightarrow> nat \<Rightarrow> ConnReaderContext" where
  "new_reader is_client config_window = \<lparr>cx_is_client = is_client,
     cx_replay_protection_window = (if config_window = 0 then DEFAULT_REPLAY_PROTECTION_WINDOW else config_window),
     cx_replay_detector = [], cx_decrypted = [], cx_encrypted_packets = [],
     cx_fragment_buffer = new_fragment_buffer, cx_cache = [], cx_remote_epoch = 0\<rparr>"

subsection \<open>An incoming packet\<close>

type_synonym packet_result = "bool \<times> Alert option \<times> dtls_error option"

definition dropped :: packet_result where
  "dropped = (False, None, None)"

definition fatal :: "AlertDescription \<Rightarrow> Alert" where
  "fatal desc = \<lparr>alert_level = AlertFatal, alert_description = desc\<rparr>"

definition cipher_ready :: "cipher_suite option \<Rightarrow> bool" where
  "cipher_ready cs = (case cs of None \<Rightarrow> False | Some c \<Rightarrow> cs_is_initialized c)"

definition enqueue_packet :: "bool \<Rightarrow> bytes \<Rightarrow> ConnReaderContext \<Rightarrow> ConnReaderContext" where
  "enqueue_packet enqueue pkt c =
     (if enqueue then c\<lparr>cx_encrypted_packets := cx_encrypted_packets c @ [pkt]\<rparr> else c)"

text \<open>\<open>while len <= epoch\<close> push a new detector.\<close>

definition grow_detectors :: "u16 \<Rightarrow> ConnReaderContext \<Rightarrow> ConnReaderContext" where
  "grow_detectors epoch c =
     c\<lparr>cx_replay_detector := cx_replay_detector c @
         replicate (Suc (unat epoch) - length (cx_replay_detector c))
           (sd_new (cx_replay_protection_window c) MAX_SEQUENCE_NUMBER)\<rparr>"

definition check_replay :: "RecordLayerHeader \<Rightarrow> ConnReaderContext \<Rightarrow> (bool \<times> ConnReaderContext) option" where
  "check_replay h c =
     do {
       d \<leftarrow> idx (cx_replay_detector c) (unat (rl_epoch h));
       (ok, d) \<leftarrow> sd_check (rl_sequence_number h) d;
       Some (ok, c\<lparr>cx_replay_detector := (cx_replay_detector c)[unat (rl_epoch h) := d]\<rparr>)
     }"

definition accept_replay :: "RecordLayerHeader \<Rightarrow> ConnReaderContext \<Rightarrow> ConnReaderContext option" where
  "accept_replay h c =
     do {
       d \<leftarrow> idx (cx_replay_detector c) (unat (rl_epoch h));
       d \<leftarrow> sd_accept d;
       Some (c\<lparr>cx_replay_detector := (cx_replay_detector c)[unat (rl_epoch h) := d]\<rparr>)
     }"

text \<open>Whether decryption failed under a pre-shared key, or the plain packet.\<close>

definition decrypt_packet :: "RecordLayerHeader \<Rightarrow> cipher_suite option \<Rightarrow> bytes \<Rightarrow> bool + bytes" where
  "decrypt_packet h cs pkt =
     (if rl_epoch h = 0 then Inr pkt
      else case cs of
        None \<Rightarrow> Inr pkt
      | Some c \<Rightarrow> (case cs_decrypt c pkt of Inl e \<Rightarrow> Inl (cs_is_psk c) | Inr plain \<Rightarrow> Inr plain))"

text \<open>The loop that takes complete handshake messages out of the fragment buffer.\<close>

lemma fragment_pop_shorter:
  "fragment_pop b = Some (Inr out, b') \<Longrightarrow> length (fr_cache b') < length (fr_cache b)"
proof -
  assume pop: "fragment_pop b = Some (Inr out, b')"
  then obtain frags where "map_of (fr_cache b) (fr_current b) = Some frags"
    by (cases "map_of (fr_cache b) (fr_current b)") (simp_all add: fragment_pop_def Let_def)
  then have mem: "(fr_current b, frags) \<in> set (fr_cache b)" by (rule map_of_SomeD)
  have "fr_cache b' = al_remove (fr_current b) (fr_cache b)"
    using pop by (auto simp: fragment_pop_def Let_def bind_eq_Some_conv split: option.splits)
  then show ?thesis using mem by (auto simp: al_remove_def intro!: length_filter_less)
qed

function drain_fragments ::
  "(bytes \<Rightarrow> dtls_error + HandshakeHeader) \<Rightarrow> bool \<Rightarrow> FragmentBuffer \<Rightarrow> HandshakeCacheItem list \<Rightarrow>
   (FragmentBuffer \<times> HandshakeCacheItem list) option" where
  "drain_fragments handshake is_client b cache =
     (case fragment_pop b of
        None \<Rightarrow> None
      | Some (Inl e, b') \<Rightarrow> Some (b', cache)
      | Some (Inr (out, epoch), b') \<Rightarrow>
          drain_fragments handshake is_client b'
            (case handshake out of
               Inl e \<Rightarrow> cache
             | Inr hh \<Rightarrow> snd (handshake_cache_push out epoch (hh_message_sequence hh) (hh_handshake_type hh)
                 (\<not> is_client) cache)))"
  by pat_completeness auto
termination
  by (relation "measure (\<lambda>(handshake, is_client, b, cache). length (fr_cache b))")
    (auto dest: fragment_pop_shorter)

declare drain_fragments.simps [simp del]

definition handle_change_cipher_spec ::
  "cipher_suite option \<Rightarrow> RecordLayerHeader \<Rightarrow> u16 \<Rightarrow> bytes \<Rightarrow> bool \<Rightarrow> ConnReaderContext \<Rightarrow>
   (packet_result \<times> ConnReaderContext) option" where
  "handle_change_cipher_spec cs h epoch pkt enqueue c =
     (if \<not> cipher_ready cs then Some (dropped, enqueue_packet enqueue pkt c)
      else do {
        new_remote_epoch \<leftarrow> add_checked (rl_epoch h) 1;
        next_epoch \<leftarrow> add_checked epoch 1;
        (if next_epoch = new_remote_epoch
         then do { c \<leftarrow> accept_replay h (c\<lparr>cx_remote_epoch := new_remote_epoch\<rparr>); Some (dropped, c) }
         else Some (dropped, c))
      })"

definition handle_content ::
  "cipher_suite option \<Rightarrow> RecordLayerHeader \<Rightarrow> u16 \<Rightarrow> bytes \<Rightarrow> bool \<Rightarrow> Content \<Rightarrow> ConnReaderContext \<Rightarrow>
   (packet_result \<times> ConnReaderContext) option" where
  "handle_content cs h epoch pkt enqueue content c =
     (case content of
        ContentAlert a \<Rightarrow>
          do {
            let a = (if alert_description a = CloseNotify
                     then \<lparr>alert_level = AlertWarning, alert_description = CloseNotify\<rparr> else a);
            c \<leftarrow> accept_replay h c;
            Some ((False, Some a, Some ErrAlert), c)
          }
      | ContentChangeCipherSpec \<Rightarrow> handle_change_cipher_spec cs h epoch pkt enqueue c
      | ContentApplicationData data \<Rightarrow>
          if rl_epoch h = 0
          then Some ((False, Some (fatal UnexpectedMessage), Some ErrApplicationDataEpochZero), c)
          else do {
            c \<leftarrow> accept_replay h c;
            Some (dropped, c\<lparr>cx_decrypted := cx_decrypted c @ [((rl_epoch h, rl_sequence_number h), data)]\<rparr>)
          }
      | ContentHandshake m \<Rightarrow>
          Some ((False, Some (fatal UnexpectedMessage), Some ErrUnhandledContextType), c))"

definition handle_plain ::
  "(bytes \<Rightarrow> dtls_error + HandshakeHeader) \<Rightarrow> cipher_suite option \<Rightarrow> RecordLayerHeader \<Rightarrow> u16 \<Rightarrow> bytes \<Rightarrow> bool \<Rightarrow>
   ConnReaderContext \<Rightarrow> (packet_result \<times> ConnReaderContext) option" where
  "handle_plain handshake cs h epoch pkt enqueue c =
     (case fragment_push pkt (cx_fragment_buffer c) of
        (Inl e, b) \<Rightarrow> Some (dropped, c\<lparr>cx_fragment_buffer := b\<rparr>)
      | (Inr is_handshake, b) \<Rightarrow>
          if is_handshake
          then do {
            c \<leftarrow> accept_replay h (c\<lparr>cx_fragment_buffer := b\<rparr>);
            (b, cache) \<leftarrow> drain_fragments handshake (cx_is_client c) (cx_fragment_buffer c) (cx_cache c);
            Some ((True, None, None), c\<lparr>cx_fragment_buffer := b, cx_cache := cache\<rparr>)
          }
          else (case unmarshal_record handshake pkt of
            Inl e \<Rightarrow> Some ((False, Some (fatal DecodeError), Some e), c\<lparr>cx_fragment_buffer := b\<rparr>)
          | Inr content \<Rightarrow> handle_content cs h epoch pkt enqueue content (c\<lparr>cx_fragment_buffer := b\<rparr>)))"

definition handle_incoming_packet ::
  "(bytes \<Rightarrow> dtls_error + HandshakeHeader) \<Rightarrow> cipher_suite option \<Rightarrow> bytes \<Rightarrow> bool \<Rightarrow> ConnReaderContext \<Rightarrow>
   (packet_result \<times> ConnReaderContext) option" where
  "handle_incoming_packet handshake cs pkt enqueue c =
     (case unmarshal_record_header pkt of
        Inl e \<Rightarrow> Some (dropped, c)
      | Inr (h, rest) \<Rightarrow>
          let epoch = cx_remote_epoch c
          in if epoch < rl_epoch h
             then do {
               next_epoch \<leftarrow> add_checked epoch 1;
               Some (dropped, if next_epoch < rl_epoch h then c else enqueue_packet enqueue pkt c)
             }
             else do {
               (ok, c) \<leftarrow> check_replay h (grow_detectors (rl_epoch h) c);
               if \<not> ok then Some (dropped, c)
               else if rl_epoch h \<noteq> 0 \<and> \<not> cipher_ready cs then Some (dropped, enqueue_packet enqueue pkt c)
               else (case decrypt_packet h cs pkt of
                 Inl psk \<Rightarrow> Some ((False, if psk then Some (fatal UnknownPskIdentity) else None, None), c)
               | Inr plain \<Rightarrow> handle_plain handshake cs h epoch plain enqueue c)
             })"

subsection \<open>Datagrams and queued packets\<close>

text \<open>
  The loop over packets: an alert is handed to the writer, where it may fail (\<open>sent\<close>); a fatal
  alert, a closing one and an error end the loop. The result says whether a handshake message
  was among the packets.
\<close>

fun handle_packets ::
  "(bytes \<Rightarrow> dtls_error + HandshakeHeader) \<Rightarrow> cipher_suite option \<Rightarrow> bool \<Rightarrow> bool \<Rightarrow> bytes list \<Rightarrow> bool \<Rightarrow>
   ConnReaderContext \<Rightarrow> ((dtls_error + bool) \<times> Alert list \<times> ConnReaderContext) option" where
  "handle_packets handshake cs sent enqueue [] has_handshake c = Some (Inr has_handshake, [], c)"
| "handle_packets handshake cs sent enqueue (pkt # pkts) has_handshake c =
     do {
       ((hs, alert, err), c) \<leftarrow> handle_incoming_packet handshake cs pkt enqueue c;
       let alerts = (case alert of None \<Rightarrow> [] | Some a \<Rightarrow> if sent then [a] else []);
       let err = (if alert \<noteq> None \<and> \<not> sent \<and> err = None then Some ErrIo else err);
       if (case alert of None \<Rightarrow> False
           | Some a \<Rightarrow> alert_level a = AlertFatal \<or> alert_description a = CloseNotify)
       then Some (Inl ErrAlertFatalOrClose, alerts, c)
       else (case err of
         Some e \<Rightarrow> Some (Inl e, alerts, c)
       | None \<Rightarrow> do {
           (r, more_alerts, c) \<leftarrow> handle_packets handshake cs sent enqueue pkts (has_handshake \<or> hs) c;
           Some (r, alerts @ more_alerts, c)
         })
     }"

definition read_and_buffer ::
  "(bytes \<Rightarrow> dtls_error + HandshakeHeader) \<Rightarrow> cipher_suite option \<Rightarrow> bool \<Rightarrow> bytes \<Rightarrow> ConnReaderContext \<Rightarrow>
   ((dtls_error + bool) \<times> Alert list \<times> ConnReaderContext) option" where
  "read_and_buffer handshake cs sent buf c =
     (case unpack_datagram buf of
        Inl e \<Rightarrow> Some (Inl e, [], c)
      | Inr pkts \<Rightarrow> handle_packets handshake cs sent True pkts False c)"

definition handle_queued_packets ::
  "(bytes \<Rightarrow> dtls_error + HandshakeHeader) \<Rightarrow> cipher_suite option \<Rightarrow> bool \<Rightarrow> ConnReaderContext \<Rightarrow>
   ((dtls_error + bool) \<times> Alert list \<times> ConnReaderContext) option" where
  "handle_queued_packets handshake cs sent c =
     handle_packets handshake cs sent False (cx_encrypted_packets c) False (c\<lparr>cx_encrypted_packets := []\<rparr>)"

text \<open>
  What happens to a reader: a datagram arrives, the handshake asks for the queued packets, and
  the handshake sets the epoch or caches a message of its own.
\<close>

datatype reader_event =
    ReadDatagram "cipher_suite option" bool bytes
  | HandleQueue "cipher_suite option" bool
  | SetRemoteEpoch u16
  | CachePush bytes u16 u16 HandshakeType bool

fun reader_turn ::
  "(bytes \<Rightarrow> dtls_error + HandshakeHeader) \<Rightarrow> reader_event \<Rightarrow> ConnReaderContext \<Rightarrow> ConnReaderContext option" where
  "reader_turn handshake (ReadDatagram cs sent buf) c =
     map_option (\<lambda>(r, alerts, c). c) (read_and_buffer handshake cs sent buf c)"
| "reader_turn handshake (HandleQueue cs sent) c =
     map_option (\<lambda>(r, alerts, c). c) (handle_queued_packets handshake cs sent c)"
| "reader_turn handshake (SetRemoteEpoch e) c = Some (c\<lparr>cx_remote_epoch := e\<rparr>)"
| "reader_turn handshake (CachePush data epoch message_sequence typ is_client) c =
     Some (c\<lparr>cx_cache := snd (handshake_cache_push data epoch message_sequence typ is_client (cx_cache c))\<rparr>)"

subsection \<open>Every record is delivered at most once\<close>

text \<open>
  The numbers accepted in an epoch are a ghost; those of delivered records are among them.
\<close>

definition window_ok :: "nat \<Rightarrow> bool" where
  "window_ok w \<longleftrightarrow> 0 < w \<and> 64 dvd w \<and> w < 2 ^ 48"

definition reader_inv :: "(nat \<Rightarrow> u64 set) \<Rightarrow> ConnReaderContext \<Rightarrow> bool" where
  "reader_inv seen c \<longleftrightarrow> window_ok (cx_replay_protection_window c) \<and>
     (\<forall>e < length (cx_replay_detector c). sd_tracks (cx_replay_detector c ! e) (seen e)) \<and>
     (\<forall>e \<ge> length (cx_replay_detector c). seen e = {}) \<and>
     distinct (map fst (cx_decrypted c)) \<and>
     (\<forall>e s data. ((e, s), data) \<in> set (cx_decrypted c) \<longrightarrow> s \<in> seen (unat e))"

lemma window_ok_new: "window_ok w \<Longrightarrow> sd_tracks (sd_new w MAX_SEQUENCE_NUMBER) {}"
  by (rule sd_tracks_new) (auto simp: window_ok_def MAX_SEQUENCE_NUMBER_def)

lemma reader_inv_new: "window_ok (if w = 0 then DEFAULT_REPLAY_PROTECTION_WINDOW else w) \<Longrightarrow>
   reader_inv (\<lambda>_. {}) (new_reader is_client w)"
  by (simp add: reader_inv_def new_reader_def)

lemma reader_inv_grow:
  assumes "reader_inv seen c"
  shows "reader_inv seen (grow_detectors e c) \<and> unat e < length (cx_replay_detector (grow_detectors e c))"
  using assms window_ok_new [of "cx_replay_protection_window c"]
  by (auto simp: reader_inv_def grow_detectors_def nth_append)

text \<open>What the rest of a packet's handling does not touch.\<close>

definition same_reader :: "ConnReaderContext \<Rightarrow> ConnReaderContext \<Rightarrow> bool" where
  "same_reader c c' \<longleftrightarrow> cx_replay_protection_window c' = cx_replay_protection_window c \<and>
     cx_replay_detector c' = cx_replay_detector c \<and> cx_decrypted c' = cx_decrypted c"

lemma same_reader_inv: "same_reader c c' \<Longrightarrow> reader_inv seen c \<Longrightarrow> reader_inv seen c'"
  by (simp add: same_reader_def reader_inv_def)

lemma same_reader_enqueue [simp]: "same_reader c (enqueue_packet enqueue pkt c)"
  by (simp add: same_reader_def enqueue_packet_def)

text \<open>A number that has passed the check and is not yet accepted.\<close>

definition passed :: "(nat \<Rightarrow> u64 set) \<Rightarrow> RecordLayerHeader \<Rightarrow> ConnReaderContext \<Rightarrow> bool" where
  "passed seen h c \<longleftrightarrow> unat (rl_epoch h) < length (cx_replay_detector c) \<and>
     rl_sequence_number h \<notin> seen (unat (rl_epoch h)) \<and>
     (\<exists>d'. sd_accept (cx_replay_detector c ! unat (rl_epoch h)) = Some d' \<and>
        sd_tracks d' (insert (rl_sequence_number h) (seen (unat (rl_epoch h)))))"

lemma same_reader_passed: "same_reader c c' \<Longrightarrow> passed seen h c \<Longrightarrow> passed seen h c'"
  by (simp add: same_reader_def passed_def)

lemma check_replay_inv:
  assumes inv: "reader_inv seen c" and e: "unat (rl_epoch h) < length (cx_replay_detector c)"
    and check: "check_replay h c = Some (ok, c')"
  shows "reader_inv seen c' \<and> (ok \<longrightarrow> passed seen h c')"
proof -
  let ?e = "unat (rl_epoch h)"
  let ?d = "cx_replay_detector c ! ?e"
  have tracks: "sd_tracks ?d (seen ?e)" using inv e by (simp add: reader_inv_def)
  obtain d' where d': "sd_check (rl_sequence_number h) ?d = Some (ok, d')"
    "c' = c\<lparr>cx_replay_detector := (cx_replay_detector c)[?e := d']\<rparr>"
    using check e by (auto simp: check_replay_def bind_eq_Some_conv)
  have t': "sd_tracks d' (seen ?e)"
    using sliding.check_total [OF tracks, of "rl_sequence_number h"] d'(1) by auto
  have "reader_inv seen c'"
    using inv t' e by (auto simp: reader_inv_def d'(2) nth_list_update)
  moreover have "passed seen h c'" if ok
  proof -
    have ck: "sd_check (rl_sequence_number h) ?d = Some (True, d')" using d'(1) that by simp
    show ?thesis
      using sliding.check_new [OF tracks ck] sliding.accept_total [OF tracks ck] e by (auto simp: passed_def d'(2))
  qed
  ultimately show ?thesis by blast
qed

lemma accept_replay_inv:
  assumes inv: "reader_inv seen c" and passed: "passed seen h c" and accept: "accept_replay h c = Some c'"
  shows "reader_inv (seen(unat (rl_epoch h) := insert (rl_sequence_number h) (seen (unat (rl_epoch h))))) c' \<and>
    cx_decrypted c' = cx_decrypted c \<and> (rl_epoch h, rl_sequence_number h) \<notin> set (map fst (cx_decrypted c))"
proof -
  let ?e = "unat (rl_epoch h)"
  obtain d' where d': "sd_accept (cx_replay_detector c ! ?e) = Some d'"
    "sd_tracks d' (insert (rl_sequence_number h) (seen ?e))" and e: "?e < length (cx_replay_detector c)"
    and new: "rl_sequence_number h \<notin> seen ?e"
    using passed by (auto simp: passed_def)
  have c': "c' = c\<lparr>cx_replay_detector := (cx_replay_detector c)[?e := d']\<rparr>"
    using accept e d' by (auto simp: accept_replay_def bind_eq_Some_conv)
  have "(rl_epoch h, rl_sequence_number h) \<notin> set (map fst (cx_decrypted c))"
    using inv new by (force simp: reader_inv_def)
  moreover have "reader_inv (seen(?e := insert (rl_sequence_number h) (seen ?e))) c'"
    using inv d'(2) e unfolding reader_inv_def c' by (auto simp: nth_list_update) metis
  ultimately show ?thesis by (simp add: c')
qed

abbreviation reader_good :: "ConnReaderContext \<Rightarrow> bool" where
  "reader_good c \<equiv> \<exists>seen. reader_inv seen c"

lemma accept_good:
  assumes "reader_inv seen c" and "passed seen h c" and "accept_replay h c = Some c'"
  shows "reader_good c'"
  using accept_replay_inv [OF assms] by blast

lemma good_same: "reader_inv seen c \<Longrightarrow> same_reader c c' \<Longrightarrow> reader_good c'"
  using same_reader_inv by blast

lemma handle_change_cipher_spec_good:
  assumes inv: "reader_inv seen c" and passed: "passed seen h c"
    and "handle_change_cipher_spec cs h epoch pkt enqueue c = Some (r, c')"
  shows "reader_good c'"
proof (cases "cipher_ready cs")
  case False
  then have "c' = enqueue_packet enqueue pkt c" using assms(3) by (simp add: handle_change_cipher_spec_def)
  then show ?thesis using good_same [OF inv] by simp
next
  case True
  obtain e1 e2 where e: "add_checked (rl_epoch h) 1 = Some e1" "add_checked epoch 1 = Some e2"
    using assms(3) True by (auto simp: handle_change_cipher_spec_def bind_eq_Some_conv)
  show ?thesis
  proof (cases "e2 = e1")
    case eq: True
    have same: "same_reader c (c\<lparr>cx_remote_epoch := e1\<rparr>)" by (simp add: same_reader_def)
    have "accept_replay h (c\<lparr>cx_remote_epoch := e1\<rparr>) = Some c'"
      using assms(3) True e eq by (auto simp: handle_change_cipher_spec_def bind_eq_Some_conv)
    then show ?thesis
      by (rule accept_good [OF same_reader_inv [OF same inv] same_reader_passed [OF same passed]])
  next
    case False
    then have "c' = c" using assms(3) True e by (simp add: handle_change_cipher_spec_def)
    then show ?thesis using inv by blast
  qed
qed

lemma deliver_good:
  assumes "reader_inv seen c" and "passed seen h c" and "accept_replay h c = Some c'"
  shows "reader_good (c'\<lparr>cx_decrypted := cx_decrypted c' @ [((rl_epoch h, rl_sequence_number h), data)]\<rparr>)"
proof -
  let ?seen = "seen(unat (rl_epoch h) := insert (rl_sequence_number h) (seen (unat (rl_epoch h))))"
  from accept_replay_inv [OF assms]
  have inv: "reader_inv ?seen c'" and new: "(rl_epoch h, rl_sequence_number h) \<notin> set (map fst (cx_decrypted c'))"
    by simp_all
  have "reader_inv ?seen (c'\<lparr>cx_decrypted := cx_decrypted c' @ [((rl_epoch h, rl_sequence_number h), data)]\<rparr>)"
    using inv new unfolding reader_inv_def by auto
  then show ?thesis by blast
qed

lemma handle_content_good:
  assumes inv: "reader_inv seen c" and passed: "passed seen h c"
    and result: "handle_content cs h epoch pkt enqueue content c = Some (r, c')"
  shows "reader_good c'"
proof (cases content)
  case ContentChangeCipherSpec
  then show ?thesis using handle_change_cipher_spec_good [OF inv passed] result by (simp add: handle_content_def)
next
  case (ContentAlert a)
  then show ?thesis using accept_good [OF inv passed] result
    by (auto simp: handle_content_def Let_def bind_eq_Some_conv)
next
  case (ContentHandshake m)
  then show ?thesis using inv result by (auto simp: handle_content_def)
next
  case (ContentApplicationData data)
  show ?thesis
  proof (cases "rl_epoch h = 0")
    case True
    then show ?thesis using ContentApplicationData inv result by (auto simp: handle_content_def)
  next
    case False
    then obtain c1 where "accept_replay h c = Some c1"
      "c' = c1\<lparr>cx_decrypted := cx_decrypted c1 @ [((rl_epoch h, rl_sequence_number h), data)]\<rparr>"
      using ContentApplicationData result by (auto simp: handle_content_def bind_eq_Some_conv)
    then show ?thesis using deliver_good [OF inv passed] by simp
  qed
qed

lemma handle_plain_good:
  assumes inv: "reader_inv seen c" and passed: "passed seen h c"
    and result: "handle_plain handshake cs h epoch pkt enqueue c = Some (r, c')"
  shows "reader_good c'"
proof -
  obtain res b where push: "fragment_push pkt (cx_fragment_buffer c) = (res, b)" by fastforce
  let ?c = "c\<lparr>cx_fragment_buffer := b\<rparr>"
  have same: "same_reader c ?c" by (simp add: same_reader_def)
  note inv' = same_reader_inv [OF same inv] and passed' = same_reader_passed [OF same passed]
  show ?thesis
  proof (cases res)
    case (Inl e)
    then have "c' = ?c" using result push by (simp add: handle_plain_def)
    then show ?thesis using inv' by blast
  next
    case (Inr is_handshake)
    show ?thesis
    proof (cases is_handshake)
      case True
      then obtain c1 b' cache where c1: "accept_replay h ?c = Some c1"
        "c' = c1\<lparr>cx_fragment_buffer := b', cx_cache := cache\<rparr>"
        using result push Inr by (auto simp: handle_plain_def bind_eq_Some_conv)
      obtain seen1 where "reader_inv seen1 c1" using accept_good [OF inv' passed' c1(1)] by blast
      then show ?thesis by (rule good_same) (simp add: c1(2) same_reader_def)
    next
      case False
      then consider e where "unmarshal_record handshake pkt = Inl e" "c' = ?c"
        | content where "handle_content cs h epoch pkt enqueue content ?c = Some (r, c')"
        using result push Inr by (cases "unmarshal_record handshake pkt") (auto simp: handle_plain_def)
      then show ?thesis
      proof cases
        case 1
        then show ?thesis using inv' by blast
      next
        case 2
        then show ?thesis by (rule handle_content_good [OF inv' passed'])
      qed
    qed
  qed
qed

lemma handle_incoming_packet_good:
  assumes good: "reader_good c" and result: "handle_incoming_packet handshake cs pkt enqueue c = Some (r, c')"
  shows "reader_good c'"
proof -
  obtain seen where inv: "reader_inv seen c" using good by blast
  show ?thesis
  proof (cases "unmarshal_record_header pkt")
    case (Inl e)
    then show ?thesis using good result by (simp add: handle_incoming_packet_def)
  next
    case (Inr hr)
    obtain h rest where h: "hr = (h, rest)" by (cases hr)
    show ?thesis
    proof (cases "cx_remote_epoch c < rl_epoch h")
      case True
      then have "c' = c \<or> c' = enqueue_packet enqueue pkt c"
        using result Inr h by (auto simp: handle_incoming_packet_def Let_def bind_eq_Some_conv split: if_splits)
      then show ?thesis using good good_same [OF inv] by auto
    next
      case False
      let ?g = "grow_detectors (rl_epoch h) c"
      obtain ok c1 where check: "check_replay h ?g = Some (ok, c1)"
        using result Inr h False by (auto simp: handle_incoming_packet_def Let_def bind_eq_Some_conv)
      have inv1: "reader_inv seen c1" and passed: "ok \<Longrightarrow> passed seen h c1"
        using check_replay_inv [OF _ _ check, of seen] reader_inv_grow [OF inv, of "rl_epoch h"] by auto
      consider "c' = c1" | "c' = enqueue_packet enqueue pkt c1"
        | plain where ok "handle_plain handshake cs h (cx_remote_epoch c) plain enqueue c1 = Some (r, c')"
        using result Inr h False check
        by (cases "decrypt_packet h cs pkt") (auto simp: handle_incoming_packet_def Let_def split: if_splits)
      then show ?thesis
      proof cases
        case 1
        then show ?thesis using inv1 by blast
      next
        case 2
        then show ?thesis using good_same [OF inv1] by simp
      next
        case 3
        then show ?thesis using handle_plain_good [OF inv1 passed] by blast
      qed
    qed
  qed
qed

lemma handle_packets_good:
  assumes "reader_good c" and "handle_packets handshake cs sent enqueue pkts has_handshake c = Some (r, alerts, c')"
  shows "reader_good c'"
  using assms
proof (induction pkts arbitrary: c has_handshake alerts)
  case (Cons pkt pkts)
  obtain hs alert err c1 where step: "handle_incoming_packet handshake cs pkt enqueue c = Some ((hs, alert, err), c1)"
    using Cons.prems(2) by (auto simp: bind_eq_Some_conv)
  note good1 = handle_incoming_packet_good [OF Cons.prems(1) step]
  have "c' = c1 \<or> (\<exists>hs' alerts'. handle_packets handshake cs sent enqueue pkts hs' c1 = Some (r, alerts', c'))"
    using Cons.prems(2) step by (auto simp: Let_def bind_eq_Some_conv split: if_splits option.splits)
  then show ?case using good1 Cons.IH [OF good1] by blast
qed simp

lemma reader_turn_good:
  assumes good: "reader_good c" and turn: "reader_turn handshake ev c = Some c'"
  shows "reader_good c'"
proof (cases ev)
  case (ReadDatagram cs sent buf)
  show ?thesis
  proof (cases "unpack_datagram buf")
    case (Inl e)
    then show ?thesis using good turn ReadDatagram by (simp add: read_and_buffer_def)
  next
    case (Inr pkts)
    then obtain r alerts where "handle_packets handshake cs sent True pkts False c = Some (r, alerts, c')"
      using turn ReadDatagram by (auto simp: read_and_buffer_def)
    then show ?thesis by (rule handle_packets_good [OF good])
  qed
next
  case (HandleQueue cs sent)
  obtain seen where inv: "reader_inv seen c" using good by blast
  have "reader_good (c\<lparr>cx_encrypted_packets := []\<rparr>)" by (rule good_same [OF inv]) (simp add: same_reader_def)
  moreover obtain r alerts where
    "handle_packets handshake cs sent False (cx_encrypted_packets c) False (c\<lparr>cx_encrypted_packets := []\<rparr>) =
       Some (r, alerts, c')"
    using turn HandleQueue by (auto simp: handle_queued_packets_def)
  ultimately show ?thesis by (rule handle_packets_good)
next
  case (SetRemoteEpoch e)
  obtain seen where inv: "reader_inv seen c" using good by blast
  show ?thesis by (rule good_same [OF inv]) (use turn SetRemoteEpoch in \<open>auto simp: same_reader_def\<close>)
next
  case (CachePush data epoch message_sequence ty is_client)
  obtain seen where inv: "reader_inv seen c" using good by blast
  show ?thesis by (rule good_same [OF inv]) (use turn CachePush in \<open>auto simp: same_reader_def\<close>)
qed


definition plain_cipher :: cipher_suite where
  "plain_cipher = \<lparr>cs_is_initialized = True, cs_is_psk = False, cs_decrypt = Inr\<rparr>"

definition sample_record :: bytes where
  "sample_record = [23, 0xfe, 0xfd, 0, 1, 0, 0, 0, 0, 0, 5, 0, 1, 42]"

definition sample_reader_run :: "ConnReaderContext option" where
  "sample_reader_run = run_ticks (reader_turn (\<lambda>_. Inl ErrNotImplemented))
     [SetRemoteEpoch 1, ReadDatagram (Some plain_cipher) True sample_record,
      ReadDatagram (Some plain_cipher) True sample_record] (new_reader False 0)"

lemma sample_record_unpack: "unpack_datagram sample_record = Inr [sample_record]"
  using unpack_concat [of "[sample_record]"]
  by (simp add: sample_record_def well_formed_record_def record_size_def RECORD_LAYER_HEADER_SIZE_def be_nat_pair)

lemma length_sample_record [simp]: "length sample_record = 14"
  by (simp add: sample_record_def)

lemma sample_record_header:
  "unmarshal_record_header sample_record = Inr (\<lparr>rl_content_type = ApplicationDataType,
     rl_protocol_version = PROTOCOL_VERSION1_2, rl_epoch = 1, rl_sequence_number = 5, rl_content_len = 1\<rparr>, [42])"
  by (simp add: sample_record_def unmarshal_record_header_def read_be_def PROTOCOL_VERSION1_2_def
      content_type_of_def be_nat_def)

definition sample_detector :: "bool \<Rightarrow> u64 \<Rightarrow> u64 \<Rightarrow> SlidingWindowDetector" where
  "sample_detector accepted latest bits = \<lparr>sd_accepted = accepted, sd_seq = 5, sd_latest_seq = latest,
     sd_max_seq = MAX_SEQUENCE_NUMBER, sd_window_size = 64,
     sd_mask = \<lparr>fb_bits = [bits], fb_n = 64, fb_msb_mask = - 1\<rparr>\<rparr>"

lemma sample_detector_steps:
  "sd_check 5 (sd_new 64 MAX_SEQUENCE_NUMBER) = Some (True, sample_detector True 0 0)"
  "sd_accept (sample_detector True 0 0) = Some (sample_detector True 5 1)"
  "sd_check 5 (sample_detector True 5 1) = Some (False, sample_detector False 5 1)"
  by (simp_all add: sample_detector_def sd_check_def sd_accept_def sd_new_def fb_new_def Let_def add_checked_def
      umod_checked_def fb_bit_def fb_set_bit_def lsh_def lsh_chunk_def replicate_numeral upt_rec MAX_SEQUENCE_NUMBER_def)

lemma sample_reader_decrypted: "map_option cx_decrypted sample_reader_run = Some [((1, 5), [42])]"
  by (simp add: sample_reader_run_def read_and_buffer_def sample_record_unpack new_reader_def handle_incoming_packet_def
      sample_record_header check_replay_def accept_replay_def grow_detectors_def DEFAULT_REPLAY_PROTECTION_WINDOW_def
      plain_cipher_def cipher_ready_def decrypt_packet_def sample_detector_steps handle_plain_def fragment_push_def
      new_fragment_buffer_def fragment_buffer_size_def FRAGMENT_BUFFER_MAX_SIZE_def unmarshal_record_def
      handle_content_def dropped_def Let_def)


end
