(* ===== verification/Sctp_Serial.thy ===== *)
theory Sctp_Serial
  imports Netpoke_Prelude "HOL-Library.Multiset"
begin

text \<open>
  Serial number arithmetic (\<open>vendored/webrtc-sctp/src/util.rs\<close>) and the stable sort the SCTP
  queues use it with. Numbers that are less than half of the number space apart compare like
  the unwrapped numbers they stand for.
\<close>

definition sna32lt :: "u32 \<Rightarrow> u32 \<Rightarrow> bool" where
  "sna32lt i1 i2 \<longleftrightarrow> (i1 < i2 \<and> i2 - i1 < push_bit 31 1) \<or> (i2 < i1 \<and> push_bit 31 1 < i1 - i2)"

definition sna32lte :: "u32 \<Rightarrow> u32 \<Rightarrow> bool" where
  "sna32lte i1 i2 \<longleftrightarrow> i1 = i2 \<or> sna32lt i1 i2"

definition sna32gt :: "u32 \<Rightarrow> u32 \<Rightarrow> bool" where
  "sna32gt i1 i2 \<longleftrightarrow> (i1 < i2 \<and> push_bit 31 1 \<le> i2 - i1) \<or> (i2 < i1 \<and> i1 - i2 \<le> push_bit 31 1)"

definition sna32gte :: "u32 \<Rightarrow> u32 \<Rightarrow> bool" where
  "sna32gte i1 i2 \<longleftrightarrow> i1 = i2 \<or> sna32gt i1 i2"

definition sna16lt :: "u16 \<Rightarrow> u16 \<Rightarrow> bool" where
  "sna16lt i1 i2 \<longleftrightarrow> (i1 < i2 \<and> i2 - i1 < push_bit 15 1) \<or> (i2 < i1 \<and> push_bit 15 1 < i1 - i2)"

definition sna16lte :: "u16 \<Rightarrow> u16 \<Rightarrow> bool" where
  "sna16lte i1 i2 \<longleftrightarrow> i1 = i2 \<or> sna16lt i1 i2"

definition sna16gt :: "u16 \<Rightarrow> u16 \<Rightarrow> bool" where
  "sna16gt i1 i2 \<longleftrightarrow> (i1 < i2 \<and> push_bit 15 1 \<le> i2 - i1) \<or> (i2 < i1 \<and> i1 - i2 \<le> push_bit 15 1)"

definition sna16gte :: "u16 \<Rightarrow> u16 \<Rightarrow> bool" where
  "sna16gte i1 i2 \<longleftrightarrow> i1 = i2 \<or> sna16gt i1 i2"

subsection \<open>Both comparisons through the distance\<close>

lemma unat_word_diff:
  "unat (a - b :: 'a::len word) = (if b \<le> a then unat a - unat b else 2 ^ LENGTH('a) + unat a - unat b)"
  by (auto simp: unat_sub word_le_nat_alt unat_sub_if' )

lemma sna32lt_distance: "sna32lt a b \<longleftrightarrow> 0 < unat (b - a) \<and> unat (b - a) < 2 ^ 31"
proof -
  have "unat (push_bit 31 1 :: u32) = 2 ^ 31" by simp
  moreover have "unat a < 2 ^ 32" "unat b < 2 ^ 32"
    using unat_bound [of a] unat_bound [of b] by simp_all
  ultimately show ?thesis
    unfolding sna32lt_def word_less_nat_alt word_le_nat_alt unat_word_diff by auto
qed

lemma sna16lt_distance: "sna16lt a b \<longleftrightarrow> 0 < unat (b - a) \<and> unat (b - a) < 2 ^ 15"
proof -
  have "unat (push_bit 15 1 :: u16) = 2 ^ 15" by simp
  moreover have "unat a < 2 ^ 16" "unat b < 2 ^ 16"
    using unat_bound [of a] unat_bound [of b] by simp_all
  ultimately show ?thesis
    unfolding sna16lt_def word_less_nat_alt word_le_nat_alt unat_word_diff by (auto simp del: unat_u16_less)
qed

lemma sna32gt_not_lte: "sna32gt a b \<longleftrightarrow> \<not> sna32lte a b"
  unfolding sna32gt_def sna32lte_def sna32lt_def
  by (metis linorder_cases linorder_not_less order_less_imp_not_less)

lemma sna16gt_not_lte: "sna16gt a b \<longleftrightarrow> \<not> sna16lte a b"
  unfolding sna16gt_def sna16lte_def sna16lt_def
  by (metis linorder_cases linorder_not_less order_less_imp_not_less)

lemma of_nat_diff_word:
  "unat (of_nat b - of_nat a :: 'a::len word) = (if a \<le> b then b - a else 2 ^ LENGTH('a) - (a - b))"
  if "b < a + 2 ^ LENGTH('a)" "a < b + 2 ^ LENGTH('a)"
proof (cases "a \<le> b")
  case True
  then have "of_nat b - of_nat a = (of_nat (b - a) :: 'a word)" by simp
  moreover have "unat (of_nat (b - a) :: 'a word) = b - a" using that True by (intro unat_of_nat_small) linarith
  ultimately show ?thesis using True by metis
next
  case False
  let ?d = "of_nat (a - b) :: 'a word"
  from False have "of_nat b - of_nat a = 0 - ?d" by simp
  moreover have d: "unat ?d = a - b" using that False by (intro unat_of_nat_small) linarith
  moreover from d False have "\<not> ?d \<le> 0" unfolding word_le_nat_alt by simp
  ultimately show ?thesis using False unat_word_diff [of 0 ?d] by simp
qed

lemma of_nat_word_inject:
  "a < 2 ^ LENGTH('a) \<Longrightarrow> b < 2 ^ LENGTH('a) \<Longrightarrow> (of_nat a :: 'a::len word) = of_nat b \<longleftrightarrow> a = b"
  by (metis unat_of_nat_small)

lemma of_nat_window_inject:
  assumes "a < b + 2 ^ LENGTH('a)" "b < a + 2 ^ LENGTH('a)"
  shows "(of_nat a :: 'a::len word) = of_nat b \<longleftrightarrow> a = b"
  using of_nat_diff_word [OF assms(2) assms(1)] assms by (auto split: if_splits)

lemma sna32lt_of_nat:
  "sna32lt (of_nat a) (of_nat b) \<longleftrightarrow> a < b" if "a < b + 2 ^ 31" "b < a + 2 ^ 31"
  using that unfolding sna32lt_distance by (simp add: of_nat_diff_word) linarith

lemma sna16lt_of_nat:
  "sna16lt (of_nat a) (of_nat b) \<longleftrightarrow> a < b" if "a < b + 2 ^ 15" "b < a + 2 ^ 15"
  using that unfolding sna16lt_distance by (simp add: of_nat_diff_word) linarith

subsection \<open>Sorting with a comparison\<close>

text \<open>
  \<open>sort_by\<close> of the standard library, for a comparison that answers \<open>Less\<close> or not: a stable
  sort. The library leaves the result open when the comparison is not an order, which serial
  numbers more than half of the number space apart are not; every lemma below has the
  comparison agree with an order on the elements at hand.
\<close>

fun insort_by :: "('a \<Rightarrow> 'a \<Rightarrow> bool) \<Rightarrow> 'a \<Rightarrow> 'a list \<Rightarrow> 'a list" where
  "insort_by lt x [] = [x]"
| "insort_by lt x (y # ys) = (if lt x y then x # y # ys else y # insort_by lt x ys)"

definition sort_by :: "('a \<Rightarrow> 'a \<Rightarrow> bool) \<Rightarrow> 'a list \<Rightarrow> 'a list" where
  "sort_by lt xs = fold (insort_by lt) xs []"

lemma mset_insort_by [simp]: "mset (insort_by lt x ys) = add_mset x (mset ys)"
  by (induction ys) auto

lemma mset_fold_insort_by: "mset (fold (insort_by lt) xs ys) = mset xs + mset ys"
  by (induction xs arbitrary: ys) simp_all

lemma mset_sort_by [simp]: "mset (sort_by lt xs) = mset xs"
  by (simp add: sort_by_def mset_fold_insort_by)

lemma set_sort_by [simp]: "set (sort_by lt xs) = set xs"
  by (metis mset_sort_by set_mset_mset)

lemma length_sort_by [simp]: "length (sort_by lt xs) = length xs"
  by (metis mset_sort_by size_mset)

lemma distinct_map_sort_by [simp]: "distinct (map f (sort_by lt xs)) \<longleftrightarrow> distinct (map f xs)"
  by (metis mset_eq_imp_distinct_iff mset_map mset_sort_by)

lemma sort_by_Nil_iff [simp]: "sort_by lt xs = [] \<longleftrightarrow> xs = []"
  by (metis length_0_conv length_sort_by)

lemma set_insort_by [simp]: "set (insort_by lt x ys) = insert x (set ys)"
  by (metis mset_insort_by set_mset_add_mset_insert set_mset_mset)

lemma insort_by_map:
  assumes "\<forall>y \<in> set ys. lt (f x) (f y) \<longleftrightarrow> x < y" and "sorted ys"
  shows "insort_by lt (f x) (map f ys) = map f (insort x ys)"
  using assms by (induction ys) (auto simp: insort_is_Cons)

lemma sort_by_map:
  fixes xs :: "nat list"
  assumes "\<And>x y. x \<in> set xs \<Longrightarrow> y \<in> set xs \<Longrightarrow> lt (f x) (f y) \<longleftrightarrow> x < y"
  shows "sort_by lt (map f xs) = map f (sort xs)"
proof -
  have "set zs \<subseteq> set xs \<Longrightarrow> set ys \<subseteq> set xs \<Longrightarrow> sorted ys \<Longrightarrow>
      fold (insort_by lt) (map f zs) (map f ys) = map f (fold insort zs ys)" for zs ys
  proof (induction zs arbitrary: ys)
    case (Cons z zs)
    from Cons.prems have "insort_by lt (f z) (map f ys) = map f (insort z ys)"
      by (intro insort_by_map) (auto intro!: assms)
    with Cons show ?case by (simp add: set_insort_key sorted_insort)
  qed simp
  from this [of xs "[]"] have "sort_by lt (map f xs) = map f (fold insort xs [])"
    by (simp add: sort_by_def)
  moreover have "mset (fold insort xs ys) = mset xs + mset ys" for ys
    by (induction xs arbitrary: ys) auto
  moreover have "sorted ys \<Longrightarrow> sorted (fold insort xs ys)" for ys
    by (induction xs arbitrary: ys) (auto simp: sorted_insort)
  ultimately show ?thesis using properties_for_sort [of "fold insort xs []" xs] by simp
qed

lemma sort_by_map_insert:
  fixes I :: "nat set"
  assumes "finite I" "i \<notin> I" and "\<And>x y. x \<in> insert i I \<Longrightarrow> y \<in> insert i I \<Longrightarrow> lt (f x) (f y) \<longleftrightarrow> x < y"
  shows "sort_by lt (map f (sorted_list_of_set I) @ [f i]) = map f (sorted_list_of_set (insert i I))"
proof -
  have "sort_by lt (map f (sorted_list_of_set I @ [i])) = map f (sort (sorted_list_of_set I @ [i]))"
    using assms by (intro sort_by_map) auto
  moreover have "sort (sorted_list_of_set I @ [i]) = sorted_list_of_set (insert i I)"
    using assms(1,2) by (intro properties_for_sort) (simp_all add: sorted_list_of_set_insert sorted_insort)
  ultimately show ?thesis by simp
qed

lemma sum_list_sort_by [simp]: "sum_list (map f (sort_by lt xs)) = sum_list (map (f :: 'a \<Rightarrow> nat) xs)"
  by (metis mset_map mset_sort_by sum_mset_sum_list)

end
