(* ===== verification/Sctp_Chunks.thy ===== *)
theory Sctp_Chunks
  imports Wire_Readers Udp_Options
begin

text \<open>
  SCTP chunk headers and DATA chunks (\<open>vendored/webrtc-sctp/src/chunk\<close>). A DATA chunk that is
  written and read again keeps every field that travels; the bookkeeping of the sender starts
  afresh. \<open>Buf::get_u32\<close> and its kin panic at the end of the buffer.
\<close>

datatype sctp_error =
    ErrChunkHeaderTooSmall | ErrChunkHeaderInvalidLength | ErrChunkHeaderNotEnoughSpace
  | ErrChunkHeaderPaddingNonZero | ErrChunkTypeNotPayloadData | ErrChunkPayloadSmall
  | ErrTryAgain | ErrShortBuffer nat | ErrStreamClosed | ErrOutboundPacketTooLarge
  | ErrPayloadDataStateNotExist | ErrResetPacketInStateNotExist

definition get_be :: "nat \<Rightarrow> bytes \<Rightarrow> (nat \<times> bytes) option" where
  "get_be n bs = (if n \<le> length bs then Some (be_nat (take n bs), drop n bs) else None)"

lemma get_be_bytes [simp]: "get_be n (be_bytes n x @ r) = Some (x mod 256 ^ n, r)"
  by (simp add: get_be_def be_nat_be_bytes)

subsection \<open>Chunk headers\<close>

definition CT_PAYLOAD_DATA :: u8 where "CT_PAYLOAD_DATA = 0"

definition CHUNK_HEADER_SIZE :: nat where "CHUNK_HEADER_SIZE = 4"

record ChunkHeader =
  ch_typ :: u8
  ch_flags :: u8
  ch_value_length :: u16

text \<open>The scan of the padding, from its end.\<close>

fun padding_zero :: "bytes \<Rightarrow> nat \<Rightarrow> nat \<Rightarrow> bool option" where
  "padding_zero raw value_length 0 = Some True"
| "padding_zero raw value_length (Suc i) =
     do {
       b \<leftarrow> idx raw (CHUNK_HEADER_SIZE + (value_length + Suc i - 1));
       if b \<noteq> 0 then Some False else padding_zero raw value_length i
     }"

definition unmarshal_chunk_header :: "bytes \<Rightarrow> (sctp_error + ChunkHeader) option" where
  "unmarshal_chunk_header raw =
     (if length raw < CHUNK_HEADER_SIZE then Some (Inl ErrChunkHeaderTooSmall)
      else do {
        (t, r) \<leftarrow> get_be 1 raw;
        (f, r) \<leftarrow> get_be 1 r;
        (len, r) \<leftarrow> get_be 2 r;
        if len < CHUNK_HEADER_SIZE then Some (Inl ErrChunkHeaderInvalidLength)
        else if length raw < len then Some (Inl ErrChunkHeaderInvalidLength)
        else let value_length = int len - int CHUNK_HEADER_SIZE;
                 length_after_value = int (length raw) - int len
        in if length_after_value < 0 then Some (Inl ErrChunkHeaderNotEnoughSpace)
           else do {
             ok \<leftarrow> (if length_after_value < 4 then padding_zero raw (nat value_length) (nat length_after_value)
                   else Some True);
             Some (if \<not> ok then Inl ErrChunkHeaderPaddingNonZero
                   else Inr \<lparr>ch_typ = of_nat t, ch_flags = of_nat f,
                            ch_value_length = of_nat (len - CHUNK_HEADER_SIZE)\<rparr>)
           }
      })"

definition marshal_chunk_header :: "ChunkHeader \<Rightarrow> bytes option" where
  "marshal_chunk_header h =
     do {
       len \<leftarrow> add_checked (ch_value_length h) (of_nat CHUNK_HEADER_SIZE);
       Some (ch_typ h # ch_flags h # be_bytes 2 (unat len))
     }"

subsection \<open>DATA chunks\<close>

datatype PayloadProtocolIdentifier =
    PpiDcep | PpiString | PpiBinary | PpiStringEmpty | PpiBinaryEmpty | PpiUnknown

fun ppi_value :: "PayloadProtocolIdentifier \<Rightarrow> u32" where
  "ppi_value PpiDcep = 50"
| "ppi_value PpiString = 51"
| "ppi_value PpiBinary = 53"
| "ppi_value PpiStringEmpty = 56"
| "ppi_value PpiBinaryEmpty = 57"
| "ppi_value PpiUnknown = 58"

definition ppi_of :: "u32 \<Rightarrow> PayloadProtocolIdentifier" where
  "ppi_of v =
     (if v = 50 then PpiDcep else if v = 51 then PpiString else if v = 53 then PpiBinary
      else if v = 56 then PpiStringEmpty else if v = 57 then PpiBinaryEmpty else PpiUnknown)"

lemma ppi_of_value [simp]: "ppi_of (ppi_value p) = p"
  by (cases p) (simp_all add: ppi_of_def)

definition PAYLOAD_DATA_ENDING_FRAGMENT_BITMASK :: u8 where "PAYLOAD_DATA_ENDING_FRAGMENT_BITMASK = 1"
definition PAYLOAD_DATA_BEGINNING_FRAGMENT_BITMASK :: u8 where "PAYLOAD_DATA_BEGINNING_FRAGMENT_BITMASK = 2"
definition PAYLOAD_DATA_UNORDERED_BITMASK :: u8 where "PAYLOAD_DATA_UNORDERED_BITMASK = 4"
definition PAYLOAD_DATA_IMMEDIATE_SACK :: u8 where "PAYLOAD_DATA_IMMEDIATE_SACK = 8"
definition PAYLOAD_DATA_HEADER_SIZE :: nat where "PAYLOAD_DATA_HEADER_SIZE = 12"

record ChunkPayloadData =
  cd_unordered :: bool
  cd_beginning_fragment :: bool
  cd_ending_fragment :: bool
  cd_immediate_sack :: bool
  cd_tsn :: u32
  cd_stream_identifier :: u16
  cd_stream_sequence_number :: u16
  cd_payload_type :: PayloadProtocolIdentifier
  cd_user_data :: bytes
  cd_acked :: bool
  cd_miss_indicator :: u32
  cd_since :: nat
  cd_nsent :: u32
  cd_abandoned :: bool
  cd_all_inflight :: bool
  cd_retransmit :: bool
  cd_udp_send_options :: "UdpSendOptions option"

definition default_chunk :: "nat \<Rightarrow> ChunkPayloadData" where
  "default_chunk now = \<lparr>cd_unordered = False, cd_beginning_fragment = False, cd_ending_fragment = False,
     cd_immediate_sack = False, cd_tsn = 0, cd_stream_identifier = 0, cd_stream_sequence_number = 0,
     cd_payload_type = PpiUnknown, cd_user_data = [], cd_acked = False, cd_miss_indicator = 0,
     cd_since = now, cd_nsent = 0, cd_abandoned = False, cd_all_inflight = False,
     cd_retransmit = False, cd_udp_send_options = None\<rparr>"

definition chunk_value_length :: "ChunkPayloadData \<Rightarrow> nat" where
  "chunk_value_length c = PAYLOAD_DATA_HEADER_SIZE + length (cd_user_data c)"

definition chunk_header :: "ChunkPayloadData \<Rightarrow> ChunkHeader" where
  "chunk_header c =
     (let flags = (if cd_ending_fragment c then 1 else 0);
          flags = (if cd_beginning_fragment c then flags OR push_bit 1 1 else flags);
          flags = (if cd_unordered c then flags OR push_bit 2 1 else flags);
          flags = (if cd_immediate_sack c then flags OR push_bit 3 1 else flags)
      in \<lparr>ch_typ = CT_PAYLOAD_DATA, ch_flags = flags, ch_value_length = of_nat (chunk_value_length c)\<rparr>)"

definition marshal_data :: "ChunkPayloadData \<Rightarrow> bytes option" where
  "marshal_data c =
     do {
       h \<leftarrow> marshal_chunk_header (chunk_header c);
       Some (h @ be_bytes 4 (unat (cd_tsn c)) @ be_bytes 2 (unat (cd_stream_identifier c))
             @ be_bytes 2 (unat (cd_stream_sequence_number c))
             @ be_bytes 4 (unat (ppi_value (cd_payload_type c))) @ cd_user_data c)
     }"

definition unmarshal_data :: "nat \<Rightarrow> bytes \<Rightarrow> (sctp_error + ChunkPayloadData) option" where
  "unmarshal_data now raw =
     do {
       header \<leftarrow> unmarshal_chunk_header raw;
       case header of
         Inl e \<Rightarrow> Some (Inl e)
       | Inr h \<Rightarrow>
           if ch_typ h \<noteq> CT_PAYLOAD_DATA then Some (Inl ErrChunkTypeNotPayloadData)
           else if unat (ch_value_length h) < PAYLOAD_DATA_HEADER_SIZE then Some (Inl ErrChunkPayloadSmall)
           else do {
             reader \<leftarrow> slice raw CHUNK_HEADER_SIZE (CHUNK_HEADER_SIZE + unat (ch_value_length h));
             (tsn, reader) \<leftarrow> get_be 4 reader;
             (stream_identifier, reader) \<leftarrow> get_be 2 reader;
             (stream_sequence_number, reader) \<leftarrow> get_be 2 reader;
             (payload_type, reader) \<leftarrow> get_be 4 reader;
             user_data \<leftarrow> slice raw (CHUNK_HEADER_SIZE + PAYLOAD_DATA_HEADER_SIZE)
                           (CHUNK_HEADER_SIZE + unat (ch_value_length h));
             Some (Inr (default_chunk now\<lparr>
               cd_unordered := ch_flags h AND PAYLOAD_DATA_UNORDERED_BITMASK \<noteq> 0,
               cd_beginning_fragment := ch_flags h AND PAYLOAD_DATA_BEGINNING_FRAGMENT_BITMASK \<noteq> 0,
               cd_ending_fragment := ch_flags h AND PAYLOAD_DATA_ENDING_FRAGMENT_BITMASK \<noteq> 0,
               cd_immediate_sack := ch_flags h AND PAYLOAD_DATA_IMMEDIATE_SACK \<noteq> 0,
               cd_tsn := of_nat tsn, cd_stream_identifier := of_nat stream_identifier,
               cd_stream_sequence_number := of_nat stream_sequence_number,
               cd_payload_type := ppi_of (of_nat payload_type), cd_user_data := user_data\<rparr>))
           }
     }"

subsection \<open>A DATA chunk on the wire\<close>

text \<open>What the receiver holds of a chunk: the fields that travel.\<close>

definition received_chunk :: "nat \<Rightarrow> ChunkPayloadData \<Rightarrow> ChunkPayloadData" where
  "received_chunk now c = default_chunk now\<lparr>cd_unordered := cd_unordered c,
     cd_beginning_fragment := cd_beginning_fragment c, cd_ending_fragment := cd_ending_fragment c,
     cd_immediate_sack := cd_immediate_sack c, cd_tsn := cd_tsn c,
     cd_stream_identifier := cd_stream_identifier c,
     cd_stream_sequence_number := cd_stream_sequence_number c,
     cd_payload_type := cd_payload_type c, cd_user_data := cd_user_data c\<rparr>"

definition chunk_flags :: "ChunkPayloadData \<Rightarrow> u8" where
  "chunk_flags c = ch_flags (chunk_header c)"

lemma chunk_flags_bits:
  "chunk_flags c AND PAYLOAD_DATA_UNORDERED_BITMASK \<noteq> 0 \<longleftrightarrow> cd_unordered c"
  "chunk_flags c AND PAYLOAD_DATA_BEGINNING_FRAGMENT_BITMASK \<noteq> 0 \<longleftrightarrow> cd_beginning_fragment c"
  "chunk_flags c AND PAYLOAD_DATA_ENDING_FRAGMENT_BITMASK \<noteq> 0 \<longleftrightarrow> cd_ending_fragment c"
  "chunk_flags c AND PAYLOAD_DATA_IMMEDIATE_SACK \<noteq> 0 \<longleftrightarrow> cd_immediate_sack c"
  by (simp_all add: chunk_flags_def chunk_header_def PAYLOAD_DATA_UNORDERED_BITMASK_def
      PAYLOAD_DATA_BEGINNING_FRAGMENT_BITMASK_def PAYLOAD_DATA_ENDING_FRAGMENT_BITMASK_def
      PAYLOAD_DATA_IMMEDIATE_SACK_def)

lemma padding_zero_replicate:
  "length pre = CHUNK_HEADER_SIZE + v \<Longrightarrow> k \<le> n \<Longrightarrow> padding_zero (pre @ replicate n 0) v k = Some True"
  by (induction k) (auto simp: nth_append)

lemma get_be_Cons [simp]: "get_be (Suc 0) (b # bs) = Some (unat b, bs)"
  by (simp add: get_be_def)

lemma unmarshal_chunk_header_wire:
  assumes "length body = v" and "v + 4 < 2 ^ 16"
    and "length rest < 4 \<Longrightarrow> rest = replicate (length rest) 0"
  shows "unmarshal_chunk_header (t # f # be_bytes 2 (v + 4) @ body @ rest) =
    Some (Inr \<lparr>ch_typ = t, ch_flags = f, ch_value_length = of_nat v\<rparr>)"
proof -
  have "padding_zero (t # f # be_bytes 2 (v + 4) @ body @ rest) v (length rest) = Some True"
    if "length rest < 4"
    using padding_zero_replicate [of "t # f # be_bytes 2 (v + 4) @ body" v "length rest" "length rest"]
      assms(1) assms(3) [OF that] by (simp add: CHUNK_HEADER_SIZE_def)
  with assms show ?thesis
    by (simp add: unmarshal_chunk_header_def CHUNK_HEADER_SIZE_def Let_def)
qed

lemma marshal_data_Some:
  assumes "length (cd_user_data c) \<le> 65519"
  shows "marshal_data c = Some (CT_PAYLOAD_DATA # chunk_flags c # be_bytes 2 (chunk_value_length c + 4)
    @ be_bytes 4 (unat (cd_tsn c)) @ be_bytes 2 (unat (cd_stream_identifier c))
    @ be_bytes 2 (unat (cd_stream_sequence_number c)) @ be_bytes 4 (unat (ppi_value (cd_payload_type c)))
    @ cd_user_data c)"
proof -
  have "unat (of_nat (chunk_value_length c) :: u16) = chunk_value_length c"
    using assms by (intro unat_of_nat_small) (simp add: chunk_value_length_def PAYLOAD_DATA_HEADER_SIZE_def)
  moreover have "unat (of_nat (chunk_value_length c) + 4 :: u16) = chunk_value_length c + 4"
    using assms unat_of_nat_small [of "chunk_value_length c + 4", where 'a = 16]
    by (simp add: chunk_value_length_def PAYLOAD_DATA_HEADER_SIZE_def)
  ultimately show ?thesis using assms
    by (simp add: marshal_data_def marshal_chunk_header_def chunk_header_def chunk_flags_def Let_def
        add_checked_def CHUNK_HEADER_SIZE_def chunk_value_length_def PAYLOAD_DATA_HEADER_SIZE_def)
qed

lemma slice_middle: "length a = n \<Longrightarrow> m = n + length b \<Longrightarrow> slice (a @ b @ c) n m = Some b"
  by (simp add: slice_def)

text \<open>
  The rest of the packet is the padding of the chunk, or its padding and further chunks.
\<close>

lemma data_chunk_roundtrip:
  assumes "length (cd_user_data c) \<le> 65519"
    and "length rest < 4 \<Longrightarrow> rest = replicate (length rest) 0"
  shows "\<exists>bs. marshal_data c = Some bs \<and> unmarshal_data now (bs @ rest) = Some (Inr (received_chunk now c))"
proof -
  let ?body = "be_bytes 4 (unat (cd_tsn c)) @ be_bytes 2 (unat (cd_stream_identifier c))
    @ be_bytes 2 (unat (cd_stream_sequence_number c)) @ be_bytes 4 (unat (ppi_value (cd_payload_type c)))
    @ cd_user_data c"
  let ?raw = "CT_PAYLOAD_DATA # chunk_flags c # be_bytes 2 (chunk_value_length c + 4) @ ?body @ rest"
  have len: "unat (of_nat (chunk_value_length c) :: u16) = chunk_value_length c"
    using assms(1) by (intro unat_of_nat_small) (simp add: chunk_value_length_def PAYLOAD_DATA_HEADER_SIZE_def)
  have h: "unmarshal_chunk_header ?raw = Some (Inr \<lparr>ch_typ = CT_PAYLOAD_DATA, ch_flags = chunk_flags c,
      ch_value_length = of_nat (chunk_value_length c)\<rparr>)"
    using assms by (intro unmarshal_chunk_header_wire)
      (simp_all add: chunk_value_length_def PAYLOAD_DATA_HEADER_SIZE_def)
  have size: "\<not> chunk_value_length c < PAYLOAD_DATA_HEADER_SIZE" by (simp add: chunk_value_length_def)
  have s: "slice ?raw CHUNK_HEADER_SIZE (CHUNK_HEADER_SIZE + chunk_value_length c) = Some ?body"
    "slice ?raw (CHUNK_HEADER_SIZE + PAYLOAD_DATA_HEADER_SIZE) (CHUNK_HEADER_SIZE + chunk_value_length c)
      = Some (cd_user_data c)"
    using slice_middle [of "CT_PAYLOAD_DATA # chunk_flags c # be_bytes 2 (chunk_value_length c + 4)" 4 _ ?body rest]
      slice_middle [of "CT_PAYLOAD_DATA # chunk_flags c # be_bytes 2 (chunk_value_length c + 4) @
        be_bytes 4 (unat (cd_tsn c)) @ be_bytes 2 (unat (cd_stream_identifier c)) @
        be_bytes 2 (unat (cd_stream_sequence_number c)) @ be_bytes 4 (unat (ppi_value (cd_payload_type c)))"
        16 _ "cd_user_data c" rest]
    by (simp_all add: CHUNK_HEADER_SIZE_def PAYLOAD_DATA_HEADER_SIZE_def chunk_value_length_def)
  have "unmarshal_data now ?raw = Some (Inr (received_chunk now c))"
    unfolding unmarshal_data_def h using s
    by (simp add: len chunk_flags_bits received_chunk_def default_chunk_def size)
  with marshal_data_Some [OF assms(1)] show ?thesis by simp
qed

end
