(* ===== verification/Sctp_Reassembly.thy ===== *)
theory Sctp_Reassembly
  imports Sctp_Serial Sctp_Chunks
begin

text \<open>
  The reassembly queue of an SCTP stream (\<open>vendored/webrtc-sctp/src/queue/reassembly_queue.rs\<close>):
  sets of fragments that share a stream sequence number, delivered in order, and unordered
  messages, delivered when complete. TSNs are incremented with a checked addition, so a
  fragmented message whose TSNs wrap around panics.
\<close>

definition sort_chunks_by_tsn :: "ChunkPayloadData list \<Rightarrow> ChunkPayloadData list" where
  "sort_chunks_by_tsn = sort_by (\<lambda>a b. sna32lt (cd_tsn a) (cd_tsn b))"

record ChunkSet =
  cs_ssn :: u16
  cs_ppi :: PayloadProtocolIdentifier
  cs_chunks :: "ChunkPayloadData list"

definition sort_chunks_by_ssn :: "ChunkSet list \<Rightarrow> ChunkSet list" where
  "sort_chunks_by_ssn = sort_by (\<lambda>a b. sna16lt (cs_ssn a) (cs_ssn b))"

definition new_chunk_set :: "u16 \<Rightarrow> PayloadProtocolIdentifier \<Rightarrow> ChunkSet" where
  "new_chunk_set ssn ppi = \<lparr>cs_ssn = ssn, cs_ppi = ppi, cs_chunks = []\<rparr>"

fun tsns_follow :: "u32 \<Rightarrow> ChunkPayloadData list \<Rightarrow> bool option" where
  "tsns_follow last_tsn [] = Some True"
| "tsns_follow last_tsn (c # cs) =
     do {
       expected \<leftarrow> add_checked last_tsn 1;
       if cd_tsn c \<noteq> expected then Some False else tsns_follow (cd_tsn c) cs
     }"

fun chunks_complete :: "ChunkPayloadData list \<Rightarrow> bool option" where
  "chunks_complete [] = Some False"
| "chunks_complete (c # cs) =
     (if \<not> cd_beginning_fragment c then Some False
      else if \<not> cd_ending_fragment (last (c # cs)) then Some False
      else tsns_follow (cd_tsn c) cs)"

definition is_complete :: "ChunkSet \<Rightarrow> bool option" where
  "is_complete s = chunks_complete (cs_chunks s)"

definition chunk_set_push :: "ChunkPayloadData \<Rightarrow> ChunkSet \<Rightarrow> (bool \<times> ChunkSet) option" where
  "chunk_set_push chunk s =
     (if \<exists>c \<in> set (cs_chunks s). cd_tsn c = cd_tsn chunk then Some (False, s)
      else let s = s\<lparr>cs_chunks := sort_chunks_by_tsn (cs_chunks s @ [chunk])\<rparr>
      in do {
        ok \<leftarrow> is_complete s;
        Some (ok, s)
      })"

record ReassemblyQueue =
  rq_si :: u16
  rq_next_ssn :: u16
  rq_ordered :: "ChunkSet list"
  rq_unordered :: "ChunkSet list"
  rq_unordered_chunks :: "ChunkPayloadData list"
  rq_n_bytes :: nat

definition new_reassembly_queue :: "u16 \<Rightarrow> ReassemblyQueue" where
  "new_reassembly_queue si = \<lparr>rq_si = si, rq_next_ssn = 0, rq_ordered = [], rq_unordered = [],
     rq_unordered_chunks = [], rq_n_bytes = 0\<rparr>"

definition subtract_num_bytes :: "nat \<Rightarrow> ReassemblyQueue \<Rightarrow> ReassemblyQueue" where
  "subtract_num_bytes n_bytes q = q\<lparr>rq_n_bytes := (if n_bytes \<le> rq_n_bytes q then rq_n_bytes q - n_bytes else 0)\<rparr>"

text \<open>
  The scan for a complete run of unordered chunks: the state is the start, the length and the
  last TSN of the run at hand, the result the start and length of the first complete one.
\<close>

fun scan_unordered :: "nat \<Rightarrow> (nat \<times> nat \<times> u32) option \<Rightarrow> ChunkPayloadData list \<Rightarrow> (nat \<times> nat) option option" where
  "scan_unordered i run [] = Some None"
| "scan_unordered i run (c # cs) =
     (if cd_beginning_fragment c
      then (if cd_ending_fragment c then Some (Some (i, 1)) else scan_unordered (i + 1) (Some (i, 1, cd_tsn c)) cs)
      else case run of
        None \<Rightarrow> scan_unordered (i + 1) None cs
      | Some (start, n_chunks, last_tsn) \<Rightarrow>
          do {
            expected \<leftarrow> add_checked last_tsn 1;
            if cd_tsn c \<noteq> expected then scan_unordered (i + 1) None cs
            else if cd_ending_fragment c then Some (Some (start, n_chunks + 1))
            else scan_unordered (i + 1) (Some (start, n_chunks + 1, cd_tsn c)) cs
          })"

definition find_complete_unordered_chunk_set ::
  "ReassemblyQueue \<Rightarrow> (ChunkSet option \<times> ReassemblyQueue) option" where
  "find_complete_unordered_chunk_set q =
     do {
       found \<leftarrow> scan_unordered 0 None (rq_unordered_chunks q);
       case found of
         None \<Rightarrow> Some (None, q)
       | Some (start, n) \<Rightarrow>
           do {
             chunks \<leftarrow> slice (rq_unordered_chunks q) start (start + n);
             c \<leftarrow> idx chunks 0;
             Some (Some ((new_chunk_set 0 (cd_payload_type c))\<lparr>cs_chunks := chunks\<rparr>),
               q\<lparr>rq_unordered_chunks := take start (rq_unordered_chunks q) @ drop (start + n) (rq_unordered_chunks q)\<rparr>)
           }
     }"

fun push_to_set :: "ChunkPayloadData \<Rightarrow> ChunkSet list \<Rightarrow> (bool \<times> ChunkSet list) option option" where
  "push_to_set chunk [] = Some None"
| "push_to_set chunk (s # ss) =
     (if cs_ssn s = cd_stream_sequence_number chunk
      then do {
        (ok, s) \<leftarrow> chunk_set_push chunk s;
        Some (Some (ok, s # ss))
      }
      else do {
        r \<leftarrow> push_to_set chunk ss;
        Some (map_option (\<lambda>(ok, ss). (ok, s # ss)) r)
      })"

definition reassembly_push :: "ChunkPayloadData \<Rightarrow> ReassemblyQueue \<Rightarrow> (bool \<times> ReassemblyQueue) option" where
  "reassembly_push chunk q =
     (if cd_stream_identifier chunk \<noteq> rq_si q then Some (False, q)
      else if cd_unordered chunk
      then let q = q\<lparr>rq_n_bytes := rq_n_bytes q + length (cd_user_data chunk),
                     rq_unordered_chunks := sort_chunks_by_tsn (rq_unordered_chunks q @ [chunk])\<rparr>
        in do {
          (cset, q) \<leftarrow> find_complete_unordered_chunk_set q;
          Some (case cset of
              Some cset \<Rightarrow> (True, q\<lparr>rq_unordered := rq_unordered q @ [cset]\<rparr>)
            | None \<Rightarrow> (False, q))
        }
      else if sna16lt (cd_stream_sequence_number chunk) (rq_next_ssn q) then Some (False, q)
      else let q = q\<lparr>rq_n_bytes := rq_n_bytes q + length (cd_user_data chunk)\<rparr>
        in do {
          pushed \<leftarrow> push_to_set chunk (rq_ordered q);
          case pushed of
            Some (ok, sets) \<Rightarrow> Some (ok, q\<lparr>rq_ordered := sets\<rparr>)
          | None \<Rightarrow>
              do {
                (ok, cset) \<leftarrow> chunk_set_push chunk
                  (new_chunk_set (cd_stream_sequence_number chunk) (cd_payload_type chunk));
                Some (ok, q\<lparr>rq_ordered := sort_chunks_by_ssn (rq_ordered q @ [cset])\<rparr>)
              }
        })"

definition is_readable :: "ReassemblyQueue \<Rightarrow> bool option" where
  "is_readable q =
     (if rq_unordered q \<noteq> [] then Some True
      else case rq_ordered q of
        [] \<Rightarrow> Some False
      | cset # _ \<Rightarrow>
          do {
            complete \<leftarrow> is_complete cset;
            Some (complete \<and> sna16lte (cs_ssn cset) (rq_next_ssn q))
          })"

text \<open>The copy into the reader's buffer of \<open>cap\<close> bytes, with whether a fragment did not fit.\<close>

fun copy_chunks :: "nat \<Rightarrow> ChunkPayloadData list \<Rightarrow> bytes \<Rightarrow> bool \<Rightarrow> bytes \<times> bool" where
  "copy_chunks cap [] written short = (written, short)"
| "copy_chunks cap (c # cs) written short =
     (if short then copy_chunks cap cs written short
      else let to_copy = length (cd_user_data c); n = min to_copy (cap - length written)
        in copy_chunks cap cs (written @ take n (cd_user_data c)) (n < to_copy))"

definition reassembly_read ::
  "nat \<Rightarrow> ReassemblyQueue \<Rightarrow> ((sctp_error + bytes \<times> PayloadProtocolIdentifier) \<times> ReassemblyQueue) option" where
  "reassembly_read cap q =
     do {
       picked \<leftarrow>
         (case rq_unordered q of
            cset # rest \<Rightarrow> Some (Some (cset, q\<lparr>rq_unordered := rest\<rparr>))
          | [] \<Rightarrow>
              (case rq_ordered q of
                 [] \<Rightarrow> Some None
               | cset # rest \<Rightarrow>
                   do {
                     complete \<leftarrow> is_complete cset;
                     Some (if \<not> complete \<or> sna16gt (cs_ssn cset) (rq_next_ssn q) then None
                       else Some (cset, q\<lparr>rq_next_ssn := (if cs_ssn cset = rq_next_ssn q
                                            then rq_next_ssn q + 1 else rq_next_ssn q),
                                          rq_ordered := rest\<rparr>))
                   }));
       Some (case picked of
           None \<Rightarrow> (Inl ErrTryAgain, q)
         | Some (cset, q) \<Rightarrow>
             let q = fold (\<lambda>c. subtract_num_bytes (length (cd_user_data c))) (cs_chunks cset) q;
                 (written, short) = copy_chunks cap (cs_chunks cset) [] False
             in (if short then Inl (ErrShortBuffer cap) else Inr (written, cs_ppi cset), q))
     }"

text \<open>An incomplete set that a FORWARD-TSN gives up.\<close>

definition abandoned_set :: "u16 \<Rightarrow> ChunkSet \<Rightarrow> bool option" where
  "abandoned_set last_ssn s =
     (if sna16lte (cs_ssn s) last_ssn then map_option Not (is_complete s) else Some False)"

definition forward_tsn_for_ordered :: "u16 \<Rightarrow> ReassemblyQueue \<Rightarrow> ReassemblyQueue option" where
  "forward_tsn_for_ordered last_ssn q =
     do {
       given_up \<leftarrow> map_checked (abandoned_set last_ssn) (rq_ordered q);
       Some (let num_bytes = (\<Sum>s \<leftarrow> map fst (filter snd (zip (rq_ordered q) given_up)).
             \<Sum>c \<leftarrow> cs_chunks s. length (cd_user_data c));
           q = subtract_num_bytes num_bytes q;
           q = q\<lparr>rq_ordered := map fst (filter (\<lambda>p. \<not> snd p) (zip (rq_ordered q) given_up))\<rparr>;
           q = q\<lparr>rq_next_ssn := (if sna16lte (rq_next_ssn q) last_ssn then last_ssn + 1 else rq_next_ssn q)\<rparr>
         in q)
     }"

definition forward_tsn_for_unordered :: "u32 \<Rightarrow> ReassemblyQueue \<Rightarrow> ReassemblyQueue" where
  "forward_tsn_for_unordered new_cumulative_tsn q =
     (let old = takeWhile (\<lambda>c. \<not> sna32gt (cd_tsn c) new_cumulative_tsn) (rq_unordered_chunks q);
          q = fold (\<lambda>c. subtract_num_bytes (length (cd_user_data c))) old q
      in q\<lparr>rq_unordered_chunks := drop (length old) (rq_unordered_chunks q)\<rparr>)"

section \<open>The states of a queue\<close>

definition bytes_of :: "ChunkPayloadData list \<Rightarrow> nat" where
  "bytes_of cs = (\<Sum>c \<leftarrow> cs. length (cd_user_data c))"

definition held_bytes :: "ReassemblyQueue \<Rightarrow> nat" where
  "held_bytes q = (\<Sum>s \<leftarrow> rq_ordered q. bytes_of (cs_chunks s))
     + (\<Sum>s \<leftarrow> rq_unordered q. bytes_of (cs_chunks s)) + bytes_of (rq_unordered_chunks q)"

definition set_ok :: "u16 \<Rightarrow> ChunkSet \<Rightarrow> bool" where
  "set_ok si s \<longleftrightarrow> cs_chunks s \<noteq> [] \<and> distinct (map cd_tsn (cs_chunks s)) \<and>
     (\<forall>c \<in> set (cs_chunks s). cd_stream_identifier c = si \<and> \<not> cd_unordered c \<and>
        cd_stream_sequence_number c = cs_ssn s)"

definition reassembly_ok :: "ReassemblyQueue \<Rightarrow> bool" where
  "reassembly_ok q \<longleftrightarrow>
     (\<forall>s \<in> set (rq_ordered q). set_ok (rq_si q) s) \<and> distinct (map cs_ssn (rq_ordered q)) \<and>
     (\<forall>s \<in> set (rq_unordered q). is_complete s = Some True) \<and>
     (\<forall>c \<in> set (rq_unordered_chunks q). cd_stream_identifier c = rq_si q \<and> cd_unordered c) \<and>
     held_bytes q \<le> rq_n_bytes q"

lemma bytes_of_simps [simp]:
  "bytes_of [] = 0" "bytes_of (c # cs) = length (cd_user_data c) + bytes_of cs"
  "bytes_of (cs @ ds) = bytes_of cs + bytes_of ds"
  by (simp_all add: bytes_of_def)

lemma bytes_of_sort [simp]: "bytes_of (sort_chunks_by_tsn cs) = bytes_of cs"
  by (simp add: bytes_of_def sort_chunks_by_tsn_def)

lemma set_sort_chunks [simp]:
  "set (sort_chunks_by_tsn cs) = set cs" "sort_chunks_by_tsn cs = [] \<longleftrightarrow> cs = []"
  "distinct (map f (sort_chunks_by_tsn cs)) = distinct (map f cs)"
  by (simp_all add: sort_chunks_by_tsn_def)

lemma subtract_folded [simp]:
  "fold (\<lambda>c. subtract_num_bytes (length (cd_user_data c))) cs q = q\<lparr>rq_n_bytes := rq_n_bytes q - bytes_of cs\<rparr>"
  by (induction cs arbitrary: q) (auto simp: subtract_num_bytes_def)

lemma subtract_num_bytes_eq: "subtract_num_bytes n q = q\<lparr>rq_n_bytes := rq_n_bytes q - n\<rparr>"
  by (simp add: subtract_num_bytes_def)

subsection \<open>Unordered messages\<close>

text \<open>A run the scan has begun: its chunks are contiguous and it starts with a first fragment.\<close>

lemma tsns_follow_snoc:
  "tsns_follow a cs = Some True \<Longrightarrow>
   tsns_follow a (cs @ [c]) = do { e \<leftarrow> add_checked (last (a # map cd_tsn cs)) 1; Some (cd_tsn c = e) }"
  by (induction a cs rule: tsns_follow.induct) (auto simp: bind_eq_Some_conv split: if_splits Option.bind_splits)

definition run_ok :: "ChunkPayloadData list \<Rightarrow> nat \<times> nat \<times> u32 \<Rightarrow> bool" where
  "run_ok pre run = (case run of (start, n, last_tsn) \<Rightarrow>
     0 < n \<and> start + n = length pre \<and> cd_beginning_fragment (pre ! start) \<and>
     tsns_follow (cd_tsn (pre ! start)) (drop (Suc start) pre) = Some True \<and> last_tsn = cd_tsn (last pre))"

lemma scan_unordered_complete:
  assumes "scan_unordered (length pre) run cs = Some (Some (start, n))"
    and "\<forall>r. run = Some r \<longrightarrow> run_ok pre r"
  shows "start + n \<le> length (pre @ cs) \<and> 0 < n \<and>
    chunks_complete (take n (drop start (pre @ cs))) = Some True"
  using assms
proof (induction cs arbitrary: pre run)
  case (Cons c cs)
  show ?case
  proof (cases "cd_beginning_fragment c")
    case b: True
    show ?thesis
    proof (cases "cd_ending_fragment c")
      case True
      with b Cons.prems(1) show ?thesis by auto
    next
      case False
      have "run_ok (pre @ [c]) (length pre, 1, cd_tsn c)" using b by (simp add: run_ok_def)
      with Cons.IH [of "pre @ [c]" "Some (length pre, 1, cd_tsn c)"] Cons.prems(1) b False
      show ?thesis by simp
    qed
  next
    case nb: False
    show ?thesis
    proof (cases run)
      case None
      with Cons.IH [of "pre @ [c]" None] Cons.prems(1) nb show ?thesis by simp
    next
      case (Some r)
      obtain a k t where r: "r = (a, k, t)" by (cases r) auto
      with Cons.prems(2) Some have ok: "0 < k" "a + k = length pre" "cd_beginning_fragment (pre ! a)"
        "tsns_follow (cd_tsn (pre ! a)) (drop (Suc a) pre) = Some True" "t = cd_tsn (last pre)"
        by (auto simp: run_ok_def)
      from Cons.prems(1) nb Some r obtain e where e: "add_checked t 1 = Some e"
        by (auto simp: bind_eq_Some_conv)
      show ?thesis
      proof (cases "cd_tsn c = e")
        case False
        with Cons.IH [of "pre @ [c]" None] Cons.prems(1) nb Some r e show ?thesis by simp
      next
        case True
        have lst: "last (cd_tsn (pre ! a) # map cd_tsn (drop (Suc a) pre)) = cd_tsn (last pre)"
        proof (cases "drop (Suc a) pre = []")
          case True
          with ok(1,2) have "length pre = Suc a" by simp
          moreover from this have "pre \<noteq> []" by auto
          ultimately have "last pre = pre ! a" by (simp add: last_conv_nth)
          with True show ?thesis by simp
        next
          case False
          then show ?thesis by (simp add: last_map)
        qed
        have fol: "tsns_follow (cd_tsn (pre ! a)) (drop (Suc a) pre @ [c]) = Some True"
          using tsns_follow_snoc [OF ok(4), of c] lst ok(5) e True by simp
        show ?thesis
        proof (cases "cd_ending_fragment c")
          case end_frag: True
          with Cons.prems(1) nb Some r e True have "start = a" "n = k + 1" by auto
          moreover have "take (k + 1) (drop a (pre @ c # cs)) = (pre ! a) # drop (Suc a) pre @ [c]"
            using ok(1) by (simp add: Cons_nth_drop_Suc [symmetric] ok(2) [symmetric] add.commute)
          ultimately show ?thesis using ok(1,2,3) end_frag fol by simp
        next
          case False
          have "run_ok (pre @ [c]) (a, k + 1, cd_tsn c)"
            using ok fol by (simp add: run_ok_def nth_append)
          with Cons.IH [of "pre @ [c]" "Some (a, k + 1, cd_tsn c)"] Cons.prems(1) nb Some r e True False
          show ?thesis by simp
        qed
      qed
    qed
  qed
qed simp

lemma find_complete_ok:
  assumes "find_complete_unordered_chunk_set q = Some (cset, q')" and "reassembly_ok q"
  shows "q' = q\<lparr>rq_unordered_chunks := rq_unordered_chunks q'\<rparr> \<and>
    set (rq_unordered_chunks q') \<subseteq> set (rq_unordered_chunks q) \<and>
    (case cset of
       None \<Rightarrow> rq_unordered_chunks q' = rq_unordered_chunks q
     | Some s \<Rightarrow> is_complete s = Some True \<and>
         bytes_of (cs_chunks s) + bytes_of (rq_unordered_chunks q') = bytes_of (rq_unordered_chunks q))"
proof -
  from assms(1) obtain found where found: "scan_unordered 0 None (rq_unordered_chunks q) = Some found"
    by (auto simp: find_complete_unordered_chunk_set_def bind_eq_Some_conv)
  show ?thesis
  proof (cases found)
    case None
    with assms(1) found show ?thesis by (auto simp: find_complete_unordered_chunk_set_def)
  next
    case (Some r)
    obtain start n where r: "r = (start, n)" by (cases r) auto
    let ?cs = "rq_unordered_chunks q"
    from scan_unordered_complete [of "[]" None ?cs start n] found Some r
    have ok: "start + n \<le> length ?cs" "0 < n" "chunks_complete (take n (drop start ?cs)) = Some True"
      by auto
    have "?cs = take start ?cs @ take n (drop start ?cs) @ drop (start + n) ?cs"
      by (metis append_take_drop_id drop_drop add.commute)
    then have "bytes_of ?cs = bytes_of (take start ?cs @ take n (drop start ?cs) @ drop (start + n) ?cs)"
      by metis
    with assms(1) found Some r ok show ?thesis
      by (auto simp: find_complete_unordered_chunk_set_def is_complete_def bind_eq_Some_conv
          slice_eq_Some_iff dest: in_set_takeD in_set_dropD)
  qed
qed

subsection \<open>Every operation keeps the queue well formed\<close>

lemma chunk_set_push_ok:
  assumes "chunk_set_push chunk s = Some (ok, s')" and "set_ok si s \<or> cs_chunks s = []"
    and "cd_stream_identifier chunk = si" "\<not> cd_unordered chunk" "cd_stream_sequence_number chunk = cs_ssn s"
  shows "set_ok si s' \<and> cs_ssn s' = cs_ssn s \<and>
    bytes_of (cs_chunks s') \<le> bytes_of (cs_chunks s) + length (cd_user_data chunk)"
  using assms by (auto simp: chunk_set_push_def set_ok_def bind_eq_Some_conv Let_def split: if_splits) blast

lemma push_to_set_ok:
  assumes "push_to_set chunk ss = Some (Some (ok, ss'))" and "\<forall>s \<in> set ss. set_ok si s"
    and "cd_stream_identifier chunk = si" "\<not> cd_unordered chunk"
  shows "(\<forall>s \<in> set ss'. set_ok si s) \<and> map cs_ssn ss' = map cs_ssn ss \<and>
    (\<Sum>s \<leftarrow> ss'. bytes_of (cs_chunks s)) \<le> (\<Sum>s \<leftarrow> ss. bytes_of (cs_chunks s)) + length (cd_user_data chunk)"
  using assms
proof (induction ss arbitrary: ss')
  case (Cons s ss)
  show ?case
  proof (cases "cs_ssn s = cd_stream_sequence_number chunk")
    case True
    with Cons.prems(1) obtain s' where "chunk_set_push chunk s = Some (ok, s')" "ss' = s' # ss"
      by (auto simp: bind_eq_Some_conv)
    with chunk_set_push_ok [of chunk s ok s' si] Cons.prems True show ?thesis by auto
  next
    case False
    with Cons.prems(1) obtain ss1 where "push_to_set chunk ss = Some (Some (ok, ss1))" "ss' = s # ss1"
      by (auto simp: bind_eq_Some_conv)
    with Cons.IH [of ss1] Cons.prems show ?thesis by auto
  qed
qed simp

lemma push_to_set_none:
  "push_to_set chunk ss = Some None \<longleftrightarrow> cd_stream_sequence_number chunk \<notin> cs_ssn ` set ss"
  by (induction ss) (auto simp: bind_eq_Some_conv chunk_set_push_def split: if_splits Option.bind_splits)

lemma reassembly_push_ok:
  assumes "reassembly_push chunk q = Some (ok, q')" and "reassembly_ok q"
  shows "reassembly_ok q' \<and> rq_si q' = rq_si q"
proof (cases "cd_stream_identifier chunk = rq_si q")
  case False
  with assms show ?thesis by (simp add: reassembly_push_def)
next
  case si: True
  show ?thesis
  proof (cases "cd_unordered chunk")
    case True
    let ?q = "q\<lparr>rq_n_bytes := rq_n_bytes q + length (cd_user_data chunk),
                rq_unordered_chunks := sort_chunks_by_tsn (rq_unordered_chunks q @ [chunk])\<rparr>"
    have ok: "reassembly_ok ?q" using assms(2) si True by (auto simp: reassembly_ok_def held_bytes_def)
    from assms(1) si True obtain cset q1 where q1: "find_complete_unordered_chunk_set ?q = Some (cset, q1)"
      and q': "q' = (case cset of Some s \<Rightarrow> q1\<lparr>rq_unordered := rq_unordered q1 @ [s]\<rparr> | None \<Rightarrow> q1)"
      by (auto simp: reassembly_push_def bind_eq_Some_conv split: option.splits)
    from find_complete_ok [OF q1 ok] obtain ucs where
      q1': "q1 = ?q\<lparr>rq_unordered_chunks := ucs\<rparr>" and sub: "set ucs \<subseteq> insert chunk (set (rq_unordered_chunks q))"
      and bytes: "case cset of None \<Rightarrow> bytes_of ucs = bytes_of (rq_unordered_chunks ?q)
        | Some s \<Rightarrow> is_complete s = Some True \<and>
            bytes_of (cs_chunks s) + bytes_of ucs = bytes_of (rq_unordered_chunks ?q)"
      by (auto split: option.splits)
    from ok q' q1' sub bytes si True show ?thesis
      by (cases cset) (auto simp: reassembly_ok_def held_bytes_def)
  next
    case ord: False
    show ?thesis
    proof (cases "sna16lt (cd_stream_sequence_number chunk) (rq_next_ssn q)")
      case True
      with assms si ord show ?thesis by (simp add: reassembly_push_def)
    next
      case new: False
      from assms(1) si ord new obtain pushed where p: "push_to_set chunk (rq_ordered q) = Some pushed"
        by (auto simp: reassembly_push_def bind_eq_Some_conv Let_def)
      show ?thesis
      proof (cases pushed)
        case (Some r)
        obtain b ss where r: "r = (b, ss)" by (cases r) auto
        with assms(1) si ord new p Some have
          "q' = q\<lparr>rq_n_bytes := rq_n_bytes q + length (cd_user_data chunk), rq_ordered := ss\<rparr>"
          by (simp add: reassembly_push_def)
        with push_to_set_ok [of chunk "rq_ordered q" b ss "rq_si q"] p Some r si ord assms(2)
        show ?thesis by (auto simp: reassembly_ok_def held_bytes_def)
      next
        case None
        let ?s = "new_chunk_set (cd_stream_sequence_number chunk) (cd_payload_type chunk)"
        from assms(1) si ord new p None obtain b s where s: "chunk_set_push chunk ?s = Some (b, s)"
          and q': "q' = q\<lparr>rq_n_bytes := rq_n_bytes q + length (cd_user_data chunk),
            rq_ordered := sort_chunks_by_ssn (rq_ordered q @ [s])\<rparr>"
          by (auto simp: reassembly_push_def bind_eq_Some_conv)
        from chunk_set_push_ok [OF s, of "rq_si q"] si ord have
          "set_ok (rq_si q) s" "cs_ssn s = cd_stream_sequence_number chunk"
          "bytes_of (cs_chunks s) \<le> length (cd_user_data chunk)" by (simp_all add: new_chunk_set_def)
        moreover have "cd_stream_sequence_number chunk \<notin> cs_ssn ` set (rq_ordered q)"
          using p None by (simp add: push_to_set_none)
        ultimately show ?thesis using assms(2) q'
          by (auto simp: reassembly_ok_def held_bytes_def sort_chunks_by_ssn_def)
      qed
    qed
  qed
qed

lemma reassembly_read_ok:
  assumes "reassembly_read cap q = Some (r, q')" and "reassembly_ok q"
  shows "reassembly_ok q' \<and> rq_si q' = rq_si q"
proof (cases "rq_unordered q")
  case (Cons s ss)
  with assms show ?thesis
    by (auto simp: reassembly_read_def reassembly_ok_def held_bytes_def Let_def split: prod.splits)
next
  case unordered: Nil
  show ?thesis
  proof (cases "rq_ordered q")
    case Nil
    with unordered assms show ?thesis by (simp add: reassembly_read_def)
  next
    case (Cons s ss)
    with unordered assms show ?thesis
      by (auto simp: reassembly_read_def reassembly_ok_def held_bytes_def Let_def bind_eq_Some_conv
          split: prod.splits if_splits)
  qed
qed

lemma forwarded_sets:
  assumes "length gs = length ss"
  shows "(\<Sum>s \<leftarrow> map fst (filter snd (zip ss gs)). (f s :: nat)) +
    (\<Sum>s \<leftarrow> map fst (filter (\<lambda>p. \<not> snd p) (zip ss gs)). f s) = (\<Sum>s \<leftarrow> ss. f s)"
  using assms by (induction gs ss rule: list_induct2) auto

lemma distinct_map_filter_zip:
  "distinct (map f ss) \<Longrightarrow> distinct (map f (map fst (filter P (zip ss gs))))"
proof (induction ss arbitrary: gs)
  case (Cons s ss)
  show ?case
  proof (cases gs)
    case (Cons g gs')
    have "f s \<notin> f ` fst ` set (zip ss gs')" using Cons.prems by (auto dest!: set_zip_leftD)
    with Cons.IH [of gs'] Cons.prems Cons show ?thesis by auto
  qed simp
qed simp

lemma forward_ordered_ok:
  assumes "forward_tsn_for_ordered last_ssn q = Some q'" and "reassembly_ok q"
  shows "reassembly_ok q' \<and> rq_si q' = rq_si q"
proof -
  from assms(1) obtain gs where gs: "map_checked (abandoned_set last_ssn) (rq_ordered q) = Some gs"
    by (auto simp: forward_tsn_for_ordered_def bind_eq_Some_conv)
  then have "length gs = length (rq_ordered q)"
    by (metis length_map map_checked_Some_iff)
  from forwarded_sets [OF this, of "\<lambda>s. bytes_of (cs_chunks s)"] assms gs show ?thesis
    by (auto simp: forward_tsn_for_ordered_def reassembly_ok_def held_bytes_def subtract_num_bytes_eq
        Let_def bytes_of_def [symmetric] simp del: map_map intro: distinct_map_filter_zip dest!: set_zip_leftD)
qed

lemma forward_unordered_ok:
  assumes "reassembly_ok q"
  shows "reassembly_ok (forward_tsn_for_unordered t q) \<and> rq_si (forward_tsn_for_unordered t q) = rq_si q"
proof -
  let ?P = "\<lambda>c. \<not> sna32gt (cd_tsn c) t" and ?cs = "rq_unordered_chunks q"
  have drop: "drop (length (takeWhile ?P ?cs)) ?cs = dropWhile ?P ?cs"
    by (simp add: dropWhile_eq_drop)
  have "bytes_of ?cs = bytes_of (takeWhile ?P ?cs @ dropWhile ?P ?cs)" by simp
  then have "bytes_of ?cs = bytes_of (takeWhile ?P ?cs) + bytes_of (dropWhile ?P ?cs)"
    by (simp only: bytes_of_simps)
  with assms drop show ?thesis
    by (auto simp: forward_tsn_for_unordered_def reassembly_ok_def held_bytes_def Let_def dest: set_dropWhileD)
qed

text \<open>Runs of a queue: what its stream does with it, in any order.\<close>

datatype queue_op =
    PushChunk ChunkPayloadData
  | ReadInto nat
  | ForwardOrdered u16
  | ForwardUnordered u32

fun queue_turn :: "queue_op \<Rightarrow> ReassemblyQueue \<Rightarrow> ReassemblyQueue option" where
  "queue_turn (PushChunk c) q = map_option snd (reassembly_push c q)"
| "queue_turn (ReadInto cap) q = map_option snd (reassembly_read cap q)"
| "queue_turn (ForwardOrdered ssn) q = forward_tsn_for_ordered ssn q"
| "queue_turn (ForwardUnordered tsn) q = Some (forward_tsn_for_unordered tsn q)"

lemma queue_turn_ok:
  assumes "queue_turn op q = Some q'" and "reassembly_ok q"
  shows "reassembly_ok q' \<and> rq_si q' = rq_si q"
proof (cases op)
  case (PushChunk c)
  with assms reassembly_push_ok show ?thesis by auto
next
  case (ReadInto cap)
  with assms reassembly_read_ok show ?thesis by auto
next
  case (ForwardOrdered ssn)
  with assms forward_ordered_ok show ?thesis by auto
next
  case (ForwardUnordered tsn)
  with assms forward_unordered_ok show ?thesis by auto
qed

text \<open>\<open>is_readable\<close> announces exactly the reads that find a message.\<close>

lemma is_readable_read:
  assumes "is_readable q = Some b"
  shows "\<exists>r q'. reassembly_read cap q = Some (r, q') \<and> (r = Inl ErrTryAgain \<longleftrightarrow> \<not> b)"
proof (cases "rq_unordered q")
  case (Cons s ss)
  with assms show ?thesis by (simp add: is_readable_def reassembly_read_def Let_def split: prod.split)
next
  case unordered: Nil
  show ?thesis
  proof (cases "rq_ordered q")
    case Nil
    with unordered assms show ?thesis by (simp add: is_readable_def reassembly_read_def)
  next
    case (Cons s ss)
    with unordered assms obtain c where c: "is_complete s = Some c" "b \<longleftrightarrow> c \<and> sna16lte (cs_ssn s) (rq_next_ssn q)"
      by (auto simp: is_readable_def bind_eq_Some_conv)
    with unordered Cons show ?thesis
      by (simp add: reassembly_read_def Let_def sna16gt_not_lte split: prod.split)
  qed
qed

text \<open>
  C40. Whatever sequence of chunks, reads and forward TSNs a stream has seen without a panic,
  its reassembly queue is well formed: the sets of ordered fragments have different sequence
  numbers, are not empty, hold no TSN twice and only chunks of their own sequence number and
  stream; every set waiting in the unordered list is complete, as the comment in the code
  promises; and the byte counter that the receiver window is computed from covers all bytes
  held. In such a state the queue is readable exactly when a read finds a message.
\<close>

theorem reassembly_well_formed:
  assumes "run_ticks queue_turn ops (new_reassembly_queue si) = Some q"
  shows "reassembly_ok q \<and> rq_si q = si \<and>
    (\<forall>b cap. is_readable q = Some b \<longrightarrow>
       (\<exists>r q'. reassembly_read cap q = Some (r, q') \<and> (r = Inl ErrTryAgain \<longleftrightarrow> \<not> b)))"
proof -
  have "reassembly_ok q \<and> rq_si q = si"
  proof (rule run_ticks_preserves [where I = "\<lambda>q. reassembly_ok q \<and> rq_si q = si", OF _ _ assms])
    show "reassembly_ok (new_reassembly_queue si) \<and> rq_si (new_reassembly_queue si) = si"
      by (simp add: new_reassembly_queue_def reassembly_ok_def held_bytes_def)
  qed (use queue_turn_ok in blast)
  with is_readable_read show ?thesis by blast
qed

text \<open>Three fragments, the middle one last; then a read into a buffer that is large enough.\<close>

definition sample_fragment :: "u32 \<Rightarrow> bool \<Rightarrow> bool \<Rightarrow> u8 \<Rightarrow> ChunkPayloadData" where
  "sample_fragment tsn b e x = (default_chunk 0)\<lparr>cd_tsn := tsn, cd_beginning_fragment := b,
     cd_ending_fragment := e, cd_user_data := [x], cd_payload_type := PpiBinary\<rparr>"

definition sample_arrivals :: "queue_op list" where
  "sample_arrivals = [PushChunk (sample_fragment 9 False True 3), PushChunk (sample_fragment 7 True False 1),
     PushChunk (sample_fragment 8 False False 2)]"

lemmas queue_eval = new_reassembly_queue_def reassembly_push_def chunk_set_push_def new_chunk_set_def
  is_complete_def sort_chunks_by_tsn_def sort_chunks_by_ssn_def sort_by_def add_checked_def
  sna16lt_def sna16lte_def sna16gt_def sna32lt_def sample_fragment_def default_chunk_def

lemma sample_arrivals_run:
  "run_ticks queue_turn sample_arrivals (new_reassembly_queue 0) =
     Some \<lparr>rq_si = 0, rq_next_ssn = 0, rq_ordered = [\<lparr>cs_ssn = 0, cs_ppi = PpiBinary, cs_chunks =
       [sample_fragment 7 True False 1, sample_fragment 8 False False 2, sample_fragment 9 False True 3]\<rparr>],
       rq_unordered = [], rq_unordered_chunks = [], rq_n_bytes = 3\<rparr>"
  by (simp add: sample_arrivals_def queue_eval)

theorem reassembly_well_formed_witness:
  "\<exists>q r q'. run_ticks queue_turn sample_arrivals (new_reassembly_queue 0) = Some q \<and> reassembly_ok q \<and>
     is_readable q = Some True \<and> reassembly_read 3 q = Some (r, q') \<and> r \<noteq> Inl ErrTryAgain"
proof -
  let ?q = "the (run_ticks queue_turn sample_arrivals (new_reassembly_queue 0))"
  have run: "run_ticks queue_turn sample_arrivals (new_reassembly_queue 0) = Some ?q"
    by (simp add: sample_arrivals_run)
  moreover have "is_readable ?q = Some True"
    unfolding sample_arrivals_run by (simp add: is_readable_def queue_eval)
  ultimately show ?thesis using reassembly_well_formed [OF run] by blast
qed

end
