(* ===== verification/Sctp_Delivery.thy ===== *)
theory Sctp_Delivery
  imports Sctp_Reassembly
begin

text \<open>
  What a reader of an ordered stream gets. The messages of the sender are lists of fragments;
  the fragments arrive in any order, repeated or not at all, between reads. The reassembly
  queue delivers exactly the messages in the order they were sent, each as soon as all its
  fragments are there.
\<close>

text \<open>
  Message number \<open>j\<close> of a stream: fragments with consecutive TSNs that do not wrap around
  inside the message, the flags of the first and the last fragment, one protocol identifier.
\<close>

definition fragments_of :: "u16 \<Rightarrow> nat \<Rightarrow> nat \<Rightarrow> ChunkPayloadData list \<Rightarrow> bool" where
  "fragments_of si j t cs \<longleftrightarrow> cs \<noteq> [] \<and> length cs \<le> 2 ^ 31 \<and> t + length cs \<le> 2 ^ 32 \<and>
     (\<forall>i < length cs. cd_stream_identifier (cs ! i) = si \<and> \<not> cd_unordered (cs ! i) \<and>
        cd_stream_sequence_number (cs ! i) = of_nat j \<and> cd_tsn (cs ! i) = of_nat (t + i) \<and>
        (cd_beginning_fragment (cs ! i) \<longleftrightarrow> i = 0) \<and> (cd_ending_fragment (cs ! i) \<longleftrightarrow> i = length cs - 1) \<and>
        cd_payload_type (cs ! i) = cd_payload_type (cs ! 0))"

lemma fragments_ofD:
  assumes "fragments_of si j t cs" and "i < length cs"
  shows "cd_stream_identifier (cs ! i) = si" "\<not> cd_unordered (cs ! i)"
    "cd_stream_sequence_number (cs ! i) = of_nat j" "cd_tsn (cs ! i) = of_nat (t + i)"
    "cd_payload_type (cs ! i) = cd_payload_type (cs ! 0)"
  using assms unfolding fragments_of_def by blast+

definition sent_on :: "u16 \<Rightarrow> ChunkPayloadData list list \<Rightarrow> bool" where
  "sent_on si msgs \<longleftrightarrow> (\<forall>j < length msgs. \<exists>t. fragments_of si j t (msgs ! j))"

datatype stream_event = Arrives nat nat nat | Reads nat

text \<open>
  The specification: the fragments that have arrived and the number of messages read so far. A
  read gets the next message if all its fragments are there; a buffer that is too short loses
  the message.
\<close>

definition message_read :: "nat \<Rightarrow> ChunkPayloadData list \<Rightarrow> sctp_error + bytes \<times> PayloadProtocolIdentifier" where
  "message_read cap cs =
     (let data = concat (map cd_user_data cs)
      in if length data \<le> cap then Inr (data, cd_payload_type (cs ! 0)) else Inl (ErrShortBuffer cap))"

definition all_there :: "ChunkPayloadData list list \<Rightarrow> (nat \<times> nat) set \<Rightarrow> nat \<Rightarrow> bool" where
  "all_there msgs got n \<longleftrightarrow> n < length msgs \<and> (\<forall>i < length (msgs ! n). (n, i) \<in> got)"

fun stream_reads :: "ChunkPayloadData list list \<Rightarrow> stream_event list \<Rightarrow> (nat \<times> nat) set \<Rightarrow> nat \<Rightarrow>
  (sctp_error + bytes \<times> PayloadProtocolIdentifier) list" where
  "stream_reads msgs [] got n = []"
| "stream_reads msgs (Arrives j i now # evs) got n = stream_reads msgs evs (insert (j, i) got) n"
| "stream_reads msgs (Reads cap # evs) got n =
     (if all_there msgs got n
      then message_read cap (msgs ! n) # stream_reads msgs evs got (n + 1)
      else Inl ErrTryAgain # stream_reads msgs evs got n)"

text \<open>
  Sequence numbers are 16 bits wide: no fragment may arrive for a message half of the number
  space or more away from the next one to read.
\<close>

fun in_window :: "ChunkPayloadData list list \<Rightarrow> stream_event list \<Rightarrow> (nat \<times> nat) set \<Rightarrow> nat \<Rightarrow> bool" where
  "in_window msgs [] got n \<longleftrightarrow> True"
| "in_window msgs (Arrives j i now # evs) got n \<longleftrightarrow>
     j < length msgs \<and> i < length (msgs ! j) \<and> j < n + 2 ^ 15 \<and> n < j + 2 ^ 15 \<and>
     in_window msgs evs (insert (j, i) got) n"
| "in_window msgs (Reads cap # evs) got n \<longleftrightarrow>
     in_window msgs evs got (if all_there msgs got n then n + 1 else n)"

section \<open>Sets of fragments\<close>

lemma received_chunk_simps [simp]:
  "cd_unordered (received_chunk now c) = cd_unordered c"
  "cd_beginning_fragment (received_chunk now c) = cd_beginning_fragment c"
  "cd_ending_fragment (received_chunk now c) = cd_ending_fragment c"
  "cd_tsn (received_chunk now c) = cd_tsn c"
  "cd_stream_identifier (received_chunk now c) = cd_stream_identifier c"
  "cd_stream_sequence_number (received_chunk now c) = cd_stream_sequence_number c"
  "cd_payload_type (received_chunk now c) = cd_payload_type c"
  "cd_user_data (received_chunk now c) = cd_user_data c"
  by (simp_all add: received_chunk_def default_chunk_def)

lemma Cons_eq_upt:
  "b # bs = [a..<a + Suc (length bs)] \<longleftrightarrow> b = a \<and> bs = [Suc a..<Suc a + length bs]"
  by (simp add: upt_conv_Cons del: upt_Suc)

lemma tsns_follow_iff:
  assumes "\<forall>i < n. cd_tsn (f i) = of_nat (t + i)" and "t + n \<le> 2 ^ 32"
    and "sorted_wrt (<) (a # is)" and "\<forall>i \<in> set (a # is). i < n"
  shows "tsns_follow (of_nat (t + a)) (map f is) = Some (is = [a + 1..<a + 1 + length is])"
  using assms(3,4)
proof (induction "is" arbitrary: a)
  case (Cons b bs)
  from Cons.prems have ab: "a < b" "b < n" by auto
  with assms(2) have small: "t + b < 2 ^ 32" "t + a + 1 < 2 ^ 32" by simp_all
  then have next_tsn: "add_checked (of_nat (t + a)) 1 = Some (of_nat (t + (a + 1)) :: u32)"
    using unat_of_nat_small [of "t + a", where 'a = 32] by (simp add: add_checked_def add.assoc)
  have "(of_nat (t + b) :: u32) = of_nat (t + (a + 1)) \<longleftrightarrow> b = a + 1"
    using small of_nat_word_inject [of "t + b" "t + (a + 1)", where 'a = 32] by simp
  with next_tsn assms(1) ab have "tsns_follow (of_nat (t + a)) (map f (b # bs)) =
      (if b = a + 1 then tsns_follow (of_nat (t + b)) (map f bs) else Some False)"
    by (simp del: of_nat_add)
  moreover have "tsns_follow (of_nat (t + b)) (map f bs) = Some (bs = [b + 1..<b + 1 + length bs])"
    using Cons.IH [of b] Cons.prems by simp
  moreover have "b # bs = [a + 1..<a + 1 + length (b # bs)] \<longleftrightarrow> b = a + 1 \<and> bs = [b + 1..<b + 1 + length bs]"
    using Cons_eq_upt [of b bs "a + 1"] by (auto simp del: upt_Suc)
  ultimately show ?case by presburger
qed simp

lemma chunks_complete_iff:
  assumes "\<forall>i < n. cd_tsn (f i) = of_nat (t + i) \<and> (cd_beginning_fragment (f i) \<longleftrightarrow> i = 0) \<and>
      (cd_ending_fragment (f i) \<longleftrightarrow> i = n - 1)"
    and "t + n \<le> 2 ^ 32" "0 < n" and "sorted_wrt (<) is" "\<forall>i \<in> set is. i < n"
  shows "chunks_complete (map f is) = Some (is = [0..<n])"
proof (cases "is")
  case (Cons a bs)
  have last_in: "last (a # bs) < n" using assms(5) Cons last_in_set [of "a # bs"] by auto
  have lst: "cd_ending_fragment (last (map f (a # bs))) \<longleftrightarrow> last (a # bs) = n - 1"
    using assms(1) last_in last_map [of "a # bs" f] by auto
  have fol: "tsns_follow (of_nat (t + a)) (map f bs) = Some (bs = [a + 1..<a + 1 + length bs])"
    using assms Cons by (intro tsns_follow_iff [where n = n]) auto
  have "a = 0 \<and> last (a # bs) = n - 1 \<and> bs = [a + 1..<a + 1 + length bs] \<longleftrightarrow> a # bs = [0..<n]"
  proof
    assume h: "a = 0 \<and> last (a # bs) = n - 1 \<and> bs = [a + 1..<a + 1 + length bs]"
    then have all: "a # bs = [0..<Suc (length bs)]" using Cons_eq_upt [of a bs 0] by (auto simp del: upt_Suc)
    with h have "n - 1 = length bs" by (metis last_snoc upt_Suc zero_le)
    with assms(3) have "n = Suc (length bs)" by simp
    with all show "a # bs = [0..<n]" by simp
  next
    assume h: "a # bs = [0..<n]"
    then have "length bs = n - 1" by (metis diff_Suc_1 diff_zero length_Cons length_upt)
    with h assms(3) have "a # bs = [0..<0 + Suc (length bs)]" by simp
    then have "a = 0 \<and> bs = [a + 1..<a + 1 + length bs]" unfolding Cons_eq_upt by simp
    moreover have "last (a # bs) = n - 1" using h assms(3) by (simp only: last_upt)
    ultimately show "a = 0 \<and> last (a # bs) = n - 1 \<and> bs = [a + 1..<a + 1 + length bs]" by blast
  qed
  moreover have "cd_beginning_fragment (f a) \<longleftrightarrow> a = 0" "cd_tsn (f a) = of_nat (t + a)"
    using assms(1,5) Cons by auto
  then have "chunks_complete (map f (a # bs)) =
      (if a \<noteq> 0 \<or> last (a # bs) \<noteq> n - 1 then Some False else Some (bs = [a + 1..<a + 1 + length bs]))"
    using lst fol by (auto simp del: last.simps upt_Suc of_nat_add)
  ultimately show ?thesis using Cons by (auto simp del: upt_Suc last.simps)
next
  case Nil
  with assms(3) show ?thesis by (cases n) (simp_all add: upt_conv_Cons del: upt_Suc)
qed

text \<open>The set of fragments the queue holds of message \<open>j\<close>; \<open>got\<close> gives the arrival times.\<close>

definition arrived :: "(nat \<times> nat \<rightharpoonup> nat) \<Rightarrow> nat \<Rightarrow> nat set" where
  "arrived got j = {i. (j, i) \<in> dom got}"

definition held_chunk :: "ChunkPayloadData list list \<Rightarrow> (nat \<times> nat \<rightharpoonup> nat) \<Rightarrow> nat \<Rightarrow> nat \<Rightarrow> ChunkPayloadData" where
  "held_chunk msgs got j i = received_chunk (the (got (j, i))) (msgs ! j ! i)"

definition held_set :: "ChunkPayloadData list list \<Rightarrow> (nat \<times> nat \<rightharpoonup> nat) \<Rightarrow> nat \<Rightarrow> ChunkSet" where
  "held_set msgs got j = \<lparr>cs_ssn = of_nat j, cs_ppi = cd_payload_type (msgs ! j ! 0),
     cs_chunks = map (held_chunk msgs got j) (sorted_list_of_set (arrived got j))\<rparr>"

lemma held_set_complete:
  assumes "fragments_of si j t (msgs ! j)" and "arrived got j \<subseteq> {..<length (msgs ! j)}"
  shows "is_complete (held_set msgs got j) = Some (arrived got j = {..<length (msgs ! j)})"
proof -
  let ?n = "length (msgs ! j)" and ?is = "sorted_list_of_set (arrived got j)"
  have fin: "finite (arrived got j)" using assms(2) finite_subset by blast
  have "chunks_complete (map (held_chunk msgs got j) ?is) = Some (?is = [0..<?n])"
    using assms fin by (intro chunks_complete_iff [where t = t])
      (auto simp: fragments_of_def held_chunk_def strict_sorted_list_of_set)
  moreover have "?is = [0..<?n] \<longleftrightarrow> arrived got j = {..<?n}"
    by (metis fin lessThan_atLeast0 set_sorted_list_of_set set_upt sorted_list_of_set_range)
  ultimately show ?thesis by (simp add: is_complete_def held_set_def)
qed

definition arrive :: "nat \<Rightarrow> nat \<Rightarrow> nat \<Rightarrow> (nat \<times> nat \<rightharpoonup> nat) \<Rightarrow> (nat \<times> nat \<rightharpoonup> nat)" where
  "arrive j i now got = (if (j, i) \<in> dom got then got else got((j, i) \<mapsto> now))"

lemma held_set_push:
  assumes frag: "fragments_of si j t (msgs ! j)" and sub: "arrived got j \<subseteq> {..<length (msgs ! j)}"
    and i: "i < length (msgs ! j)"
  shows "\<exists>ok. chunk_set_push (received_chunk now (msgs ! j ! i)) (held_set msgs got j) =
    Some (ok, held_set msgs (arrive j i now got) j)"
proof (cases "(j, i) \<in> dom got")
  case True
  then have "held_chunk msgs got j i \<in> set (cs_chunks (held_set msgs got j))"
    using finite_subset [OF sub] by (auto simp: held_set_def arrived_def)
  then have "\<exists>c \<in> set (cs_chunks (held_set msgs got j)). cd_tsn c = cd_tsn (received_chunk now (msgs ! j ! i))"
    by (rule bexI [rotated]) (simp add: held_chunk_def)
  moreover have "arrive j i now got = got" using True by (simp add: arrive_def)
  ultimately show ?thesis by (auto simp: chunk_set_push_def)
next
  case False
  then have step: "arrive j i now got = got((j, i) \<mapsto> now)" by (simp add: arrive_def)
  let ?got = "got((j, i) \<mapsto> now)" and ?I = "arrived got j" and ?n = "length (msgs ! j)"
  have fin: "finite ?I" using sub finite_subset by blast
  have I': "arrived ?got j = insert i ?I" by (auto simp: arrived_def)
  have notin: "i \<notin> ?I" using False by (simp add: arrived_def domIff)
  from frag have tsn: "cd_tsn (msgs ! j ! x) = of_nat (t + x)" if "x < ?n" for x
    using that by (simp add: fragments_of_def)
  from frag have small: "t + ?n \<le> 2 ^ 32" "?n \<le> 2 ^ 31" by (simp_all add: fragments_of_def)
  have new: "cd_tsn c \<noteq> of_nat (t + i)" if "c \<in> set (cs_chunks (held_set msgs got j))" for c
  proof -
    from that fin obtain x where "x \<in> ?I" "c = held_chunk msgs got j x" by (auto simp: held_set_def)
    moreover from this notin sub have "x \<noteq> i" "x < ?n" by auto
    ultimately show ?thesis using small i
      by (simp add: held_chunk_def tsn of_nat_word_inject del: of_nat_add)
  qed
  have "held_chunk msgs ?got j x = held_chunk msgs got j x" if "x \<in> ?I" for x
    using that notin by (auto simp: held_chunk_def)
  then have same: "map (held_chunk msgs got j) (sorted_list_of_set ?I) =
      map (held_chunk msgs ?got j) (sorted_list_of_set ?I)" using fin by simp
  have "sort_chunks_by_tsn (map (held_chunk msgs ?got j) (sorted_list_of_set ?I) @ [held_chunk msgs ?got j i]) =
      map (held_chunk msgs ?got j) (sorted_list_of_set (insert i ?I))"
    unfolding sort_chunks_by_tsn_def
  proof (rule sort_by_map_insert [OF fin notin])
    fix x y
    assume "x \<in> insert i ?I" "y \<in> insert i ?I"
    with sub i have "x < ?n" "y < ?n" by auto
    with small show "sna32lt (cd_tsn (held_chunk msgs ?got j x)) (cd_tsn (held_chunk msgs ?got j y)) \<longleftrightarrow> x < y"
      using sna32lt_of_nat [of "t + x" "t + y"] by (simp add: held_chunk_def tsn del: of_nat_add)
  qed
  then have sorted: "(held_set msgs got j)\<lparr>cs_chunks := sort_chunks_by_tsn
      (cs_chunks (held_set msgs got j) @ [received_chunk now (msgs ! j ! i)])\<rparr> = held_set msgs ?got j"
    by (simp add: held_set_def same I') (simp add: held_chunk_def)
  have "arrived ?got j \<subseteq> {..<?n}" using sub i I' by auto
  note complete = held_set_complete [OF frag this]
  have "\<not> (\<exists>c \<in> set (cs_chunks (held_set msgs got j)). cd_tsn c = cd_tsn (received_chunk now (msgs ! j ! i)))"
    using new tsn [OF i] by auto
  then show ?thesis unfolding step chunk_set_push_def sorted Let_def complete by simp
qed

section \<open>The queue\<close>

definition waiting :: "(nat \<times> nat \<rightharpoonup> nat) \<Rightarrow> nat \<Rightarrow> nat set" where
  "waiting got n = {j. n \<le> j \<and> arrived got j \<noteq> {}}"

definition queue_holds :: "u16 \<Rightarrow> ChunkPayloadData list list \<Rightarrow> (nat \<times> nat \<rightharpoonup> nat) \<Rightarrow> nat \<Rightarrow> ReassemblyQueue \<Rightarrow> bool" where
  "queue_holds si msgs got n q \<longleftrightarrow>
     rq_si q = si \<and> rq_next_ssn q = of_nat n \<and> rq_unordered q = [] \<and> rq_unordered_chunks q = [] \<and>
     rq_ordered q = map (held_set msgs got) (sorted_list_of_set (waiting got n)) \<and> finite (dom got) \<and>
     (\<forall>j i. (j, i) \<in> dom got \<longrightarrow> j < length msgs \<and> i < length (msgs ! j) \<and> j < n + 2 ^ 15)"

lemma finite_waiting: "finite (dom got) \<Longrightarrow> finite (waiting got n)"
  by (rule finite_subset [of _ "fst ` dom got"]) (force simp: waiting_def arrived_def)+

lemma arrived_other: "j' \<noteq> j \<Longrightarrow> arrived (got((j, i) \<mapsto> now)) j' = arrived got j'"
  by (auto simp: arrived_def)

lemma held_set_other: "j' \<noteq> j \<Longrightarrow> held_set msgs (got((j, i) \<mapsto> now)) j' = held_set msgs got j'"
  by (auto simp: held_set_def arrived_other held_chunk_def)

lemma held_set_sn [simp]: "cs_ssn (held_set msgs got j) = of_nat j"
  by (simp add: held_set_def)

lemma dom_arrive [simp]: "dom (arrive j i now got) = insert (j, i) (dom got)"
  by (auto simp: arrive_def)

lemma arrived_arrive: "arrived (arrive j i now got) j' = (if j' = j then insert i (arrived got j') else arrived got j')"
  unfolding arrived_def by auto

lemma held_set_arrive_other: "j' \<noteq> j \<Longrightarrow> held_set msgs (arrive j i now got) j' = held_set msgs got j'"
  by (simp add: arrive_def held_set_other)

lemma push_to_set_map:
  assumes "fragments_of si j t (msgs ! j)" "arrived got j \<subseteq> {..<length (msgs ! j)}" "i < length (msgs ! j)"
    and "j \<in> set js" "distinct js" "\<forall>j' \<in> set js. j' < j + 2 ^ 15 \<and> j < j' + 2 ^ 15"
  shows "\<exists>ok. push_to_set (received_chunk now (msgs ! j ! i)) (map (held_set msgs got) js) =
    Some (Some (ok, map (held_set msgs (arrive j i now got)) js))"
  using assms(4-6)
proof (induction js)
  case (Cons j' js)
  have ssn: "cd_stream_sequence_number (msgs ! j ! i) = of_nat j" using assms(1,3) by (simp add: fragments_of_def)
  have eq: "(of_nat j' :: u16) = of_nat j \<longleftrightarrow> j' = j"
    using Cons.prems(3) by (intro of_nat_window_inject) auto
  show ?case
  proof (cases "j' = j")
    case True
    with Cons.prems(2) have "map (held_set msgs (arrive j i now got)) js = map (held_set msgs got) js"
      by (intro map_cong refl held_set_arrive_other) auto
    with held_set_push [OF assms(1-3), of now] ssn True show ?thesis by auto
  next
    case False
    with Cons ssn eq show ?thesis by (auto simp: held_set_arrive_other)
  qed
qed simp

lemma push_holds:
  assumes q: "queue_holds si msgs got n q" and sent: "sent_on si msgs"
    and win: "j < length msgs" "i < length (msgs ! j)" "j < n + 2 ^ 15" "n < j + 2 ^ 15"
  shows "\<exists>ok q'. reassembly_push (received_chunk now (msgs ! j ! i)) q = Some (ok, q') \<and>
    queue_holds si msgs (arrive j i now got) n q'"
proof -
  let ?c = "received_chunk now (msgs ! j ! i)" and ?got = "arrive j i now got"
  obtain t where frag: "fragments_of si j t (msgs ! j)" using sent win(1) by (auto simp: sent_on_def)
  then have c: "cd_stream_identifier ?c = si" "\<not> cd_unordered ?c" "cd_stream_sequence_number ?c = of_nat j"
    "cd_payload_type ?c = cd_payload_type (msgs ! j ! 0)"
    using fragments_ofD [OF frag win(2)] by simp_all
  have sub: "arrived got j \<subseteq> {..<length (msgs ! j)}" using q by (auto simp: queue_holds_def arrived_def)
  have old: "sna16lt (of_nat j) (of_nat n) \<longleftrightarrow> j < n" using win(3,4) by (intro sna16lt_of_nat) auto
  have fin: "finite (waiting got n)" using q finite_waiting by (auto simp: queue_holds_def)
  have close: "j' < n + 2 ^ 15 \<and> n \<le> j'" if "j' \<in> waiting got n" for j'
    using that q unfolding queue_holds_def waiting_def arrived_def by blast
  have dom: "finite (dom ?got)"
    "\<forall>j' i'. (j', i') \<in> dom ?got \<longrightarrow> j' < length msgs \<and> i' < length (msgs ! j') \<and> j' < n + 2 ^ 15"
    using q win by (auto simp: queue_holds_def)
  consider "j < n" | "n \<le> j" "j \<in> waiting got n" | "n \<le> j" "j \<notin> waiting got n" by linarith
  then show ?thesis
  proof cases
    case 1
    then have "waiting ?got n = waiting got n" by (auto simp: waiting_def arrived_arrive)
    moreover have "map (held_set msgs ?got) (sorted_list_of_set (waiting got n)) =
        map (held_set msgs got) (sorted_list_of_set (waiting got n))"
      using 1 fin by (auto simp: waiting_def held_set_arrive_other)
    ultimately have "queue_holds si msgs ?got n q" using q dom by (simp add: queue_holds_def)
    moreover have "reassembly_push ?c q = Some (False, q)"
      using c q old 1 by (simp add: reassembly_push_def queue_holds_def)
    ultimately show ?thesis by blast
  next
    case 2
    then have "waiting ?got n = waiting got n" by (auto simp: waiting_def arrived_arrive)
    moreover have "\<exists>ok. push_to_set ?c (map (held_set msgs got) (sorted_list_of_set (waiting got n))) =
        Some (Some (ok, map (held_set msgs ?got) (sorted_list_of_set (waiting got n))))"
    proof (rule push_to_set_map [OF frag sub win(2)])
      show "\<forall>j' \<in> set (sorted_list_of_set (waiting got n)). j' < j + 2 ^ 15 \<and> j < j' + 2 ^ 15"
        using fin close close [OF 2(2)] by force
    qed (use 2 fin in simp_all)
    ultimately show ?thesis
      using c q old 2 dom by (auto simp: reassembly_push_def queue_holds_def)
  next
    case 3
    then have new: "arrived got j = {}" and wait: "waiting ?got n = insert j (waiting got n)"
      by (auto simp: waiting_def arrived_arrive)
    have "of_nat j \<notin> cs_ssn ` set (rq_ordered q)"
    proof
      assume "of_nat j \<in> cs_ssn ` set (rq_ordered q)"
      then obtain j' where j': "j' \<in> waiting got n" "(of_nat j :: u16) = of_nat j'"
        using q fin by (auto simp: queue_holds_def)
      with close [OF j'(1)] win(3) 3 have "j = j'" using of_nat_window_inject [of j j', where 'a = 16] by simp
      with j'(1) 3 show False by simp
    qed
    then have none: "push_to_set ?c (rq_ordered q) = Some None" using c by (simp add: push_to_set_none)
    have "new_chunk_set (of_nat j) (cd_payload_type ?c) = held_set msgs got j"
      using c(4) new by (simp add: new_chunk_set_def held_set_def)
    with held_set_push [OF frag sub win(2), of now] obtain ok where
      push: "chunk_set_push ?c (new_chunk_set (of_nat j) (cd_payload_type ?c)) = Some (ok, held_set msgs ?got j)"
      by auto
    have "map (held_set msgs got) (sorted_list_of_set (waiting got n)) =
        map (held_set msgs ?got) (sorted_list_of_set (waiting got n))"
      using fin 3 by (auto intro!: held_set_arrive_other [symmetric])
    moreover have "sort_chunks_by_ssn (map (held_set msgs ?got) (sorted_list_of_set (waiting got n)) @ [held_set msgs ?got j]) =
        map (held_set msgs ?got) (sorted_list_of_set (waiting ?got n))"
      unfolding sort_chunks_by_ssn_def wait
    proof (rule sort_by_map_insert [OF fin 3(2)])
      fix x y
      assume "x \<in> insert j (waiting got n)" "y \<in> insert j (waiting got n)"
      with close win(3) 3(1) have "x < n + 2 ^ 15" "n \<le> x" "y < n + 2 ^ 15" "n \<le> y" by auto
      then show "sna16lt (cs_ssn (held_set msgs ?got x)) (cs_ssn (held_set msgs ?got y)) \<longleftrightarrow> x < y"
        by (simp add: sna16lt_of_nat)
    qed
    ultimately have "sort_chunks_by_ssn (rq_ordered q @ [held_set msgs ?got j]) =
        map (held_set msgs ?got) (sorted_list_of_set (waiting ?got n))"
      using q unfolding queue_holds_def by presburger
    with none push c q old 3(1) dom show ?thesis
      by (simp add: reassembly_push_def queue_holds_def Let_def)
  qed
qed

section \<open>Reading\<close>

lemma copy_chunks_eq:
  assumes "length w \<le> cap"
  shows "let d = w @ concat (map cd_user_data cs); r = copy_chunks cap cs w False
    in (snd r \<longleftrightarrow> cap < length d) \<and> (length d \<le> cap \<longrightarrow> fst r = d)"
  using assms
proof (induction cs arbitrary: w)
  case (Cons c cs)
  have cut: "snd (copy_chunks cap cs w' True)" for w' by (induction cs arbitrary: w') simp_all
  show ?case
  proof (cases "length w + length (cd_user_data c) \<le> cap")
    case True
    then have "min (length (cd_user_data c)) (cap - length w) = length (cd_user_data c)" by simp
    with Cons.IH [of "w @ cd_user_data c"] True show ?thesis by (simp add: Let_def)
  next
    case False
    then have "min (length (cd_user_data c)) (cap - length w) < length (cd_user_data c)" using Cons.prems by simp
    with Cons.prems cut False show ?thesis by (simp add: Let_def)
  qed
qed simp

lemma read_held_set:
  assumes "arrived got n = {..<length (msgs ! n)}"
  shows "(let (written, short) = copy_chunks cap (cs_chunks (held_set msgs got n)) [] False
    in if short then Inl (ErrShortBuffer cap) else Inr (written, cs_ppi (held_set msgs got n))) =
    message_read cap (msgs ! n)"
proof -
  have "map cd_user_data (cs_chunks (held_set msgs got n)) = map (\<lambda>i. cd_user_data (msgs ! n ! i)) [0..<length (msgs ! n)]"
    using assms by (simp add: held_set_def held_chunk_def comp_def lessThan_atLeast0)
  also have "\<dots> = map cd_user_data (map ((!) (msgs ! n)) [0..<length (msgs ! n)])" by simp
  also have "\<dots> = map cd_user_data (msgs ! n)" by (simp only: map_nth)
  finally have data: "concat (map cd_user_data (cs_chunks (held_set msgs got n))) = concat (map cd_user_data (msgs ! n))"
    by simp
  obtain w b where r: "copy_chunks cap (cs_chunks (held_set msgs got n)) [] False = (w, b)" by fastforce
  from copy_chunks_eq [of "[]" cap "cs_chunks (held_set msgs got n)"] r data
  have "b \<longleftrightarrow> cap < length (concat (map cd_user_data (msgs ! n)))"
    "\<not> b \<Longrightarrow> w = concat (map cd_user_data (msgs ! n))" by (simp_all add: Let_def)
  moreover have "cs_ppi (held_set msgs got n) = cd_payload_type (msgs ! n ! 0)" by (simp add: held_set_def)
  ultimately show ?thesis unfolding r message_read_def Let_def by simp
qed

lemma all_there_arrived:
  assumes "queue_holds si msgs got n q" and "sent_on si msgs"
  shows "all_there msgs (dom got) n \<longleftrightarrow> n \<in> waiting got n \<and> arrived got n = {..<length (msgs ! n)}"
proof
  assume h: "all_there msgs (dom got) n"
  with assms(2) obtain t where "fragments_of si n t (msgs ! n)" by (auto simp: all_there_def sent_on_def)
  then have "0 < length (msgs ! n)" by (simp add: fragments_of_def)
  moreover from h assms(1) have "arrived got n = {..<length (msgs ! n)}"
    unfolding all_there_def arrived_def queue_holds_def by blast
  ultimately show "n \<in> waiting got n \<and> arrived got n = {..<length (msgs ! n)}" by (auto simp: waiting_def)
next
  assume h: "n \<in> waiting got n \<and> arrived got n = {..<length (msgs ! n)}"
  then obtain i where "(n, i) \<in> dom got" by (auto simp: waiting_def arrived_def)
  with assms(1) have "n < length msgs" by (auto simp: queue_holds_def)
  moreover from h have "(n, i) \<in> dom got" if "i < length (msgs ! n)" for i
    using that unfolding arrived_def by blast
  ultimately show "all_there msgs (dom got) n" by (simp add: all_there_def)
qed

lemma waiting_Suc: "waiting got (Suc n) = waiting got n - {n}"
  by (auto simp: waiting_def)

lemma read_holds:
  assumes q: "queue_holds si msgs got n q" and sent: "sent_on si msgs"
  shows "\<exists>r q'. reassembly_read cap q = Some (r, q') \<and>
    (if all_there msgs (dom got) n then r = message_read cap (msgs ! n) \<and> queue_holds si msgs got (n + 1) q'
     else r = Inl ErrTryAgain \<and> queue_holds si msgs got n q')"
proof (cases "sorted_list_of_set (waiting got n)")
  case Nil
  moreover have fin: "finite (waiting got n)" using q finite_waiting by (auto simp: queue_holds_def)
  ultimately have "waiting got n = {}" by simp
  with all_there_arrived [OF q sent] have "\<not> all_there msgs (dom got) n" by simp
  moreover have "reassembly_read cap q = Some (Inl ErrTryAgain, q)"
    using q Nil by (simp add: reassembly_read_def queue_holds_def)
  ultimately show ?thesis using q by simp
next
  case (Cons j js)
  have fin: "finite (waiting got n)" using q finite_waiting by (auto simp: queue_holds_def)
  then have set_js: "insert j (set js) = waiting got n" and "sorted (j # js)" "distinct (j # js)"
    using Cons by (metis list.simps(15) set_sorted_list_of_set, metis sorted_sorted_list_of_set,
        metis distinct_sorted_list_of_set)
  then have least: "\<forall>j' \<in> waiting got n. j \<le> j'" by auto
  have j: "n \<le> j" "arrived got j \<noteq> {}" using set_js by (auto simp: waiting_def)
  then obtain i where "(j, i) \<in> dom got" by (auto simp: arrived_def)
  with q have close: "j < length msgs" "j < n + 2 ^ 15" by (auto simp: queue_holds_def)
  then obtain t where frag: "fragments_of si j t (msgs ! j)" using sent by (auto simp: sent_on_def)
  have "arrived got j \<subseteq> {..<length (msgs ! j)}" using q by (auto simp: queue_holds_def arrived_def)
  note complete = held_set_complete [OF frag this]
  have gt: "sna16gt (of_nat j) (of_nat n) \<longleftrightarrow> j \<noteq> n"
    using j(1) close(2) sna16lt_of_nat [of j n] of_nat_window_inject [of j n, where 'a = 16]
    by (auto simp: sna16gt_not_lte sna16lte_def)
  have ordered: "rq_unordered q = []" "rq_ordered q = held_set msgs got j # map (held_set msgs got) js"
    "rq_next_ssn q = of_nat n"
    using q Cons by (simp_all add: queue_holds_def)
  show ?thesis
  proof (cases "j = n \<and> arrived got j = {..<length (msgs ! j)}")
    case True
    then have there: "all_there msgs (dom got) n"
      using all_there_arrived [OF q sent] set_js by blast
    let ?q = "q\<lparr>rq_next_ssn := of_nat n + 1, rq_ordered := map (held_set msgs got) js,
        rq_n_bytes := rq_n_bytes q - bytes_of (cs_chunks (held_set msgs got n))\<rparr>"
    have full: "arrived got n = {..<length (msgs ! n)}" and jn: "j = n" using True by auto
    obtain w b where cc: "copy_chunks cap (cs_chunks (held_set msgs got n)) [] False = (w, b)" by fastforce
    then have "(if b then Inl (ErrShortBuffer cap) else Inr (w, cs_ppi (held_set msgs got n))) = message_read cap (msgs ! n)"
      using read_held_set [OF full, of cap] by simp
    then have "reassembly_read cap q = Some (message_read cap (msgs ! n), ?q)"
      using ordered complete gt full cc by (simp add: jn reassembly_read_def Let_def)
    moreover have "js = sorted_list_of_set (waiting got (Suc n))"
    proof -
      have "waiting got (Suc n) = set js"
        using set_js \<open>distinct (j # js)\<close> True by (auto simp: waiting_Suc)
      then show ?thesis
        using \<open>sorted (j # js)\<close> \<open>distinct (j # js)\<close> by (simp add: sorted_list_of_set.idem_if_sorted_distinct)
    qed
    moreover have "\<forall>j i. (j, i) \<in> dom got \<longrightarrow> j < length msgs \<and> i < length (msgs ! j) \<and> j < n + 1 + 2 ^ 15"
      using q unfolding queue_holds_def by fastforce
    ultimately have "queue_holds si msgs got (n + 1) ?q \<and> reassembly_read cap q = Some (message_read cap (msgs ! n), ?q)"
      using q by (simp add: queue_holds_def)
    then show ?thesis using there by auto
  next
    case False
    then have "\<not> all_there msgs (dom got) n"
      using all_there_arrived [OF q sent] least j(1) by (metis le_antisym)
    moreover have "reassembly_read cap q = Some (Inl ErrTryAgain, q)"
      using ordered complete gt False by (auto simp: reassembly_read_def)
    ultimately show ?thesis using q by simp
  qed
qed

lemma is_readable_holds:
  assumes q: "queue_holds si msgs got n q" and sent: "sent_on si msgs"
  shows "\<exists>b. is_readable q = Some b"
proof (cases "sorted_list_of_set (waiting got n)")
  case Nil
  with q show ?thesis by (auto simp: is_readable_def queue_holds_def)
next
  case (Cons j js)
  have "finite (waiting got n)" using q finite_waiting by (auto simp: queue_holds_def)
  then have "j \<in> waiting got n" using Cons by (metis list.set_intros(1) set_sorted_list_of_set)
  then obtain i where "(j, i) \<in> dom got" by (auto simp: waiting_def arrived_def)
  with q sent obtain t where frag: "fragments_of si j t (msgs ! j)" unfolding queue_holds_def sent_on_def by blast
  have "arrived got j \<subseteq> {..<length (msgs ! j)}" using q by (auto simp: queue_holds_def arrived_def)
  from held_set_complete [OF frag this] q Cons show ?thesis by (auto simp: is_readable_def queue_holds_def)
qed

lemma new_queue_holds: "queue_holds si msgs Map.empty 0 (new_reassembly_queue si)"
  by (simp add: queue_holds_def new_reassembly_queue_def waiting_def arrived_def)

end
