(* ===== verification/Sctp_Stream.thy ===== *)
theory Sctp_Stream
  imports Sctp_Delivery
begin

text \<open>
  An SCTP stream (\<open>vendored/webrtc-sctp/src/stream/mod.rs\<close>): writing cuts a message into
  fragments that share a sequence number, reading goes through the reassembly queue. At the end
  both sides are put together over the wire format.
\<close>

datatype AssociationState =
    AsClosed | AsCookieWait | AsCookieEchoed | AsEstablished | AsShutdownAckSent | AsShutdownPending
  | AsShutdownReceived | AsShutdownSent

record Stream =
  st_max_payload_size :: u32
  st_max_message_size :: u32
  st_state :: AssociationState
  st_stream_identifier :: u16
  st_reassembly_queue :: ReassemblyQueue
  st_sequence_number :: u16
  st_read_shutdown :: bool
  st_write_shutdown :: bool
  st_unordered :: bool
  st_buffered_amount :: nat
  st_buffered_amount_low :: nat

definition new_stream :: "u16 \<Rightarrow> u32 \<Rightarrow> u32 \<Rightarrow> AssociationState \<Rightarrow> Stream" where
  "new_stream stream_identifier max_payload_size max_message_size state =
     \<lparr>st_max_payload_size = max_payload_size, st_max_message_size = max_message_size, st_state = state,
      st_stream_identifier = stream_identifier,
      st_reassembly_queue = new_reassembly_queue stream_identifier, st_sequence_number = 0,
      st_read_shutdown = False, st_write_shutdown = False, st_unordered = False,
      st_buffered_amount = 0, st_buffered_amount_low = 0\<rparr>"

section \<open>Writing\<close>

text \<open>
  The loop of \<open>packetize\<close> over what is left of the message; a maximum payload of zero would keep
  it going without progress, which is the \<open>None\<close> of that branch.
\<close>

function packetize_loop :: "ChunkPayloadData \<Rightarrow> nat \<Rightarrow> bool \<Rightarrow> nat \<Rightarrow> bytes \<Rightarrow> ChunkPayloadData list option" where
  "packetize_loop chunk max_payload_size bypass i raw =
     (if raw = [] then Some []
      else let fragment_size = (if bypass then length raw else min max_payload_size (length raw))
        in if fragment_size = 0 then None
           else do {
             chunks \<leftarrow> packetize_loop chunk max_payload_size bypass (i + fragment_size) (drop fragment_size raw);
             Some (chunk\<lparr>cd_user_data := take fragment_size raw, cd_beginning_fragment := i = 0,
                        cd_ending_fragment := length raw - fragment_size = 0\<rparr> # chunks)
           })"
  by pat_completeness auto
termination by (relation "measure (\<lambda>(c, m, b, i, raw). length raw)") auto

declare packetize_loop.simps [simp del]

definition packetize ::
  "nat \<Rightarrow> bytes \<Rightarrow> PayloadProtocolIdentifier \<Rightarrow> UdpSendOptions option \<Rightarrow> Stream \<Rightarrow>
   (ChunkPayloadData list \<times> Stream) option" where
  "packetize now raw ppi udp_send_options s =
     (let unordered = (ppi \<noteq> PpiDcep \<and> st_unordered s);
          bypass_fragmentation = (case udp_send_options of
              Some opts \<Rightarrow> uso_bypass_sctp_fragmentation opts | None \<Rightarrow> False);
          chunk = (default_chunk now)\<lparr>cd_stream_identifier := st_stream_identifier s, cd_unordered := unordered,
            cd_payload_type := ppi, cd_stream_sequence_number := st_sequence_number s,
            cd_udp_send_options := udp_send_options\<rparr>
      in do {
        chunks \<leftarrow> packetize_loop chunk (unat (st_max_payload_size s)) bypass_fragmentation 0 raw;
        Some (chunks, s\<lparr>st_sequence_number := (if unordered then st_sequence_number s else st_sequence_number s + 1),
                       st_buffered_amount := st_buffered_amount s + length raw\<rparr>)
      })"

definition prepare_write ::
  "nat \<Rightarrow> bytes \<Rightarrow> PayloadProtocolIdentifier \<Rightarrow> UdpSendOptions option \<Rightarrow> Stream \<Rightarrow>
   ((sctp_error + ChunkPayloadData list) \<times> Stream) option" where
  "prepare_write now p ppi udp_send_options s =
     (if st_write_shutdown s then Some (Inl ErrStreamClosed, s)
      else if unat (st_max_message_size s) < length p then Some (Inl ErrOutboundPacketTooLarge, s)
      else if st_state s \<in> {AsShutdownSent, AsShutdownAckSent, AsShutdownPending, AsShutdownReceived}
      then Some (Inl ErrStreamClosed, s)
      else do {
        (chunks, s) \<leftarrow> packetize now p ppi udp_send_options s;
        Some (Inr chunks, s)
      })"

text \<open>
  \<open>write_sctp\<close> and \<open>write_sctp_with_options\<close>: the result and the chunks handed to the pending
  queue of the association.
\<close>

definition write_sctp ::
  "nat \<Rightarrow> bytes \<Rightarrow> PayloadProtocolIdentifier \<Rightarrow> UdpSendOptions option \<Rightarrow> Stream \<Rightarrow>
   ((sctp_error + nat) \<times> ChunkPayloadData list \<times> Stream) option" where
  "write_sctp now p ppi options s =
     do {
       (r, s) \<leftarrow> prepare_write now p ppi options s;
       Some (case r of
           Inl e \<Rightarrow> (Inl e, [], s)
         | Inr chunks \<Rightarrow>
             if st_state s \<noteq> AsEstablished then (Inl ErrPayloadDataStateNotExist, [], s)
             else (Inr (length p), chunks, s))
     }"

definition on_buffer_released :: "int \<Rightarrow> Stream \<Rightarrow> bool \<times> Stream" where
  "on_buffer_released n_bytes_released s =
     (if n_bytes_released \<le> 0 then (False, s)
      else let from_amount = st_buffered_amount s;
               new_amount = (if from_amount < nat n_bytes_released then 0 else from_amount - nat n_bytes_released)
        in (st_buffered_amount_low s < from_amount \<and> new_amount \<le> st_buffered_amount_low s,
            s\<lparr>st_buffered_amount := new_amount\<rparr>))"

section \<open>Reading\<close>

text \<open>
  Arrival of a DATA chunk, with whether a waiting reader is notified, and one turn of the loop
  of \<open>read_sctp\<close>: \<open>None\<close> means that the reader goes on waiting.
\<close>

definition stream_handle_data :: "ChunkPayloadData \<Rightarrow> Stream \<Rightarrow> (bool \<times> Stream) option" where
  "stream_handle_data pd s =
     do {
       (ok, q) \<leftarrow> reassembly_push pd (st_reassembly_queue s);
       readable \<leftarrow> (if ok then is_readable q else Some False);
       Some (readable, s\<lparr>st_reassembly_queue := q\<rparr>)
     }"

definition handle_forward_tsn_for_ordered :: "u16 \<Rightarrow> Stream \<Rightarrow> (bool \<times> Stream) option" where
  "handle_forward_tsn_for_ordered ssn s =
     (if st_unordered s then Some (False, s)
      else do {
        q \<leftarrow> forward_tsn_for_ordered ssn (st_reassembly_queue s);
        readable \<leftarrow> is_readable q;
        Some (readable, s\<lparr>st_reassembly_queue := q\<rparr>)
      })"

definition handle_forward_tsn_for_unordered :: "u32 \<Rightarrow> Stream \<Rightarrow> (bool \<times> Stream) option" where
  "handle_forward_tsn_for_unordered new_cumulative_tsn s =
     (if \<not> st_unordered s then Some (False, s)
      else let q = forward_tsn_for_unordered new_cumulative_tsn (st_reassembly_queue s)
        in do {
          readable \<leftarrow> is_readable q;
          Some (readable, s\<lparr>st_reassembly_queue := q\<rparr>)
        })"

definition read_sctp_turn ::
  "nat \<Rightarrow> Stream \<Rightarrow> ((sctp_error + bytes \<times> PayloadProtocolIdentifier) option \<times> Stream) option" where
  "read_sctp_turn cap s =
     (if st_read_shutdown s then Some (Some (Inr ([], PpiUnknown)), s)
      else do {
        (r, q) \<leftarrow> reassembly_read cap (st_reassembly_queue s);
        Some (case r of
            Inr m \<Rightarrow> Some (Inr m)
          | Inl (ErrShortBuffer n) \<Rightarrow> Some (Inl (ErrShortBuffer n))
          | Inl _ \<Rightarrow> None, s\<lparr>st_reassembly_queue := q\<rparr>)
      })"

section \<open>Fragments\<close>

lemma packetize_loop_Some:
  assumes "bypass \<or> 0 < m"
  shows "\<exists>cs. packetize_loop c m bypass i raw = Some cs \<and> concat (map cd_user_data cs) = raw \<and>
    (cs = [] \<longleftrightarrow> raw = []) \<and> length cs \<le> length raw \<and>
    (\<forall>k < length cs. cs ! k = c\<lparr>cd_user_data := cd_user_data (cs ! k), cd_beginning_fragment := i = 0 \<and> k = 0,
        cd_ending_fragment := k = length cs - 1\<rparr> \<and>
      length (cd_user_data (cs ! k)) \<le> (if bypass then length raw else m))"
  using assms
proof (induction c m bypass i raw rule: packetize_loop.induct)
  case (1 c m bypass i raw)
  show ?case
  proof (cases "raw = []")
    case True
    then show ?thesis by (simp add: packetize_loop.simps)
  next
    case False
    let ?size = "if bypass then length raw else min m (length raw)"
    have size: "0 < ?size" "?size \<le> length raw" using False 1(2) by auto
    obtain cs where cs: "packetize_loop c m bypass (i + ?size) (drop ?size raw) = Some cs"
      "concat (map cd_user_data cs) = drop ?size raw" "cs = [] \<longleftrightarrow> drop ?size raw = []"
      "length cs \<le> length (drop ?size raw)"
      "\<forall>k < length cs. cs ! k = c\<lparr>cd_user_data := cd_user_data (cs ! k), cd_beginning_fragment := False,
          cd_ending_fragment := k = length cs - 1\<rparr> \<and>
        length (cd_user_data (cs ! k)) \<le> (if bypass then length (drop ?size raw) else m)"
      using 1(1) [OF False refl _ 1(2)] size by (auto simp del: drop_eq_Nil)
    let ?c = "c\<lparr>cd_user_data := take ?size raw, cd_beginning_fragment := i = 0,
      cd_ending_fragment := length raw - ?size = 0\<rparr>"
    have loop: "packetize_loop c m bypass i raw = Some (?c # cs)"
      using False size cs(1) by (subst packetize_loop.simps) (simp add: Let_def)
    have "(?c # cs) ! k = c\<lparr>cd_user_data := cd_user_data ((?c # cs) ! k), cd_beginning_fragment := i = 0 \<and> k = 0,
        cd_ending_fragment := k = length (?c # cs) - 1\<rparr> \<and>
      length (cd_user_data ((?c # cs) ! k)) \<le> (if bypass then length raw else m)"
      if "k < length (?c # cs)" for k
    proof (cases k)
      case 0
      have "length raw - ?size = 0 \<longleftrightarrow> cs = []" using cs(3) by simp
      with 0 show ?thesis by simp
    next
      case (Suc k')
      with that have k': "k' < length cs" by simp
      with cs(5) have "cs ! k' = c\<lparr>cd_user_data := cd_user_data (cs ! k'), cd_beginning_fragment := False,
          cd_ending_fragment := k' = length cs - 1\<rparr>"
        "length (cd_user_data (cs ! k')) \<le> (if bypass then length (drop ?size raw) else m)" by blast+
      moreover have "k' = length cs - 1 \<longleftrightarrow> Suc k' = length cs" using k' by auto
      ultimately show ?thesis using Suc by (simp split: if_splits)
    qed
    moreover have "concat (map cd_user_data (?c # cs)) = raw" using cs(2) by simp
    moreover have "length (?c # cs) \<le> length raw" using cs(4) size by simp
    ultimately show ?thesis using loop False by blast
  qed
qed

text \<open>The association numbers the fragments of a message one after the other when it sends them.\<close>

definition generate_next_tsn :: "u32 \<Rightarrow> (u32 \<times> u32) option" where
  "generate_next_tsn my_next_tsn = do { next_tsn \<leftarrow> add_checked my_next_tsn 1; Some (my_next_tsn, next_tsn) }"

fun assign_tsns :: "u32 \<Rightarrow> ChunkPayloadData list \<Rightarrow> (ChunkPayloadData list \<times> u32) option" where
  "assign_tsns my_next_tsn [] = Some ([], my_next_tsn)"
| "assign_tsns my_next_tsn (c # cs) =
     do {
       (tsn, my_next_tsn) \<leftarrow> generate_next_tsn my_next_tsn;
       (cs, my_next_tsn) \<leftarrow> assign_tsns my_next_tsn cs;
       Some (c\<lparr>cd_tsn := tsn\<rparr> # cs, my_next_tsn)
     }"

lemma assign_tsns_Some:
  assumes "assign_tsns t cs = Some (cs', t')"
  shows "length cs' = length cs \<and> unat t + length cs < 2 ^ 32 \<and>
    (\<forall>k < length cs. cs' ! k = (cs ! k)\<lparr>cd_tsn := of_nat (unat t + k)\<rparr>)"
  using assms
proof (induction cs arbitrary: t cs')
  case Nil
  then show ?case using unat_bound [of t] by simp
next
  case (Cons c cs)
  then obtain n cs1 where n: "add_checked t 1 = Some n" and cs1: "assign_tsns n cs = Some (cs1, t')"
    and cs': "cs' = c\<lparr>cd_tsn := t\<rparr> # cs1"
    by (auto simp: generate_next_tsn_def bind_eq_Some_conv)
  from add_checked_Some [OF n] have nt: "unat n = unat t + 1" by simp
  from Cons.IH [OF cs1] have IH: "length cs1 = length cs" "unat n + length cs < 2 ^ 32"
    "\<forall>k < length cs. cs1 ! k = (cs ! k)\<lparr>cd_tsn := of_nat (unat n + k)\<rparr>" by auto
  have "cs' ! k = ((c # cs) ! k)\<lparr>cd_tsn := of_nat (unat t + k)\<rparr>" if "k < length (c # cs)" for k
  proof (cases k)
    case (Suc k')
    with that IH(3) cs' nt show ?thesis by (simp del: of_nat_add)
  qed (simp add: cs')
  with IH cs' nt show ?case by simp
qed

lemma numbered_fragments:
  assumes "packetize now raw ppi opts s = Some (cs, s')" and "assign_tsns t cs = Some (cs', t')"
    and "raw \<noteq> []" "\<not> st_unordered s" "length raw \<le> 2 ^ 31" "0 < unat (st_max_payload_size s)"
    and "st_sequence_number s = of_nat j"
  shows "fragments_of (st_stream_identifier s) j (unat t) cs' \<and> concat (map cd_user_data cs') = raw \<and>
    cd_payload_type (cs' ! 0) = ppi"
proof -
  let ?m = "unat (st_max_payload_size s)"
  let ?b = "case opts of Some opts \<Rightarrow> uso_bypass_sctp_fragmentation opts | None \<Rightarrow> False"
  let ?c = "(default_chunk now)\<lparr>cd_stream_identifier := st_stream_identifier s, cd_unordered := False,
            cd_payload_type := ppi, cd_stream_sequence_number := of_nat j, cd_udp_send_options := opts\<rparr>"
  from assms(1,4,7) have "packetize_loop ?c ?m ?b 0 raw = Some cs"
    by (auto simp: packetize_def Let_def bind_eq_Some_conv)
  with packetize_loop_Some [of ?b ?m ?c 0 raw] assms(6) have cs:
    "concat (map cd_user_data cs) = raw" "cs = [] \<longleftrightarrow> raw = []" "length cs \<le> length raw"
    "\<forall>k < length cs. cs ! k = ?c\<lparr>cd_user_data := cd_user_data (cs ! k), cd_beginning_fragment := 0 = (0 :: nat) \<and> k = 0,
        cd_ending_fragment := k = length cs - 1\<rparr> \<and> length (cd_user_data (cs ! k)) \<le> (if ?b then length raw else ?m)"
    by auto
  from assign_tsns_Some [OF assms(2)] have cs':
    "length cs' = length cs" "unat t + length cs < 2 ^ 32"
    "\<forall>k < length cs. cs' ! k = (cs ! k)\<lparr>cd_tsn := of_nat (unat t + k)\<rparr>" by auto
  have k: "cs' ! k = ?c\<lparr>cd_user_data := cd_user_data (cs ! k), cd_beginning_fragment := k = 0,
        cd_ending_fragment := k = length cs - 1, cd_tsn := of_nat (unat t + k)\<rparr>" if "k < length cs" for k
  proof -
    from cs(4) that have "cs ! k = ?c\<lparr>cd_user_data := cd_user_data (cs ! k),
        cd_beginning_fragment := 0 = (0 :: nat) \<and> k = 0, cd_ending_fragment := k = length cs - 1\<rparr>" by blast
    from arg_cong [OF this, of "\<lambda>c. c\<lparr>cd_tsn := of_nat (unat t + k)\<rparr>"] cs'(3) that show ?thesis
      by (simp del: of_nat_add)
  qed
  have "map cd_user_data cs' = map cd_user_data cs"
    by (rule nth_equalityI) (simp_all add: cs'(1) k)
  moreover have "0 < length cs" using cs(2) assms(3) by simp
  moreover have "fragments_of (st_stream_identifier s) j (unat t) cs'"
    unfolding fragments_of_def using cs'(1,2) cs(2,3) assms(3,5) k
    by (auto simp: default_chunk_def simp del: of_nat_add)
  ultimately show ?thesis using cs(1) k [of 0] by (simp add: default_chunk_def)
qed

section \<open>From writer to reader\<close>

record write_op =
  wo_now :: nat
  wo_data :: bytes
  wo_ppi :: PayloadProtocolIdentifier
  wo_options :: "UdpSendOptions option"

fun write_all :: "write_op list \<Rightarrow> Stream \<Rightarrow> (((sctp_error + nat) \<times> ChunkPayloadData list) list \<times> Stream) option" where
  "write_all [] s = Some ([], s)"
| "write_all (w # ws) s =
     do {
       (r, cs, s) \<leftarrow> write_sctp (wo_now w) (wo_data w) (wo_ppi w) (wo_options w) s;
       (rs, s) \<leftarrow> write_all ws s;
       Some ((r, cs) # rs, s)
     }"

text \<open>A message that fits: it is not empty, not above the limit, and its chunks fit the wire format.\<close>

definition write_fits :: "u32 \<Rightarrow> u32 \<Rightarrow> write_op \<Rightarrow> bool" where
  "write_fits max_payload_size max_message_size w \<longleftrightarrow>
     wo_data w \<noteq> [] \<and> length (wo_data w) \<le> unat max_message_size \<and>
     length (wo_data w) \<le> 2 ^ 31 \<and> 0 < unat max_payload_size \<and> unat max_payload_size \<le> 65519 \<and>
     (\<forall>opts. wo_options w = Some opts \<longrightarrow> uso_bypass_sctp_fragmentation opts \<longrightarrow> length (wo_data w) \<le> 65519)"

definition numbered :: "ChunkPayloadData list list \<Rightarrow> ChunkPayloadData list list \<Rightarrow> bool" where
  "numbered css sent \<longleftrightarrow> list_all2 (\<lambda>cs cs'. \<exists>t t'. assign_tsns t cs = Some (cs', t')) css sent"

text \<open>
  The receiving side: a chunk travels as bytes, padded to a multiple of four
  (\<open>get_padding_size\<close>), and is handed to the stream; a reader takes a turn. A read that has to
  wait gives \<open>None\<close>.
\<close>

definition get_padding_size :: "nat \<Rightarrow> nat" where
  "get_padding_size len = (4 - len mod 4) mod 4"

fun transfer_run :: "ChunkPayloadData list list \<Rightarrow> stream_event list \<Rightarrow> Stream \<Rightarrow>
  (sctp_error + bytes \<times> PayloadProtocolIdentifier) option list option" where
  "transfer_run sent [] s = Some []"
| "transfer_run sent (Arrives j i now # evs) s =
     do {
       bs \<leftarrow> marshal_data (sent ! j ! i);
       r \<leftarrow> unmarshal_data now (bs @ replicate (get_padding_size (length bs)) 0);
       case r of
         Inl e \<Rightarrow> transfer_run sent evs s
       | Inr pd \<Rightarrow> do { (_, s) \<leftarrow> stream_handle_data pd s; transfer_run sent evs s }
     }"
| "transfer_run sent (Reads cap # evs) s =
     do {
       (r, s) \<leftarrow> read_sctp_turn cap s;
       rs \<leftarrow> transfer_run sent evs s;
       Some (r # rs)
     }"

definition delivered_or_waits :: "sctp_error + 'a \<Rightarrow> (sctp_error + 'a) option" where
  "delivered_or_waits r = (if r = Inl ErrTryAgain then None else Some r)"

lemma transfer_run_reads:
  assumes "queue_holds si sent got n (st_reassembly_queue s)" and "sent_on si sent"
    and "in_window sent evs (dom got) n" and "\<not> st_read_shutdown s"
    and "\<forall>cs \<in> set sent. \<forall>c \<in> set cs. length (cd_user_data c) \<le> 65519"
  shows "transfer_run sent evs s = Some (map delivered_or_waits (stream_reads sent evs (dom got) n))"
  using assms(1,3,4)
proof (induction evs arbitrary: got n s)
  case (Cons ev evs)
  show ?case
  proof (cases ev)
    case (Arrives j i now)
    let ?c = "sent ! j ! i"
    from Cons.prems(2) Arrives have win: "j < length sent" "i < length (sent ! j)" "j < n + 2 ^ 15" "n < j + 2 ^ 15"
      and rest: "in_window sent evs (insert (j, i) (dom got)) n" by simp_all
    have "sent ! j \<in> set sent" "?c \<in> set (sent ! j)" using win(1,2) by simp_all
    then have small: "length (cd_user_data ?c) \<le> 65519" using assms(5) by blast
    then obtain bs where bs: "marshal_data ?c = Some bs" using marshal_data_Some by blast
    with data_chunk_roundtrip [OF small, of "replicate (get_padding_size (length bs)) 0" now]
    have wire: "unmarshal_data now (bs @ replicate (get_padding_size (length bs)) 0) = Some (Inr (received_chunk now ?c))"
      by simp
    obtain ok q' where q': "reassembly_push (received_chunk now ?c) (st_reassembly_queue s) = Some (ok, q')"
      "queue_holds si sent (arrive j i now got) n q'"
      using push_holds [OF Cons.prems(1) assms(2) win] by blast
    with is_readable_holds [OF q'(2) assms(2)] obtain b where
      "stream_handle_data (received_chunk now ?c) s = Some (b, s\<lparr>st_reassembly_queue := q'\<rparr>)"
      by (cases ok) (auto simp: stream_handle_data_def)
    with Cons.IH [of "arrive j i now got" n "s\<lparr>st_reassembly_queue := q'\<rparr>"] q'(2) rest Cons.prems(3) bs wire Arrives
    show ?thesis by simp
  next
    case (Reads cap)
    from read_holds [OF Cons.prems(1) assms(2), of cap] obtain r q' where
      q': "reassembly_read cap (st_reassembly_queue s) = Some (r, q')"
      "if all_there sent (dom got) n then r = message_read cap (sent ! n) \<and> queue_holds si sent got (n + 1) q'
       else r = Inl ErrTryAgain \<and> queue_holds si sent got n q'" by blast
    let ?s = "s\<lparr>st_reassembly_queue := q'\<rparr>"
    have "read_sctp_turn cap s = Some (delivered_or_waits r, ?s)"
      using q' Cons.prems(3)
      by (auto simp: read_sctp_turn_def delivered_or_waits_def message_read_def Let_def split: if_splits)
    with Cons.IH [of got "n + 1" ?s] Cons.IH [of got n ?s] Cons.prems(2,3) q' Reads show ?thesis
      by (simp split: if_splits)
  qed
qed simp

lemma write_sctp_fits:
  assumes "write_fits (st_max_payload_size s) (st_max_message_size s) w"
    and "st_state s = AsEstablished" "\<not> st_write_shutdown s" "\<not> st_unordered s"
  shows "\<exists>cs. packetize (wo_now w) (wo_data w) (wo_ppi w) (wo_options w) s =
      Some (cs, s\<lparr>st_sequence_number := st_sequence_number s + 1,
                 st_buffered_amount := st_buffered_amount s + length (wo_data w)\<rparr>) \<and>
    write_sctp (wo_now w) (wo_data w) (wo_ppi w) (wo_options w) s =
      Some (Inr (length (wo_data w)), cs, s\<lparr>st_sequence_number := st_sequence_number s + 1,
                 st_buffered_amount := st_buffered_amount s + length (wo_data w)\<rparr>) \<and>
    (\<forall>c \<in> set cs. length (cd_user_data c) \<le> 65519)"
proof -
  let ?m = "unat (st_max_payload_size s)"
  let ?b = "case wo_options w of Some opts \<Rightarrow> uso_bypass_sctp_fragmentation opts | None \<Rightarrow> False"
  let ?c = "(default_chunk (wo_now w))\<lparr>cd_stream_identifier := st_stream_identifier s, cd_unordered := False,
    cd_payload_type := wo_ppi w, cd_stream_sequence_number := st_sequence_number s,
    cd_udp_send_options := wo_options w\<rparr>"
  have "?b \<or> 0 < ?m" using assms(1) by (simp add: write_fits_def)
  from packetize_loop_Some [OF this, of ?c 0 "wo_data w"] obtain cs where
    cs: "packetize_loop ?c ?m ?b 0 (wo_data w) = Some cs"
    "\<forall>k < length cs. length (cd_user_data (cs ! k)) \<le> (if ?b then length (wo_data w) else ?m)"
    by blast
  have fits: "(if ?b then length (wo_data w) else ?m) \<le> 65519"
    using assms(1) by (auto simp: write_fits_def split: option.splits)
  have "length (cd_user_data c) \<le> 65519" if "c \<in> set cs" for c
  proof -
    from that obtain k where "k < length cs" "c = cs ! k" by (auto simp: in_set_conv_nth)
    with cs(2) have "length (cd_user_data c) \<le> (if ?b then length (wo_data w) else ?m)" by blast
    with fits show ?thesis by (rule order_trans [rotated])
  qed
  then have "\<forall>c \<in> set cs. length (cd_user_data c) \<le> 65519" by blast
  moreover have "packetize (wo_now w) (wo_data w) (wo_ppi w) (wo_options w) s =
      Some (cs, s\<lparr>st_sequence_number := st_sequence_number s + 1,
                 st_buffered_amount := st_buffered_amount s + length (wo_data w)\<rparr>)"
    using cs(1) assms(4) by (simp add: packetize_def)
  moreover from this have "write_sctp (wo_now w) (wo_data w) (wo_ppi w) (wo_options w) s =
      Some (Inr (length (wo_data w)), cs, s\<lparr>st_sequence_number := st_sequence_number s + 1,
                 st_buffered_amount := st_buffered_amount s + length (wo_data w)\<rparr>)"
    using assms by (simp add: write_sctp_def prepare_write_def write_fits_def)
  ultimately show ?thesis by blast
qed

lemma write_all_fits:
  assumes "\<forall>w \<in> set ws. write_fits (st_max_payload_size s) (st_max_message_size s) w"
    and "st_state s = AsEstablished" "\<not> st_write_shutdown s" "\<not> st_unordered s"
    and "st_sequence_number s = of_nat j"
  shows "\<exists>css s'. write_all ws s = Some (zip (map (\<lambda>w. Inr (length (wo_data w))) ws) css, s') \<and>
    length css = length ws \<and> (\<forall>cs \<in> set css. \<forall>c \<in> set cs. length (cd_user_data c) \<le> 65519) \<and>
    (\<forall>k < length ws. \<forall>t cs' t'. assign_tsns t (css ! k) = Some (cs', t') \<longrightarrow>
       fragments_of (st_stream_identifier s) (j + k) (unat t) cs' \<and>
       concat (map cd_user_data cs') = wo_data (ws ! k) \<and> cd_payload_type (cs' ! 0) = wo_ppi (ws ! k))"
  using assms
proof (induction ws arbitrary: s j)
  case (Cons w ws)
  let ?s = "s\<lparr>st_sequence_number := st_sequence_number s + 1,
      st_buffered_amount := st_buffered_amount s + length (wo_data w)\<rparr>"
  from write_sctp_fits [of s w] Cons.prems obtain cs where
    cs: "packetize (wo_now w) (wo_data w) (wo_ppi w) (wo_options w) s = Some (cs, ?s)"
    "write_sctp (wo_now w) (wo_data w) (wo_ppi w) (wo_options w) s = Some (Inr (length (wo_data w)), cs, ?s)"
    "\<forall>c \<in> set cs. length (cd_user_data c) \<le> 65519" by auto
  from Cons.IH [of ?s "Suc j"] Cons.prems obtain css s' where css:
    "write_all ws ?s = Some (zip (map (\<lambda>w. Inr (length (wo_data w))) ws) css, s')" "length css = length ws"
    "\<forall>cs \<in> set css. \<forall>c \<in> set cs. length (cd_user_data c) \<le> 65519"
    "\<forall>k < length ws. \<forall>t cs' t'. assign_tsns t (css ! k) = Some (cs', t') \<longrightarrow>
       fragments_of (st_stream_identifier s) (Suc j + k) (unat t) cs' \<and>
       concat (map cd_user_data cs') = wo_data (ws ! k) \<and> cd_payload_type (cs' ! 0) = wo_ppi (ws ! k)"
    by (auto simp: add.commute)
  have "fragments_of (st_stream_identifier s) j (unat t) cs' \<and> concat (map cd_user_data cs') = wo_data w \<and>
      cd_payload_type (cs' ! 0) = wo_ppi w" if "assign_tsns t cs = Some (cs', t')" for t cs' t'
    using numbered_fragments [OF cs(1) that, of j] Cons.prems by (simp add: write_fits_def)
  with css(4) have "\<forall>k < length (w # ws). \<forall>t cs' t'. assign_tsns t ((cs # css) ! k) = Some (cs', t') \<longrightarrow>
       fragments_of (st_stream_identifier s) (j + k) (unat t) cs' \<and>
       concat (map cd_user_data cs') = wo_data ((w # ws) ! k) \<and> cd_payload_type (cs' ! 0) = wo_ppi ((w # ws) ! k)"
    by (auto simp: nth_Cons split: nat.splits)
  with cs css show ?case by (intro exI [of _ "cs # css"] exI [of _ s']) simp
qed simp

text \<open>
  C39. From one application to the other over an ordered stream. Messages that fit (not empty,
  within the limits) are all accepted by the writer and cut into fragments. Once the association
  has numbered the fragments of each message (a numbering that would wrap around panics before
  anything is sent), the fragments travel as padded DATA chunks. Whatever order they arrive in,
  repeated or long after their message was read, mixed with reads at any time, as long as they
  are within half of the sequence number space of the next message: the receiver does not panic,
  and every read gets exactly the next message, with its bytes and protocol identifier as they
  were written, once all its fragments are there, and waits before that.
\<close>

theorem stream_transfers_messages:
  assumes "\<forall>w \<in> set ws. write_fits mp mm w"
  shows "\<exists>css s'. write_all ws (new_stream si mp mm AsEstablished) =
      Some (zip (map (\<lambda>w. Inr (length (wo_data w))) ws) css, s') \<and> length css = length ws \<and>
    (\<forall>sent evs. numbered css sent \<longrightarrow> in_window sent evs {} 0 \<longrightarrow>
       transfer_run sent evs (new_stream si mp mm AsEstablished) =
         Some (map delivered_or_waits (stream_reads sent evs {} 0)) \<and>
       (\<forall>k < length ws. concat (map cd_user_data (sent ! k)) = wo_data (ws ! k) \<and>
          cd_payload_type (sent ! k ! 0) = wo_ppi (ws ! k)))"
proof -
  let ?s = "new_stream si mp mm AsEstablished"
  from assms write_all_fits [of ws ?s 0] obtain css s' where css:
    "write_all ws ?s = Some (zip (map (\<lambda>w. Inr (length (wo_data w))) ws) css, s')"
    "length css = length ws" "\<forall>cs \<in> set css. \<forall>c \<in> set cs. length (cd_user_data c) \<le> 65519"
    "\<forall>k < length ws. \<forall>t cs' t'. assign_tsns t (css ! k) = Some (cs', t') \<longrightarrow> fragments_of si k (unat t) cs' \<and>
       concat (map cd_user_data cs') = wo_data (ws ! k) \<and> cd_payload_type (cs' ! 0) = wo_ppi (ws ! k)"
    by (auto simp: new_stream_def)
  have "transfer_run sent evs ?s = Some (map delivered_or_waits (stream_reads sent evs {} 0)) \<and>
      (\<forall>k < length ws. concat (map cd_user_data (sent ! k)) = wo_data (ws ! k) \<and>
        cd_payload_type (sent ! k ! 0) = wo_ppi (ws ! k))"
    if num: "numbered css sent" and win: "in_window sent evs {} 0" for sent evs
  proof -
    from num have len: "length sent = length ws" using css(2) by (auto simp: numbered_def dest: list_all2_lengthD)
    have k: "\<exists>t t'. assign_tsns t (css ! k) = Some (sent ! k, t')" if "k < length ws" for k
      using num that css(2) by (auto simp: numbered_def list_all2_conv_all_nth)
    then have "sent_on si sent" unfolding sent_on_def len using css(4) by blast
    moreover have "length (cd_user_data c) \<le> 65519" if c: "cs \<in> set sent" "c \<in> set cs" for cs c
    proof -
      from c obtain k i where ki: "k < length ws" "cs = sent ! k" "i < length cs" "c = cs ! i"
        unfolding in_set_conv_nth len by blast
      with k obtain t t' where "assign_tsns t (css ! k) = Some (cs, t')" by blast
      from assign_tsns_Some [OF this] ki have "i < length (css ! k)"
        "cd_user_data c = cd_user_data (css ! k ! i)" by auto
      with css(2,3) ki(1) show ?thesis by (metis nth_mem)
    qed
    ultimately have "transfer_run sent evs ?s = Some (map delivered_or_waits (stream_reads sent evs {} 0))"
      using transfer_run_reads [of si sent Map.empty 0 ?s evs] new_queue_holds [of si sent] win
      by (simp add: new_stream_def)
    with css(4) k show ?thesis by blast
  qed
  with css(1,2) show ?thesis by blast
qed

text \<open>Five bytes in three fragments, the last one first.\<close>

definition sample_write :: write_op where
  "sample_write = \<lparr>wo_now = 0, wo_data = [1, 2, 3, 4, 5], wo_ppi = PpiBinary, wo_options = None\<rparr>"

definition sample_transfer :: "stream_event list" where
  "sample_transfer = [Arrives 0 2 1, Reads 9, Arrives 0 0 2, Arrives 0 1 3, Arrives 0 2 4, Reads 9, Reads 9]"

definition sample_chunk :: "u32 \<Rightarrow> bool \<Rightarrow> bool \<Rightarrow> bytes \<Rightarrow> ChunkPayloadData" where
  "sample_chunk tsn b e data = (default_chunk 0)\<lparr>cd_tsn := tsn, cd_beginning_fragment := b,
     cd_ending_fragment := e, cd_user_data := data, cd_payload_type := PpiBinary\<rparr>"

definition sample_sent :: "ChunkPayloadData list list" where
  "sample_sent = [[sample_chunk 7 True False [1, 2], sample_chunk 8 False False [3, 4], sample_chunk 9 False True [5]]]"

lemma sample_write_all:
  "\<exists>s'. write_all [sample_write] (new_stream 0 2 100 AsEstablished) = Some ([(Inr 5,
     [sample_chunk 0 True False [1, 2], sample_chunk 0 False False [3, 4], sample_chunk 0 False True [5]])], s')"
  by (simp add: write_sctp_def prepare_write_def packetize_def packetize_loop.simps new_stream_def
      sample_write_def sample_chunk_def default_chunk_def Let_def)

lemma sample_numbered:
  "numbered [[sample_chunk 0 True False [1, 2], sample_chunk 0 False False [3, 4], sample_chunk 0 False True [5]]]
     sample_sent"
proof -
  have "\<exists>t'. assign_tsns 7 [sample_chunk 0 True False [1, 2], sample_chunk 0 False False [3, 4],
      sample_chunk 0 False True [5]] = Some (hd sample_sent, t')"
    by (simp add: generate_next_tsn_def add_checked_def sample_chunk_def default_chunk_def sample_sent_def)
  then show ?thesis by (auto simp: numbered_def sample_sent_def)
qed

theorem stream_transfers_messages_witness:
  "transfer_run sample_sent sample_transfer (new_stream 0 2 100 AsEstablished) =
     Some [None, Some (Inr ([1, 2, 3, 4, 5], PpiBinary)), None]"
proof -
  have "\<forall>w \<in> set [sample_write]. write_fits 2 100 w" by (simp add: write_fits_def sample_write_def)
  from stream_transfers_messages [OF this, of 0] obtain css s' where
    css: "write_all [sample_write] (new_stream 0 2 100 AsEstablished) =
      Some (zip (map (\<lambda>w. Inr (length (wo_data w))) [sample_write]) css, s')" "length css = 1"
    and run: "numbered css sample_sent \<Longrightarrow> in_window sample_sent sample_transfer {} 0 \<Longrightarrow>
      transfer_run sample_sent sample_transfer (new_stream 0 2 100 AsEstablished) =
        Some (map delivered_or_waits (stream_reads sample_sent sample_transfer {} 0))"
    by auto
  from css(2) obtain cs where "css = [cs]" by (cases css) auto
  with css(1) sample_write_all have "numbered css sample_sent" using sample_numbered by auto
  moreover have "in_window sample_sent sample_transfer {} 0"
    by (simp add: sample_sent_def sample_transfer_def)
  moreover have "stream_reads sample_sent sample_transfer {} 0 =
      [Inl ErrTryAgain, Inr ([1, 2, 3, 4, 5], PpiBinary), Inl ErrTryAgain]"
    by (simp add: sample_sent_def sample_transfer_def all_there_def All_less_Suc numeral_2_eq_2
        message_read_def sample_chunk_def default_chunk_def) (rule exI [of _ 0], simp)
  ultimately show ?thesis using run by (simp add: delivered_or_waits_def)
qed

text \<open>
  TSNs are numbers modulo \<open>2 ^ 32\<close>, but the successor is computed with a checked addition: a
  message in two fragments whose first TSN is the largest one makes the receiver panic.
\<close>

lemma tsn_wrap_panics:
  "run_ticks queue_turn [PushChunk (sample_fragment 0xFFFFFFFF True False 1), PushChunk (sample_fragment 0 False True 2)]
     (new_reassembly_queue 0) = None"
  by (simp add: queue_eval)

end
