(* ===== verification/Spec2Isabelle.thy ===== *)
theory Spec2Isabelle
  imports Icmp_Wiring Packet_Capture Tracing_Buffer Dtls_Keylog Survey_Session Iperf3_Server Traceroute_Rounds Session_Runs
    Dtls_Conn Sctp_Stream
begin

text \<open>
  Netpoke measures the network path between a browser and a server. The browser opens WebRTC
  data channels to the server, both sides exchange probes, and the server sends probes with
  a small TTL so that routers on the path answer with ICMP errors. Surveyors log in or use a
  magic key; an iperf3 server on the side admits the addresses that the web part has
  authenticated. This development models the server's components and proves what each
  promises and what their composition gives.

  \<^bold>\<open>Conventions.\<close> The model is a shallow embedding. A Rust integer is a word of its width;
  the release profile sets \<open>overflow-checks = true\<close>, so an overflow, an index out of range or
  an \<open>unwrap\<close> of nothing is a panic, and a panic is \<open>None\<close> of the outermost \<open>option\<close> of an
  operation (the \<open>do\<close> notation of \<open>Monad_Syntax\<close> threads it). Rust's own \<open>Option\<close> and
  \<open>Result\<close> are values inside. \<open>usize\<close> counters are \<open>nat\<close>, an \<open>Instant\<close> or \<open>Duration\<close> is
  \<open>nat\<close> nanoseconds, a Rust string is its UTF-8 bytes as a \<open>string\<close>. A hash map is a map, or
  an association list with distinct keys where the code iterates over it. The clock, random
  identifiers, the JSON codec, password hashes, cookies jars and OAuth providers are
  arguments; what is assumed of them is a named predicate that a witness instantiates.
  Concurrent tasks are runs: lists of atomic steps, or step relations, with every
  interleaving allowed.

  \<^bold>\<open>Foundations.\<close>
  \<^item> \<open>Netpoke_Prelude\<close>: words, bytes, checked arithmetic, slices, addresses, association lists.
  \<^item> \<open>Rust_Strings\<close> and \<open>Rust_Net\<close>: the parts of Rust's \<open>str\<close>, \<open>fmt\<close> and \<open>IpAddr\<close> parser in use.
  \<^item> \<open>Wire_Format\<close>: reference layouts of UDP, IPv4 and IPv6 headers from the standards.
  \<^item> \<open>Interfaces\<close>: the contracts as locales. \<open>event_router\<close> is interpreted on the event queue
    of the packet tracker, \<open>bounded_log\<close> on the packet ring and on the tracing buffer,
    \<open>expiring_table\<close> on the cache of authenticated addresses.

  \<^bold>\<open>Probes and ICMP errors\<close> (\<open>server/src\<close>).
  \<^item> \<open>Common_Protocol\<close>, \<open>Tracking_Channel\<close> (\<open>tracking_channel.rs\<close>): the UDP checksum routines
    agree with RFC 1071 and never panic; the entry points of the UDP layer.
  \<^item> \<open>Packet_Tracker\<close> (\<open>packet_tracker.rs\<close>): the table of probes and the event queue. Over
    every interleaving no event is lost, duplicated or misdelivered, each stems from one send,
    and a tracked probe is reported by the first error that quotes it before its deadline.
  \<^item> \<open>Icmp_Listener\<close> (\<open>icmp_listener.rs\<close>): both parsers never panic and read what a router
    quotes.
  \<^item> \<open>Server_State\<close> (\<open>state.rs\<close>) and \<open>Icmp_Wiring\<close> (callbacks of \<open>main.rs\<close>): a burst of five
    unmatched errors closes exactly the session it hits.
  \<^item> This theory composes them: a probe sent over IPv4 or IPv6 and the ICMP error that quotes it
    give exactly one event that reports the probe.

  \<^bold>\<open>Diagnostics\<close> (\<open>server/src\<close>).
  \<^item> \<open>Packet_Capture\<close> (\<open>packet_capture.rs\<close>): the ring keeps the newest packets, frames of
    registered clients and errors about them are tagged, the PCAP file reads back.
  \<^item> \<open>Tracing_Buffer\<close> (\<open>tracing_buffer.rs\<close>) and \<open>Dtls_Keylog\<close> (\<open>dtls_keylog.rs\<close>): newest log
    lines in order; key logs refine a bounded queue of sessions and export one line per key.

  \<^bold>\<open>Measurements\<close> (\<open>server/src/measurements.rs\<close>, \<open>data_channels.rs\<close>).
  \<^item> \<open>Measurement_State\<close>: the measurement state of a session (\<open>state.rs\<close>) and the metrics
    structure; floating point is an abstract type with the operations the code uses.
  \<^item> \<open>Measurements\<close>: the sender loops, each as the function of one turn, and the packet handlers.
  \<^item> \<open>Measurement_Metrics\<close>: the metrics of a window are its mean delay, jitter, loss and
    reordering, and computing them panics in exactly the cases named.
  \<^item> \<open>Traceroute_Rounds\<close>: a traceroute round ends within 44 turns; an MTU round sends packets of
    the requested size.
  \<^item> \<open>Data_Channels\<close>: opening of channels and every control message; \<open>Session_Runs\<close> lets all
    handlers and tasks of a session interleave: echoes carry the send times of the probes they
    answer, no probe is sent after the measuring time, and a control message panics in exactly
    four cases. Arguments of log macros below the enabled level are not evaluated.

  \<^bold>\<open>The DTLS receiver\<close> (\<open>vendored/dtls/src\<close>, \<open>vendored/webrtc-util/src\<close>).
  \<^item> \<open>Wire_Readers\<close>: big-endian reads that fail at the end of the input.
  \<^item> \<open>Dtls_Records\<close> (\<open>record_layer\<close>, \<open>handshake_header.rs\<close>, \<open>alert\<close>): headers round trip, a
    datagram is cut into its records.
  \<^item> \<open>Dtls_Fragments\<close> (\<open>fragment_buffer\<close>): fragments in any order give the message back.
  \<^item> \<open>Replay_Detector\<close> (\<open>fixed_big_int\<close>, \<open>replay_detector\<close>): the locale \<open>replay_detector\<close> is
    the contract of a detector, interpreted on the sliding window, which refines the set of
    numbers accepted so far.
  \<^item> \<open>Dtls_Conn\<close> (\<open>conn/mod.rs\<close>): the reader task. No record reaches the application twice,
    whatever the network repeats.

  \<^bold>\<open>SCTP streams\<close> (\<open>vendored/webrtc-sctp/src\<close>).
  \<^item> \<open>Udp_Options\<close>: the socket options that travel with a message.
  \<^item> \<open>Sctp_Serial\<close> (\<open>util.rs\<close>): serial number comparison, which agrees with the unwrapped numbers
    inside half of the number space, and the stable sort of the queues.
  \<^item> \<open>Sctp_Chunks\<close> (\<open>chunk\<close>): chunk headers and DATA chunks, which round trip.
  \<^item> \<open>Sctp_Reassembly\<close> (\<open>queue/reassembly_queue.rs\<close>): every operation keeps the queue well formed.
  \<^item> \<open>Sctp_Delivery\<close>: the queue against a specification that only knows which fragments arrived
    and how many messages were read.
  \<^item> \<open>Sctp_Stream\<close> (\<open>stream/mod.rs\<close>): writer, wire format and reader together transfer messages
    in order; TSNs that wrap around inside a message panic.

  \<^bold>\<open>Access\<close> (\<open>auth/src\<close>, \<open>server/src\<close>).
  \<^item> \<open>Auth_Service\<close>: configuration, sessions, plain login, cookies, the middleware and the OAuth
    routes. A login opens the protected routes exactly until its timeout; an OAuth state gives
    at most one session over every run of requests.
  \<^item> \<open>Auth_Cache\<close> (\<open>auth_cache.rs\<close>): an address is admitted exactly while its last record or
    refresh is recent.
  \<^item> \<open>Survey_Session\<close> (\<open>auth_handlers.rs\<close>, \<open>survey_middleware.rs\<close>): magic keys and survey
    sessions; the status page, the middleware and the cache agree; keys with an underscore are
    locked out.

  \<^bold>\<open>The iperf3 server\<close> (\<open>iperf3-server/src\<close>).
  \<^item> \<open>Iperf3_Protocol\<close>: state bytes, parameters and the framing of control messages, which round
    trip.
  \<^item> \<open>Iperf3_Session\<close>: counters and the data loops; a limited sender keeps its rate.
  \<^item> \<open>Iperf3_Run\<close>: \<open>run_session_protocol\<close> as a step relation. A session keeps to the protocol
    transcript and to the configured limits, cannot get stuck, and serves a client that follows
    the protocol to the end. A rank bounds the number of program points a session visits.
  \<^item> \<open>Iperf3_Server\<close>: admission through the address cache, the accept loop and the session
    table, with the two ways in which the session limit misbehaves.

  \<^bold>\<open>Termination.\<close> No definition uses fuel: every loop of the source that is modelled is
  structural or has a termination proof, and the endless loops of tasks are single turns whose
  iteration is a run.

  \<^bold>\<open>Not modelled.\<close> Sockets, files, the database and the HTTP framework; the browser client;
  HTML pages; the network requests of the OAuth providers; floating point statistics of the
  final iperf3 report; of the vendored WebRTC stack, ICE, SRTP, the DTLS handshake state machine
  and its cryptography (a cipher suite is an argument), and the SCTP association with its
  handshake, retransmission and congestion control.
\<close>

section \<open>From a probe to its event\<close>

definition probe_v4 ::
  "nat \<Rightarrow> u32 \<Rightarrow> u16 \<Rightarrow> u32 \<Rightarrow> u16 \<Rightarrow> u16 \<Rightarrow> u8 \<Rightarrow> bytes \<Rightarrow> bytes option \<Rightarrow> u16 \<Rightarrow> UdpPacketInfo" where
  "probe_v4 sent src sp dst dp len hops payload conn k =
     tracking_info \<lparr>ts_dest_addr = SocketAddr (V4 dst) dp,
       ts_src_addr = Some (SocketAddr (V4 src) sp), ts_udp_length = len, ts_ttl = Some hops,
       ts_cleartext = payload, ts_sent_at = sent, ts_conn_id = conn_id_of conn,
       ts_udp_checksum = k\<rparr> hops"

definition probe_v6 ::
  "nat \<Rightarrow> u128 \<Rightarrow> u16 \<Rightarrow> u128 \<Rightarrow> u16 \<Rightarrow> u16 \<Rightarrow> u8 \<Rightarrow> bytes \<Rightarrow> bytes option \<Rightarrow> u16 \<Rightarrow> UdpPacketInfo" where
  "probe_v6 sent src sp dst dp len hops payload conn k =
     tracking_info \<lparr>ts_dest_addr = SocketAddr (V6 dst) dp,
       ts_src_addr = Some (SocketAddr (V6 src) sp), ts_udp_length = len, ts_ttl = Some hops,
       ts_cleartext = payload, ts_sent_at = sent, ts_conn_id = conn_id_of conn,
       ts_udp_checksum = k\<rparr> hops"

text \<open>What an event says of the probe it reports.\<close>

definition reports ::
  "TrackedPacketEvent \<Rightarrow> nat \<Rightarrow> bytes \<Rightarrow> bytes option \<Rightarrow> u8 \<Rightarrow> ip_addr \<Rightarrow> nat \<Rightarrow> bool" where
  "reports ev sent payload conn hops router header_len \<longleftrightarrow>
     ev_cleartext ev = payload \<and> ev_conn_id ev = conn_id_of conn \<and>
     ttl (ev_send_options ev) = Some hops \<and> ev_sent_at ev = sent \<and>
     ev_router_ip ev = Some (fmt_ip router) \<and>
     ev_tracked_ip_length ev = header_len + 8 + length payload"

lemma tracked_of_tracking_info:
  "tp_expires_at (tracked_of (tracking_info a h)) = ts_sent_at a + ms 5000"
  "tracked_send_ok (tracking_info a h) \<longleftrightarrow> ts_udp_checksum a \<noteq> 0"
  "key_of (tracking_info a h) = ChecksumKey (ts_dest_addr a) (ts_udp_length a) (ts_udp_checksum a)"
  "ui_udp_length (tracking_info a h) = ts_udp_length a"
  by (simp_all add: tracked_of_def tracking_info_def tracked_send_ok_def key_of_def)

lemma reports_event_of:
  assumes "tp_cleartext p = payload" and "tp_conn_id p = conn_id_of conn"
    and "ttl (tp_send_options p) = Some hops" and "tp_sent_at p = sent"
    and "unat n = header_len + 8 + length payload"
  shows "reports (event_of now pkt e (Some (fmt_ip router)) n p) sent payload conn hops router header_len"
  using assms by (simp add: reports_def event_of_def)

lemma track_v4_sends:
  assumes "payload \<noteq> []" and "length payload \<le> 65487" and "k \<noteq> 0"
    and "checksum_accepts (datagram_v4 src dst sp dp k payload)"
  shows "netpoke_track_udp_packet (Some tracking_callback) sent src sp dst dp len hops
    (Some payload) conn t = Some (tx_send (probe_v4 sent src sp dst dp len hops payload conn k) t)"
  using assms checksum_v4_of_valid [of payload k src dst sp dp]
  by (simp add: netpoke_track_udp_packet_def track_udp_packet_def tracking_callback_def probe_v4_def)

text \<open>
  C1. End to end over IPv4: a probe that the UDP layer reports is tracked under the checksum
  its datagram carries on the wire, so the first ICMP error within its five seconds that quotes
  it (from any router, with any IP options, with any part of the payload) gives, whatever else
  the server does in between, exactly one more event in the queue, and this event holds the
  probe's payload, connection, TTL, send time and size and the router's address.
\<close>

theorem probe_error_reaches_queue_v4:
  assumes payload: "payload \<noteq> []" "length payload \<le> 65487" "len = of_nat (8 + length payload)"
    and wire: "k \<noteq> 0" "checksum_accepts (datagram_v4 src dst sp dp k payload)"
    and quote: "length outer = 20" "length rest = 7" "ty \<in> {3, 11, 12}" "ipv4_header 17 src dst hdr"
    and idle: "tracking_rx t = []"
    and run: "run_tracker (Receive # ops)
      (tx_send (probe_v4 sent src sp dst dp len hops payload conn k) t, s) = Some (lg, t1, s1)"
    and quiet: "\<forall>op \<in> set ops.
      quiet_for (ChecksumKey (SocketAddr (V4 dst) dp) len k) (sent + ms 5000) op"
  shows "netpoke_track_udp_packet (Some tracking_callback) sent src sp dst dp len hops
      (Some payload) conn t =
      Some (tx_send (probe_v4 sent src sp dst dp len hops payload conn k) t) \<and>
    (\<exists>ev. icmp_listener_v4 now
        (icmp_v4_quote outer ty rest hdr (udp_header sp dp len k @ take n payload)) router (t1, s1) =
      Some (t1\<lparr>checksum_index := (checksum_index t1)(ChecksumKey (SocketAddr (V4 dst) dp) len k := None),
              event_queue := event_queue t1 @ [ev]\<rparr>, s1) \<and>
      reports ev sent payload conn hops router 20)"
proof -
  let ?info = "probe_v4 sent src sp dst dp len hops payload conn k"
  let ?pkt = "icmp_v4_quote outer ty rest hdr (udp_header sp dp len k @ take n payload)"
  let ?e = "embedded_of (V4 dst) sp dp len k (take n payload)"
  have ulen: "unat len = 8 + length payload"
    unfolding payload(3) using payload(2) by (intro unat_of_nat_small) simp
  have ok: "tracked_send_ok ?info" "embedded_key ?e = key_of ?info" "unat (ui_udp_length ?info) \<le> 65495"
    using wire(1) ulen payload(2)
    by (simp_all add: probe_v4_def tracked_of_tracking_info embedded_key_def embedded_of_def)
  have key: "key_of ?info = ChecksumKey (SocketAddr (V4 dst) dp) len k"
    and exp: "tp_expires_at (tracked_of ?info) = sent + ms 5000"
    by (simp_all add: probe_v4_def tracked_of_tracking_info)
  have rep: "reports (event_of now ?pkt ?e (Some (fmt_ip router)) (len + 20) (tracked_of ?info))
      sent payload conn hops router 20"
    using unat_tracked_length [of len False] ulen payload(2)
    by (intro reports_event_of) (simp_all add: probe_v4_def tracked_of_def tracking_info_def)
  have "icmp_listener_v4 now ?pkt router (t1, s1) =
    Some (t1\<lparr>checksum_index := (checksum_index t1)(ChecksumKey (SocketAddr (V4 dst) dp) len k := None),
      event_queue := event_queue t1 @
        [event_of now ?pkt ?e (Some (fmt_ip router)) (len + 20) (tracked_of ?info)]\<rparr>, s1)"
    using match_after_run [OF idle ok(1) run quiet [folded key exp] ok(2,3), of now ?pkt
        "class_of_icmp ty" False "Some (fmt_ip router)"]
    by (simp add: icmp_listener_v4_def parse_quote_v4 [OF quote] key probe_v4_def
        tracked_of_tracking_info)
  with track_v4_sends [OF payload(1,2) wire] rep show ?thesis by blast
qed

theorem probe_error_reaches_queue_v4_witness:
  "\<exists>t0 t1 ev. netpoke_track_udp_packet (Some tracking_callback) 0 0x0A000001 4000 0x0A000009 5000 12 3
      (Some [1, 2, 3, 4]) None new_tracker = Some t0 \<and>
    run_tracker [Receive] (t0, ()) = Some ([], t1, ()) \<and>
    icmp_listener_v4 9 (icmp_v4_quote (replicate 20 0) 11 (replicate 7 0) sample_hdr_v4
          (udp_header 4000 5000 12 50334 @ take 2 [1, 2, 3, 4])) (V4 0x0A000005) (t1, ()) =
        Some (t1\<lparr>checksum_index := (checksum_index t1)
                  (ChecksumKey (SocketAddr (V4 0x0A000009) 5000) 12 50334 := None),
                event_queue := event_queue t1 @ [ev]\<rparr>, ()) \<and>
        reports ev 0 [1, 2, 3, 4] None 3 (V4 0x0A000005) 20"
proof -
  have run: "run_tracker (Receive # []) (tx_send (probe_v4 0 0x0A000001 4000 0x0A000009 5000 12 3 [1, 2, 3, 4] None 50334) new_tracker, ()) =
    Some ([], tracking_receiver_turn (tx_send (probe_v4 0 0x0A000001 4000 0x0A000009 5000 12 3 [1, 2, 3, 4] None 50334) new_tracker), ())" by simp
  have "checksum_accepts (datagram_v4 0x0A000001 0x0A000009 4000 5000 50334 [1, 2, 3, 4])"
    by (simp add: checksum_accepts_def datagram_v4_def v4_octets_def be_bytes_numeral)
  from probe_error_reaches_queue_v4 [OF _ _ _ _ this _ _ _ sample_hdr_v4_ok _ run,
      of "replicate 20 0" "replicate 7 0" 11 9 2 "V4 0x0A000005"] run
  show ?thesis by (fastforce simp: new_tracker_def)
qed

lemma track_v6_sends:
  assumes "payload \<noteq> []" and "length payload \<le> 65487" and "k \<noteq> 0"
    and "checksum_accepts (datagram_v6 src dst sp dp k payload)"
  shows "netpoke_track_udp_packet_v6 (Some tracking_callback) sent (Some (v6_octets src)) sp
    (Some (v6_octets dst)) dp len hops (Some payload) conn t =
    Some (tx_send (probe_v6 sent src sp dst dp len hops payload conn k) t)"
  using assms checksum_v6_of_valid [of payload k src dst sp dp]
  by (simp add: netpoke_track_udp_packet_v6_def track_udp_packet_def tracking_callback_def probe_v6_def
      Let_def)

text \<open>
  End to end over IPv6: a probe that the UDP layer reports is tracked under the checksum
  its datagram carries on the wire, so the first ICMP error within its five seconds that quotes
  it (from any router, with any part of the payload) gives, whatever else
  the server does in between, exactly one more event in the queue, and this event holds the
  probe's payload, connection, TTL, send time and size and the router's address.
\<close>

theorem probe_error_reaches_queue_v6:
  assumes payload: "payload \<noteq> []" "length payload \<le> 65487" "len = of_nat (8 + length payload)"
    and wire: "k \<noteq> 0" "checksum_accepts (datagram_v6 src dst sp dp k payload)"
    and quote: "length rest = 7" "ty \<in> {1, 2, 3}" "ipv6_header 17 src dst hdr"
    and idle: "tracking_rx t = []"
    and run: "run_tracker (Receive # ops)
      (tx_send (probe_v6 sent src sp dst dp len hops payload conn k) t, s) = Some (lg, t1, s1)"
    and quiet: "\<forall>op \<in> set ops.
      quiet_for (ChecksumKey (SocketAddr (V6 dst) dp) len k) (sent + ms 5000) op"
  shows "netpoke_track_udp_packet_v6 (Some tracking_callback) sent (Some (v6_octets src)) sp
      (Some (v6_octets dst)) dp len hops (Some payload) conn t =
      Some (tx_send (probe_v6 sent src sp dst dp len hops payload conn k) t) \<and>
    (\<exists>ev. icmp_listener_v6 now
        (icmp_v6_quote ty rest hdr (udp_header sp dp len k @ take n payload)) router (t1, s1) =
      Some (t1\<lparr>checksum_index := (checksum_index t1)(ChecksumKey (SocketAddr (V6 dst) dp) len k := None),
              event_queue := event_queue t1 @ [ev]\<rparr>, s1) \<and>
      reports ev sent payload conn hops router 40)"
proof -
  let ?info = "probe_v6 sent src sp dst dp len hops payload conn k"
  let ?pkt = "icmp_v6_quote ty rest hdr (udp_header sp dp len k @ take n payload)"
  let ?e = "embedded_of (V6 dst) sp dp len k (take n payload)"
  have ulen: "unat len = 8 + length payload"
    unfolding payload(3) using payload(2) by (intro unat_of_nat_small) simp
  have ok: "tracked_send_ok ?info" "embedded_key ?e = key_of ?info" "unat (ui_udp_length ?info) \<le> 65495"
    using wire(1) ulen payload(2)
    by (simp_all add: probe_v6_def tracked_of_tracking_info embedded_key_def embedded_of_def)
  have key: "key_of ?info = ChecksumKey (SocketAddr (V6 dst) dp) len k"
    and exp: "tp_expires_at (tracked_of ?info) = sent + ms 5000"
    by (simp_all add: probe_v6_def tracked_of_tracking_info)
  have rep: "reports (event_of now ?pkt ?e (Some (fmt_ip router)) (len + 40) (tracked_of ?info))
      sent payload conn hops router 40"
    using unat_tracked_length [of len True] ulen payload(2)
    by (intro reports_event_of) (simp_all add: probe_v6_def tracked_of_def tracking_info_def)
  have "icmp_listener_v6 now ?pkt router (t1, s1) =
    Some (t1\<lparr>checksum_index := (checksum_index t1)(ChecksumKey (SocketAddr (V6 dst) dp) len k := None),
      event_queue := event_queue t1 @
        [event_of now ?pkt ?e (Some (fmt_ip router)) (len + 40) (tracked_of ?info)]\<rparr>, s1)"
    using match_after_run [OF idle ok(1) run quiet [folded key exp] ok(2,3), of now ?pkt
        "class_of_icmpv6 ty" True "Some (fmt_ip router)"]
    by (simp add: icmp_listener_v6_def parse_quote_v6 [OF quote] key probe_v6_def
        tracked_of_tracking_info)
  with track_v6_sends [OF payload(1,2) wire] rep show ?thesis by blast
qed

theorem probe_error_reaches_queue_v6_witness:
  "\<exists>t0 t1 ev. netpoke_track_udp_packet_v6 (Some tracking_callback) 0 (Some (v6_octets 1)) 4000
      (Some (v6_octets 9)) 5000 12 3 (Some [1, 2, 3, 4]) None new_tracker = Some t0 \<and>
    run_tracker [Receive] (t0, ()) = Some ([], t1, ()) \<and>
    icmp_listener_v6 9 (icmp_v6_quote 3 (replicate 7 0) sample_hdr_v6
          (udp_header 4000 5000 12 55454 @ take 2 [1, 2, 3, 4])) (V4 0x0A000005) (t1, ()) =
        Some (t1\<lparr>checksum_index := (checksum_index t1)
                  (ChecksumKey (SocketAddr (V6 9) 5000) 12 55454 := None),
                event_queue := event_queue t1 @ [ev]\<rparr>, ()) \<and>
        reports ev 0 [1, 2, 3, 4] None 3 (V4 0x0A000005) 40"
proof -
  have run: "run_tracker (Receive # []) (tx_send (probe_v6 0 1 4000 9 5000 12 3 [1, 2, 3, 4] None 55454) new_tracker, ()) =
    Some ([], tracking_receiver_turn (tx_send (probe_v6 0 1 4000 9 5000 12 3 [1, 2, 3, 4] None 55454) new_tracker), ())" by simp
  have "checksum_accepts (datagram_v6 1 9 4000 5000 55454 [1, 2, 3, 4])"
    by (simp add: checksum_accepts_def datagram_v6_def v6_octets_def be_bytes_numeral)
  from probe_error_reaches_queue_v6 [OF _ _ _ _ this _ _ sample_hdr_v6_ok _ run,
      of "replicate 7 0" 3 9 2 "V4 0x0A000005"] run
  show ?thesis by (fastforce simp: new_tracker_def)
qed

end
